(* ===== verification/Prelude.thy ===== *)
theory Prelude
  imports Main
begin

text \<open>
  Shared vocabulary of the development.

  The program is Rust: operations return \<^verbatim>\<open>Result\<close>, mutate a structure behind a
  mutex, keep their tables in \<^verbatim>\<open>BTreeMap\<close>s and compute on fixed-width unsigned integers
  with explicit \<^verbatim>\<open>checked_\<close> operations.  This theory fixes how each of these is rendered:

  \<^item> results are values of a sum type, \<open>Inl\<close> the failure, sequenced by \<open>andThen\<close>;
  \<^item> mutating operations are functions from a state to a result and the state they leave
    behind, sequenced by \<open>seqM\<close>; the state a failing operation has already changed stays
    changed, as in the program;
  \<^item> a \<^verbatim>\<open>BTreeMap\<close> is an association list with strictly ascending keys, so that
    iteration order is part of the model;
  \<^item> unsigned integers are natural numbers, the width written out in the checked operations.
\<close>

named_theorems result_rules \<open>how a sequence of fallible steps succeeds\<close>
named_theorems state_rules \<open>how a sequence of state-changing steps succeeds\<close>

section \<open>Fallible computations\<close>

primrec andThen :: "'e + 'a \<Rightarrow> ('a \<Rightarrow> 'e + 'b) \<Rightarrow> 'e + 'b" where
  "andThen (Inl e) f = Inl e"
| "andThen (Inr x) f = f x"

definition ensure :: "bool \<Rightarrow> 'e \<Rightarrow> 'e + unit" where
  "ensure b e = (if b then Inr () else Inl e)"

definition ok_or :: "'a option \<Rightarrow> 'e \<Rightarrow> 'e + 'a" where
  "ok_or x e = (case x of None \<Rightarrow> Inl e | Some y \<Rightarrow> Inr y)"

primrec mapR :: "('a \<Rightarrow> 'e + 'b) \<Rightarrow> 'a list \<Rightarrow> 'e + 'b list" where
  "mapR f [] = Inr []"
| "mapR f (x # xs) = andThen (f x) (\<lambda>y. andThen (mapR f xs) (\<lambda>ys. Inr (y # ys)))"

primrec foldR :: "('s \<Rightarrow> 'a \<Rightarrow> 'e + 's) \<Rightarrow> 's \<Rightarrow> 'a list \<Rightarrow> 'e + 's" where
  "foldR f s [] = Inr s"
| "foldR f s (x # xs) = andThen (f s x) (\<lambda>t. foldR f t xs)"

primrec forR :: "('a \<Rightarrow> 'e + unit) \<Rightarrow> 'a list \<Rightarrow> 'e + unit" where
  "forR f [] = Inr ()"
| "forR f (x # xs) = andThen (f x) (\<lambda>_. forR f xs)"

lemma andThen_Inr_iff [simp, result_rules]:
  "andThen m f = Inr y \<longleftrightarrow> (\<exists>x. m = Inr x \<and> f x = Inr y)"
  by (cases m) auto

lemma andThen_Inl_iff [result_rules]:
  "andThen m f = Inl e \<longleftrightarrow> m = Inl e \<or> (\<exists>x. m = Inr x \<and> f x = Inl e)"
  by (cases m) auto

lemma andThen_assoc: "andThen (andThen m f) g = andThen m (\<lambda>x. andThen (f x) g)"
  by (cases m) auto

lemma andThen_Inr_right [simp]: "andThen m Inr = m"
  by (cases m) auto

lemma ensure_Inr_iff [simp, result_rules]: "ensure b e = Inr u \<longleftrightarrow> b"
  by (simp add: ensure_def)

lemma ensure_Inl_iff [simp]: "ensure b e = Inl e' \<longleftrightarrow> \<not> b \<and> e' = e"
  by (auto simp: ensure_def)

lemma ensure_simps [simp]: "ensure True e = Inr ()" "ensure False e = Inl e"
  by (simp_all add: ensure_def)

lemma ok_or_Inr_iff [simp, result_rules]: "ok_or x e = Inr y \<longleftrightarrow> x = Some y"
  by (auto simp: ok_or_def split: option.splits)

lemma ok_or_Inl_iff [simp]: "ok_or x e = Inl e' \<longleftrightarrow> x = None \<and> e' = e"
  by (auto simp: ok_or_def split: option.splits)

lemma ok_or_simps [simp]: "ok_or (Some y) e = Inr y" "ok_or None e = Inl e"
  by (simp_all add: ok_or_def)

lemma mapR_Inr_iff: "mapR f xs = Inr ys \<longleftrightarrow> list_all2 (\<lambda>x y. f x = Inr y) xs ys"
  by (induction xs arbitrary: ys) (auto simp: list_all2_Cons1)

lemma mapR_length: "mapR f xs = Inr ys \<Longrightarrow> length ys = length xs"
  by (auto simp: mapR_Inr_iff dest: list_all2_lengthD)

lemma forR_Inr_iff [simp, result_rules]: "forR f xs = Inr u \<longleftrightarrow> (\<forall>x\<in>set xs. f x = Inr ())"
  by (induction xs) auto

lemma foldR_append: "foldR f s (xs @ ys) = andThen (foldR f s xs) (\<lambda>t. foldR f t ys)"
  by (induction xs arbitrary: s) (simp_all add: andThen_assoc)

lemma foldR_invariant:
  assumes "foldR f s xs = Inr t" "P s"
    and "\<And>s x t. P s \<Longrightarrow> x \<in> set xs \<Longrightarrow> f s x = Inr t \<Longrightarrow> P t"
  shows "P t"
  using assms
proof (induction xs arbitrary: s)
  case (Cons x xs)
  from Cons.prems(1) obtain u where u: "f s x = Inr u" "foldR f u xs = Inr t"
    by auto
  have "P u"
    by (rule Cons.prems(3) [OF Cons.prems(2) _ u(1)]) simp
  show ?case
    by (rule Cons.IH [OF u(2) \<open>P u\<close>]) (rule Cons.prems(3); simp)
qed simp

lemma mapR_total: "(\<And>x. x \<in> set xs \<Longrightarrow> \<exists>y. f x = Inr y) \<Longrightarrow> \<exists>ys. mapR f xs = Inr ys"
  by (induction xs) fastforce+

lemma foldR_total:
  assumes "\<And>s x xs. I s (x # xs) \<Longrightarrow> \<exists>t. f s x = Inr t \<and> I t xs" "I s xs"
  shows "\<exists>t. foldR f s xs = Inr t"
  using assms(2)
proof (induction xs arbitrary: s)
  case (Cons x xs)
  from assms(1) [OF Cons.prems] obtain t where "f s x = Inr t" "I t xs"
    by blast
  with Cons.IH [of t] show ?case
    by simp
qed simp

section \<open>State-changing computations\<close>

type_synonym ('s, 'e, 'a) op = "'s \<Rightarrow> ('e + 'a) \<times> 's"

definition returnM :: "'a \<Rightarrow> ('s, 'e, 'a) op" where
  "returnM x = (\<lambda>s. (Inr x, s))"

definition failM :: "'e \<Rightarrow> ('s, 'e, 'a) op" where
  "failM e = (\<lambda>s. (Inl e, s))"

definition seqM :: "('s, 'e, 'a) op \<Rightarrow> ('a \<Rightarrow> ('s, 'e, 'b) op) \<Rightarrow> ('s, 'e, 'b) op" where
  "seqM m f = (\<lambda>s. case m s of (r, t) \<Rightarrow> (case r of Inl e \<Rightarrow> (Inl e, t) | Inr x \<Rightarrow> f x t))"

text \<open>A fallible computation that only reads the state (\<^verbatim>\<open>&self\<close> helpers followed by \<^verbatim>\<open>?\<close>).\<close>

definition askM :: "('s \<Rightarrow> 'e + 'a) \<Rightarrow> ('s, 'e, 'a) op" where
  "askM f = (\<lambda>s. (f s, s))"

definition liftM :: "'e + 'a \<Rightarrow> ('s, 'e, 'a) op" where
  "liftM r = (\<lambda>s. (r, s))"

definition getM :: "('s \<Rightarrow> 'a) \<Rightarrow> ('s, 'e, 'a) op" where
  "getM f = (\<lambda>s. (Inr (f s), s))"

definition modM :: "('s \<Rightarrow> 's) \<Rightarrow> ('s, 'e, unit) op" where
  "modM f = (\<lambda>s. (Inr (), f s))"

primrec mapM :: "('a \<Rightarrow> ('s, 'e, 'b) op) \<Rightarrow> 'a list \<Rightarrow> ('s, 'e, 'b list) op" where
  "mapM f [] = returnM []"
| "mapM f (x # xs) = seqM (f x) (\<lambda>y. seqM (mapM f xs) (\<lambda>ys. returnM (y # ys)))"

primrec forM :: "('a \<Rightarrow> ('s, 'e, unit) op) \<Rightarrow> 'a list \<Rightarrow> ('s, 'e, unit) op" where
  "forM f [] = returnM ()"
| "forM f (x # xs) = seqM (f x) (\<lambda>_. forM f xs)"

primrec foldM :: "('b \<Rightarrow> 'a \<Rightarrow> ('s, 'e, 'b) op) \<Rightarrow> 'b \<Rightarrow> 'a list \<Rightarrow> ('s, 'e, 'b) op" where
  "foldM f b [] = returnM b"
| "foldM f b (x # xs) = seqM (f b x) (\<lambda>c. foldM f c xs)"

lemma returnM_eq [simp, state_rules]: "returnM x s = (r, t) \<longleftrightarrow> r = Inr x \<and> t = s"
  by (auto simp: returnM_def)

lemma failM_eq [simp, state_rules]: "failM e s = (r, t) \<longleftrightarrow> r = Inl e \<and> t = s"
  by (auto simp: failM_def)

lemma askM_eq [simp, state_rules]: "askM f s = (r, t) \<longleftrightarrow> f s = r \<and> t = s"
  by (auto simp: askM_def)

lemma liftM_eq [simp, state_rules]: "liftM r' s = (r, t) \<longleftrightarrow> r' = r \<and> t = s"
  by (auto simp: liftM_def)

lemma getM_eq [simp, state_rules]: "getM f s = (r, t) \<longleftrightarrow> r = Inr (f s) \<and> t = s"
  by (auto simp: getM_def)

lemma modM_eq [simp, state_rules]: "modM f s = (r, t) \<longleftrightarrow> r = Inr () \<and> t = f s"
  by (auto simp: modM_def)

lemma seqM_Inr_iff [simp, state_rules]:
  "seqM m f s = (Inr y, t) \<longleftrightarrow> (\<exists>x u. m s = (Inr x, u) \<and> f x u = (Inr y, t))"
  by (auto simp: seqM_def split: prod.splits sum.splits)

lemma seqM_Inl_iff [state_rules]:
  "seqM m f s = (Inl e, t) \<longleftrightarrow>
    m s = (Inl e, t) \<or> (\<exists>x u. m s = (Inr x, u) \<and> f x u = (Inl e, t))"
  by (auto simp: seqM_def split: prod.splits sum.splits)

text \<open>Evaluation of concrete runs.\<close>

lemma seqM_run:
  "m s = (Inr x, t) \<Longrightarrow> seqM m f s = f x t"
  "m s = (Inl e, t) \<Longrightarrow> seqM m f s = (Inl e, t)"
  by (simp_all add: seqM_def)

lemmas run_defs = seqM_def returnM_def failM_def askM_def liftM_def getM_def modM_def

text \<open>
  A property that holds of the state before and is kept by every step holds after, whatever
  the outcome.
\<close>

definition keepsM :: "('s \<Rightarrow> bool) \<Rightarrow> ('s, 'e, 'a) op \<Rightarrow> bool" where
  "keepsM P m \<longleftrightarrow> (\<forall>s r t. P s \<longrightarrow> m s = (r, t) \<longrightarrow> P t)"

lemma keepsM_D: "keepsM P m \<Longrightarrow> P s \<Longrightarrow> m s = (r, t) \<Longrightarrow> P t"
  by (simp add: keepsM_def)

lemma keepsM_pure [intro]:
  "keepsM P (returnM x)" "keepsM P (failM e)" "keepsM P (askM f)" "keepsM P (liftM r)"
  "keepsM P (getM g)"
  by (auto simp: keepsM_def)

lemma keepsM_modM: "(\<And>s. P s \<Longrightarrow> P (f s)) \<Longrightarrow> keepsM P (modM f)"
  by (auto simp: keepsM_def)

lemma keepsM_seqM:
  assumes "keepsM P m" "\<And>x. keepsM P (f x)"
  shows "keepsM P (seqM m f)"
proof -
  have "P t" if "P s" "seqM m f s = (r, t)" for s r t
  proof (cases "m s")
    case (Pair q u)
    then have "P u"
      using assms(1) \<open>P s\<close> by (rule_tac keepsM_D)
    with Pair that(2) show ?thesis
      using keepsM_D [OF assms(2)] by (cases q) (auto simp: seqM_def)
  qed
  then show ?thesis
    by (simp add: keepsM_def)
qed

lemma keepsM_mapM: "(\<And>x. x \<in> set xs \<Longrightarrow> keepsM P (f x)) \<Longrightarrow> keepsM P (mapM f xs)"
  by (induction xs) (auto intro!: keepsM_seqM)

lemma keepsM_forM: "(\<And>x. x \<in> set xs \<Longrightarrow> keepsM P (f x)) \<Longrightarrow> keepsM P (forM f xs)"
  by (induction xs) (auto intro!: keepsM_seqM)

lemma keepsM_foldM: "(\<And>b x. x \<in> set xs \<Longrightarrow> keepsM P (f b x)) \<Longrightarrow> keepsM P (foldM f b xs)"
  by (induction xs arbitrary: b) (auto intro!: keepsM_seqM)

text \<open>
  A step that starts in \<open>P\<close> ends in \<open>Q x\<close> with result \<open>x\<close>, or fails leaving a state in \<open>E\<close>.
\<close>

definition hoareM :: "('s \<Rightarrow> bool) \<Rightarrow> ('s, 'e, 'a) op \<Rightarrow> ('a \<Rightarrow> 's \<Rightarrow> bool) \<Rightarrow> ('s \<Rightarrow> bool) \<Rightarrow> bool" where
  "hoareM P m Q E \<longleftrightarrow>
    (\<forall>s x t. P s \<longrightarrow> m s = (Inr x, t) \<longrightarrow> Q x t) \<and> (\<forall>s e t. P s \<longrightarrow> m s = (Inl e, t) \<longrightarrow> E t)"

lemma hoareM_I:
  assumes "\<And>s x t. P s \<Longrightarrow> m s = (Inr x, t) \<Longrightarrow> Q x t" "\<And>s e t. P s \<Longrightarrow> m s = (Inl e, t) \<Longrightarrow> E t"
  shows "hoareM P m Q E"
  using assms by (simp add: hoareM_def)

lemma hoareM_D:
  assumes "hoareM P m Q E" "P s"
  shows "m s = (Inr x, t) \<Longrightarrow> Q x t" "m s = (Inl e, t) \<Longrightarrow> E t"
  using assms unfolding hoareM_def by blast+

lemma hoareM_seqM:
  assumes "hoareM P m R E" "\<And>x. hoareM (R x) (f x) Q E"
  shows "hoareM P (seqM m f) Q E"
proof (rule hoareM_I)
  fix s y t
  assume "P s" "seqM m f s = (Inr y, t)"
  then show "Q y t"
    using hoareM_D(1) [OF assms(1)] hoareM_D(1) [OF assms(2)] by (simp, metis)
next
  fix s e t
  assume "P s" "seqM m f s = (Inl e, t)"
  then show "E t"
    using hoareM_D [OF assms(1)] hoareM_D(2) [OF assms(2)] by (simp add: seqM_Inl_iff, metis)
qed

lemma hoareM_pre: "hoareM P' m Q E \<Longrightarrow> (\<And>s. P s \<Longrightarrow> P' s) \<Longrightarrow> hoareM P m Q E"
  unfolding hoareM_def by blast

lemma hoareM_post: "hoareM P m Q' E \<Longrightarrow> (\<And>x s. Q' x s \<Longrightarrow> Q x s) \<Longrightarrow> hoareM P m Q E"
  unfolding hoareM_def by blast

lemma hoareM_frame:
  assumes "hoareM P m Q E" "\<And>s r t. m s = (r, t) \<Longrightarrow> F s \<Longrightarrow> F t"
  shows "hoareM (\<lambda>s. P s \<and> F s) m (\<lambda>x s. Q x s \<and> F s) E"
  using assms unfolding hoareM_def by blast

lemma hoareM_ignore: "(\<And>s. P s \<Longrightarrow> hoareM P m Q E) \<Longrightarrow> hoareM P m Q E"
  unfolding hoareM_def by blast

lemma hoareM_returnM: "(\<And>s. P s \<Longrightarrow> Q x s) \<Longrightarrow> hoareM P (returnM x) Q E"
  by (auto simp: hoareM_def)

lemma hoareM_askM:
  "(\<And>s x. P s \<Longrightarrow> f s = Inr x \<Longrightarrow> Q x s) \<Longrightarrow> (\<And>s. P s \<Longrightarrow> E s) \<Longrightarrow> hoareM P (askM f) Q E"
  by (auto simp: hoareM_def)

lemma hoareM_liftM:
  "(\<And>s x. P s \<Longrightarrow> r = Inr x \<Longrightarrow> Q x s) \<Longrightarrow> (\<And>s. P s \<Longrightarrow> E s) \<Longrightarrow> hoareM P (liftM r) Q E"
  by (auto simp: hoareM_def)

lemma hoareM_getM: "(\<And>s. P s \<Longrightarrow> Q (f s) s) \<Longrightarrow> hoareM P (getM f) Q E"
  by (auto simp: hoareM_def)

lemma hoareM_getM_const:
  assumes "\<And>s. P s \<Longrightarrow> f s = c" "hoareM P (k c) Q E"
  shows "hoareM P (seqM (getM f) k) Q E"
  using assms by (auto simp: hoareM_def seqM_Inl_iff)

lemma hoareM_modM: "(\<And>s. P s \<Longrightarrow> Q () (f s)) \<Longrightarrow> hoareM P (modM f) Q E"
  by (auto simp: hoareM_def)

lemma hoareM_foldM:
  assumes "\<And>b x. x \<in> set xs \<Longrightarrow> hoareM P (f b x) (\<lambda>_. P) P"
  shows "hoareM P (foldM f b xs) (\<lambda>_. P) P"
  using assms
proof (induction xs arbitrary: b)
  case Nil
  show ?case
    by (simp add: hoareM_returnM)
next
  case (Cons x xs)
  show ?case
    by (simp, rule hoareM_seqM [OF Cons.prems]) (simp_all add: Cons.IH Cons.prems)
qed

section \<open>Ordered maps\<close>

type_synonym ('k, 'v) btree = "('k \<times> 'v) list"

definition bt_get :: "('k, 'v) btree \<Rightarrow> 'k \<Rightarrow> 'v option" where
  "bt_get m k = map_of m k"

definition bt_has :: "('k, 'v) btree \<Rightarrow> 'k \<Rightarrow> bool" where
  "bt_has m k = (map_of m k \<noteq> None)"

primrec bt_insert :: "'k::linorder \<Rightarrow> 'v \<Rightarrow> ('k, 'v) btree \<Rightarrow> ('k, 'v) btree" where
  "bt_insert k v [] = [(k, v)]"
| "bt_insert k v (e # m) =
    (if fst e < k then e # bt_insert k v m
     else if fst e = k then (k, v) # m
     else (k, v) # e # m)"

definition bt_remove :: "'k \<Rightarrow> ('k, 'v) btree \<Rightarrow> ('k, 'v) btree" where
  "bt_remove k m = filter (\<lambda>e. fst e \<noteq> k) m"

definition bt_retain :: "('k \<Rightarrow> 'v \<Rightarrow> bool) \<Rightarrow> ('k, 'v) btree \<Rightarrow> ('k, 'v) btree" where
  "bt_retain P m = filter (\<lambda>e. P (fst e) (snd e)) m"

definition bt_keys :: "('k, 'v) btree \<Rightarrow> 'k list" where
  "bt_keys m = map fst m"

definition bt_values :: "('k, 'v) btree \<Rightarrow> 'v list" where
  "bt_values m = map snd m"

definition bt_ok :: "('k::linorder, 'v) btree \<Rightarrow> bool" where
  "bt_ok m = sorted_wrt (<) (map fst m)"

lemma bt_get_Nil [simp]: "bt_get [] k = None"
  by (simp add: bt_get_def)

lemma bt_get_Cons [simp]: "bt_get (e # m) k = (if fst e = k then Some (snd e) else bt_get m k)"
  by (cases e) (auto simp: bt_get_def)

lemma bt_has_iff: "bt_has m k \<longleftrightarrow> (\<exists>v. bt_get m k = Some v)"
  by (auto simp: bt_has_def bt_get_def)

lemma bt_has_not_iff: "\<not> bt_has m k \<longleftrightarrow> bt_get m k = None"
  by (auto simp: bt_has_def bt_get_def)

lemma bt_get_insert [simp]: "bt_get (bt_insert k v m) k' = (if k' = k then Some v else bt_get m k')"
  by (induction m) auto

lemma bt_get_remove [simp]: "bt_get (bt_remove k m) k' = (if k' = k then None else bt_get m k')"
  by (induction m) (auto simp: bt_remove_def)

lemma bt_get_retain_key:
  "bt_get (bt_retain (\<lambda>k _. P k) m) k = (if P k then bt_get m k else None)"
  by (induction m) (auto simp: bt_retain_def)

lemma bt_get_mem: "bt_get m k = Some v \<Longrightarrow> (k, v) \<in> set m"
  by (simp add: bt_get_def map_of_SomeD)

lemma bt_get_value: "bt_get m k = Some v \<Longrightarrow> v \<in> set (bt_values m)"
  by (force simp: bt_values_def dest: bt_get_mem)

lemma bt_get_None_iff: "bt_get m k = None \<longleftrightarrow> k \<notin> fst ` set m"
  by (simp add: bt_get_def map_of_eq_None_iff)

lemma set_bt_insert: "set (bt_insert k v m) \<subseteq> insert (k, v) (set m)"
  by (induction m) auto

lemma keys_bt_insert: "fst ` set (bt_insert k v m) = insert k (fst ` set m)"
  by (induction m) auto

lemma bt_ok_Nil [simp]: "bt_ok []"
  by (simp add: bt_ok_def)

lemma bt_ok_Cons: "bt_ok (e # m) \<longleftrightarrow> (\<forall>k\<in>fst ` set m. fst e < k) \<and> bt_ok m"
  by (auto simp: bt_ok_def)

lemma bt_ok_insert [intro]: "bt_ok m \<Longrightarrow> bt_ok (bt_insert k v m)"
  by (induction m) (auto simp: bt_ok_Cons keys_bt_insert)

lemma bt_ok_filter [intro]: "bt_ok m \<Longrightarrow> bt_ok (filter P m)"
  by (induction m) (auto simp: bt_ok_Cons)

lemma bt_ok_remove [intro]: "bt_ok m \<Longrightarrow> bt_ok (bt_remove k m)"
  by (simp add: bt_remove_def bt_ok_filter)

lemma bt_ok_retain [intro]: "bt_ok m \<Longrightarrow> bt_ok (bt_retain P m)"
  by (simp add: bt_retain_def bt_ok_filter)

lemma bt_ok_distinct: "bt_ok m \<Longrightarrow> distinct (map fst m)"
  unfolding bt_ok_def by (simp add: strict_sorted_iff)

lemma bt_get_iff_mem: "bt_ok m \<Longrightarrow> bt_get m k = Some v \<longleftrightarrow> (k, v) \<in> set m"
  by (auto simp: bt_get_def bt_ok_distinct)

lemma bt_get_retain:
  assumes "bt_ok m"
  shows "bt_get (bt_retain P m) k = (case bt_get m k of None \<Rightarrow> None | Some v \<Rightarrow> if P k v then Some v else None)"
  using assms
  by (induction m) (auto simp: bt_retain_def bt_ok_Cons bt_get_None_iff split: option.splits dest!: bt_get_mem)

text \<open>Appending a key above all others, the way freshly allocated identifiers are stored.\<close>

lemma bt_insert_max: "\<forall>k'\<in>fst ` set m. k' < k \<Longrightarrow> bt_insert k v m = m @ [(k, v)]"
  by (induction m) auto

section \<open>Unsigned machine integers\<close>

definition u64_limit :: nat where
  "u64_limit = 2 ^ 64"

definition u128_limit :: nat where
  "u128_limit = 2 ^ 128"

definition checked_add_u64 :: "nat \<Rightarrow> nat \<Rightarrow> nat option" where
  "checked_add_u64 a b = (if a + b < u64_limit then Some (a + b) else None)"

definition checked_mul_u64 :: "nat \<Rightarrow> nat \<Rightarrow> nat option" where
  "checked_mul_u64 a b = (if a * b < u64_limit then Some (a * b) else None)"

definition checked_add_u128 :: "nat \<Rightarrow> nat \<Rightarrow> nat option" where
  "checked_add_u128 a b = (if a + b < u128_limit then Some (a + b) else None)"

definition checked_sub :: "nat \<Rightarrow> nat \<Rightarrow> nat option" where
  "checked_sub a b = (if b \<le> a then Some (a - b) else None)"

definition saturating_sub :: "nat \<Rightarrow> nat \<Rightarrow> nat" where
  "saturating_sub a b = a - b"

definition saturating_add_u64 :: "nat \<Rightarrow> nat \<Rightarrow> nat" where
  "saturating_add_u64 a b = min (a + b) (u64_limit - 1)"

text \<open>Rounding-up division, \<^verbatim>\<open>u64::div_ceil\<close>.\<close>

definition div_ceil :: "nat \<Rightarrow> nat \<Rightarrow> nat" where
  "div_ceil a b = a div b + (if a mod b > 0 then 1 else 0)"

lemma checked_add_u64_Some [simp]: "checked_add_u64 a b = Some c \<longleftrightarrow> c = a + b \<and> a + b < u64_limit"
  by (auto simp: checked_add_u64_def)

lemma checked_add_u64_None [simp]: "checked_add_u64 a b = None \<longleftrightarrow> u64_limit \<le> a + b"
  by (auto simp: checked_add_u64_def)

lemma checked_mul_u64_Some [simp]: "checked_mul_u64 a b = Some c \<longleftrightarrow> c = a * b \<and> a * b < u64_limit"
  by (auto simp: checked_mul_u64_def)

lemma checked_add_u128_Some [simp]:
  "checked_add_u128 a b = Some c \<longleftrightarrow> c = a + b \<and> a + b < u128_limit"
  by (auto simp: checked_add_u128_def)

lemma checked_sub_Some [simp]: "checked_sub a b = Some c \<longleftrightarrow> c = a - b \<and> b \<le> a"
  by (auto simp: checked_sub_def)

lemma saturating_add_u64_less: "saturating_add_u64 a b < u64_limit"
  by (simp add: saturating_add_u64_def u64_limit_def)

lemma div_ceil_mult_ge:
  assumes "0 < b"
  shows "a \<le> div_ceil a b * b"
proof (cases "a mod b = 0")
  case False
  have "a \<le> b * (a div b) + b"
    using mult_div_mod_eq [of b a] mod_less_divisor [OF assms, of a] by linarith
  with False show ?thesis
    by (simp add: div_ceil_def algebra_simps)
qed (use mult_div_mod_eq [of b a] in \<open>simp add: div_ceil_def mult.commute\<close>)

lemma div_ceil_exact: "0 < b \<Longrightarrow> a mod b = 0 \<Longrightarrow> div_ceil a b * b = a"
  by (auto simp: div_ceil_def)

end
