(* ===== verification/Base.thy ===== *)
theory Base
  imports Prelude
begin

text \<open>
  Errors (\<^verbatim>\<open>error.rs\<close>), identifiers (\<^verbatim>\<open>id.rs\<close>) and the provider's constants
  (\<^verbatim>\<open>local/mod.rs\<close>).

  A \<^verbatim>\<open>StorageError\<close> keeps its variant; the human-readable \<^verbatim>\<open>reason\<close> and \<^verbatim>\<open>id\<close>
  texts, which no code path inspects, are left out.  A \<open>failure\<close> is what a call can end
  in besides success: the error it returns, a panic (arithmetic overflow of an unchecked
  \<^verbatim>\<open>+\<close>, \<^verbatim>\<open>-\<close> or \<^verbatim>\<open>*\<close> and an index out of range, in the checked build profile), or a
  recursion that has used up its fuel.
\<close>

datatype object_kind =
    K_checkpoint | K_commit | K_commit_group | K_delete_record | K_device | K_file
  | K_fork_record | K_keyspace | K_keyspace_catalog_shard | K_keyspace_root | K_metadata_key
  | K_metadata_node | K_restore_time | K_segment | K_storage_node | K_storage_node_catalog

datatype storage_error =
    InvalidArgument
  | NotFound object_kind
  | Conflict
  | Unavailable
  | Corrupt
  | Unsupported

datatype failure = Err storage_error | Panic | Diverge

type_synonym 'a result = "failure + 'a"

abbreviation invalid_argument :: failure where "invalid_argument \<equiv> Err InvalidArgument"
abbreviation not_found :: "object_kind \<Rightarrow> failure" where "not_found k \<equiv> Err (NotFound k)"
abbreviation conflict :: failure where "conflict \<equiv> Err Conflict"
abbreviation unavailable :: failure where "unavailable \<equiv> Err Unavailable"
abbreviation corrupt :: failure where "corrupt \<equiv> Err Corrupt"
abbreviation unsupported :: failure where "unsupported \<equiv> Err Unsupported"

section \<open>Identifiers\<close>

type_synonym device_id = nat
type_synonym keyspace_id = nat
type_synonym file_id = nat
type_synonym tenant_id = nat
type_synonym principal_id = nat
type_synonym request_id = nat
type_synonym client_epoch = nat
type_synonym server_incarnation = nat
type_synonym device_generation = nat
type_synonym keyspace_generation = nat
type_synonym file_version = nat
type_synonym writer_epoch = nat
type_synonym commit_seq = nat
type_synonym commit_group_id = nat
type_synonym checkpoint_id = nat
type_synonym segment_id = nat
type_synonym storage_node_id = nat
type_synonym storage_node_key_id = nat
type_synonym metadata_node_id = nat
type_synonym keyspace_root_id = nat
type_synonym keyspace_catalog_shard_id = nat
type_synonym shard_id = nat
type_synonym write_intent_id = nat
type_synonym grant_id = nat
type_synonym grant_nonce = nat
type_synonym grant_epoch = nat
type_synonym append_stream_id = nat
type_synonym append_ticket_id = nat
type_synonym append_publish_ticket_id = nat
type_synonym append_run_id = nat
type_synonym extent_id = nat
type_synonym logical_time = nat
type_synonym logical_deadline = nat
type_synonym block_index = nat
type_synonym block_count = nat

section \<open>Provider constants\<close>

definition KEYSPACE_CATALOG_SHARD_COUNT :: nat where
  "KEYSPACE_CATALOG_SHARD_COUNT = 256"

definition LOCAL_TENANT_ID :: tenant_id where "LOCAL_TENANT_ID = 1"
definition LOCAL_PRINCIPAL_ID :: principal_id where "LOCAL_PRINCIPAL_ID = 1"
definition LOCAL_GRANT_EPOCH :: grant_epoch where "LOCAL_GRANT_EPOCH = 1"
definition LOCAL_GRANT_EXPIRATION :: logical_deadline where "LOCAL_GRANT_EXPIRATION = u64_limit - 1"
definition LOCAL_STORAGE_NODE_INCARNATION :: server_incarnation where
  "LOCAL_STORAGE_NODE_INCARNATION = 1"
definition DEFAULT_BLOCK_BATCH_MAX_BYTES :: nat where
  "DEFAULT_BLOCK_BATCH_MAX_BYTES = 128 * 1024 * 1024"
definition DEFAULT_NATIVE_FILE_BATCH_MAX_BYTES :: nat where
  "DEFAULT_NATIVE_FILE_BATCH_MAX_BYTES = 32 * 1024 * 1024"

section \<open>Bytes\<close>

text \<open>
  A payload is a list of byte values.  \<open>u64_of_len\<close> is the conversion
  \<^verbatim>\<open>u64::try_from(bytes.len())\<close> that guards every place where a length becomes an offset.
\<close>

type_synonym byte = nat

definition u64_of_len :: "'a list \<Rightarrow> nat result" where
  "u64_of_len xs = (if length xs < u64_limit then Inr (length xs) else Inl invalid_argument)"

lemma u64_of_len_Inr [simp, result_rules]:
  "u64_of_len xs = Inr n \<longleftrightarrow> n = length xs \<and> length xs < u64_limit"
  by (auto simp: u64_of_len_def)

fun is_power_of_two :: "nat \<Rightarrow> bool" where
  "is_power_of_two n =
    (if n = 0 then False else if n = 1 then True else n mod 2 = 0 \<and> is_power_of_two (n div 2))"

declare is_power_of_two.simps [simp del]

lemma is_power_of_two_iff: "is_power_of_two n \<longleftrightarrow> (\<exists>k. n = 2 ^ k)"
proof (induction n rule: is_power_of_two.induct)
  case (1 n)
  show ?case
  proof (cases "n = 0 \<or> n = 1")
    case True
    then show ?thesis
      by (auto simp: is_power_of_two.simps [of n] intro: exI [of _ 0])
  next
    case False
    have "(\<exists>k. n = 2 ^ k) \<longleftrightarrow> n mod 2 = 0 \<and> (\<exists>k. n div 2 = 2 ^ k)"
    proof
      assume "\<exists>k. n = 2 ^ k"
      then obtain k where k: "n = 2 ^ k" ..
      with False obtain j where "k = Suc j"
        by (cases k) auto
      with k show "n mod 2 = 0 \<and> (\<exists>k. n div 2 = 2 ^ k)"
        by auto
    next
      assume "n mod 2 = 0 \<and> (\<exists>k. n div 2 = 2 ^ k)"
      then obtain k where "n = 2 ^ Suc k"
        by (auto elim!: evenE)
      then show "\<exists>k. n = 2 ^ k" ..
    qed
    with False 1 show ?thesis
      by (simp add: is_power_of_two.simps [of n])
  qed
qed

lemma is_power_of_two_pos: "is_power_of_two n \<Longrightarrow> 0 < n"
  by (auto simp: is_power_of_two_iff)

end
