(* ===== verification/Api.thy ===== *)
theory Api
  imports Base
begin

text \<open>
  The public block API (\<^verbatim>\<open>api.rs\<close>): device shapes, byte and block ranges, requests and their
  validation.  The range algebra is related to the set of blocks a range denotes, which the
  metadata components use as their specification.
\<close>

section \<open>Device shape\<close>

record device_spec =
  logical_blocks :: nat
  block_size :: nat

definition validate_spec :: "device_spec \<Rightarrow> unit result" where
  "validate_spec spec =
    andThen (ensure (logical_blocks spec \<noteq> 0) invalid_argument) (\<lambda>_.
    andThen (ensure (block_size spec \<noteq> 0) invalid_argument) (\<lambda>_.
    ensure (is_power_of_two (block_size spec)) invalid_argument))"

definition logical_bytes :: "device_spec \<Rightarrow> nat result" where
  "logical_bytes spec =
    andThen (validate_spec spec) (\<lambda>_.
    ok_or (checked_mul_u64 (logical_blocks spec) (block_size spec)) invalid_argument)"

record device_info =
  info_device_id :: device_id
  info_generation :: device_generation
  info_spec :: device_spec
  info_latest_commit :: commit_seq

record create_device_request =
  create_spec :: device_spec
  create_name :: "string option"

definition validate_create :: "create_device_request \<Rightarrow> unit result" where
  "validate_create request = validate_spec (create_spec request)"

section \<open>Byte ranges\<close>

record byte_range =
  byte_offset :: nat
  byte_len :: nat

definition mk_bytes :: "nat \<Rightarrow> nat \<Rightarrow> byte_range" where
  "mk_bytes offset len = \<lparr>byte_offset = offset, byte_len = len\<rparr>"

definition byte_end :: "byte_range \<Rightarrow> nat result" where
  "byte_end r = ok_or (checked_add_u64 (byte_offset r) (byte_len r)) invalid_argument"

definition is_aligned_to :: "byte_range \<Rightarrow> nat \<Rightarrow> bool" where
  "is_aligned_to r bs \<longleftrightarrow> bs \<noteq> 0 \<and> byte_offset r mod bs = 0 \<and> byte_len r mod bs = 0"

definition validate_for_device :: "byte_range \<Rightarrow> device_spec \<Rightarrow> unit result" where
  "validate_for_device r spec =
    andThen (validate_spec spec) (\<lambda>_.
    andThen (ensure (is_aligned_to r (block_size spec)) invalid_argument) (\<lambda>_.
    andThen (byte_end r) (\<lambda>e.
    andThen (logical_bytes spec) (\<lambda>total.
    ensure (\<not> total < e) invalid_argument))))"

section \<open>Block ranges\<close>

record block_range =
  range_start :: block_index
  range_blocks :: block_count

definition mk_range :: "nat \<Rightarrow> nat \<Rightarrow> block_range" where
  "mk_range start blocks = \<lparr>range_start = start, range_blocks = blocks\<rparr>"

definition end_exclusive :: "block_range \<Rightarrow> block_index result" where
  "end_exclusive r = ok_or (checked_add_u64 (range_start r) (range_blocks r)) invalid_argument"

definition is_empty :: "block_range \<Rightarrow> bool" where
  "is_empty r \<longleftrightarrow> range_blocks r = 0"

definition validate_non_empty :: "block_range \<Rightarrow> unit result" where
  "validate_non_empty r =
    andThen (end_exclusive r) (\<lambda>_. ensure (\<not> is_empty r) invalid_argument)"

definition contains_range :: "block_range \<Rightarrow> block_range \<Rightarrow> bool result" where
  "contains_range r s =
    andThen (end_exclusive r) (\<lambda>r_end.
    andThen (end_exclusive s) (\<lambda>s_end.
    Inr (range_start r \<le> range_start s \<and> s_end \<le> r_end)))"

definition overlaps :: "block_range \<Rightarrow> block_range \<Rightarrow> bool result" where
  "overlaps r s =
    andThen (end_exclusive r) (\<lambda>r_end.
    andThen (end_exclusive s) (\<lambda>s_end.
    if is_empty r \<or> is_empty s then Inr False
    else Inr (range_start r < s_end \<and> range_start s < r_end)))"

definition intersection :: "block_range \<Rightarrow> block_range \<Rightarrow> block_range option result" where
  "intersection r s =
    andThen (overlaps r s) (\<lambda>hit.
    if \<not> hit then Inr None
    else
      andThen (end_exclusive r) (\<lambda>r_end.
      andThen (end_exclusive s) (\<lambda>s_end.
      let start = max (range_start r) (range_start s); stop = min r_end s_end
      in Inr (Some (mk_range start (stop - start))))))"

definition is_adjacent_to :: "block_range \<Rightarrow> block_range \<Rightarrow> bool result" where
  "is_adjacent_to r s =
    andThen (end_exclusive r) (\<lambda>r_end.
    andThen (end_exclusive s) (\<lambda>s_end.
    if is_empty r \<or> is_empty s then Inr False
    else Inr (r_end = range_start s \<or> s_end = range_start r)))"

definition split_at :: "block_range \<Rightarrow> block_index \<Rightarrow> (block_range \<times> block_range) result" where
  "split_at r split =
    andThen (end_exclusive r) (\<lambda>r_end.
    andThen (ensure (\<not> (split < range_start r \<or> r_end < split)) invalid_argument) (\<lambda>_.
    Inr (mk_range (range_start r) (split - range_start r), mk_range split (r_end - split))))"

section \<open>Requests\<close>

datatype block_operation =
    Op_Create | Op_Info | Op_Read | Op_Write | Op_CommitBatch | Op_Flush | Op_WriteZeroes
  | Op_Discard | Op_Fork | Op_Restore | Op_Delete

datatype write_durability = Acknowledged | Flushed
datatype payload_integrity = Verified | Unchecked
datatype read_verification = Verify_Default | RequireVerified | Skip
datatype flush_scope = Flush_Device | Flush_All

record write_commit =
  wc_device_id :: device_id
  wc_commit_seq :: commit_seq
  wc_range :: byte_range
  wc_durability :: write_durability

record block_batch_write =
  bw_offset :: nat
  bw_bytes :: "byte list"
  bw_integrity :: payload_integrity

definition batch_byte_range :: "block_batch_write \<Rightarrow> byte_range result" where
  "batch_byte_range w = andThen (u64_of_len (bw_bytes w)) (\<lambda>len. Inr (mk_bytes (bw_offset w) len))"

definition validate_batch_write :: "block_batch_write \<Rightarrow> device_spec \<Rightarrow> unit result" where
  "validate_batch_write w spec =
    andThen (batch_byte_range w) (\<lambda>r.
    andThen (ensure (byte_len r \<noteq> 0) invalid_argument) (\<lambda>_.
    validate_for_device r spec))"

record fork_request =
  fork_target :: "device_id option"
  fork_name :: "string option"

datatype restore_point = At_Commit commit_seq | At_Checkpoint checkpoint_id | At_Time logical_time

datatype block_request =
    Req_Create create_device_request
  | Req_Info device_id
  | Req_Read device_id byte_range read_verification
  | Req_Write device_id nat "byte list" payload_integrity write_durability
  | Req_CommitBatch device_id "block_batch_write list" write_durability
  | Req_Flush device_id flush_scope
  | Req_WriteZeroes device_id byte_range
  | Req_Discard device_id byte_range
  | Req_Fork device_id fork_request
  | Req_Restore device_id restore_point
  | Req_Delete device_id

primrec operation :: "block_request \<Rightarrow> block_operation" where
  "operation (Req_Create _) = Op_Create"
| "operation (Req_Info _) = Op_Info"
| "operation (Req_Read _ _ _) = Op_Read"
| "operation (Req_Write _ _ _ _ _) = Op_Write"
| "operation (Req_CommitBatch _ _ _) = Op_CommitBatch"
| "operation (Req_Flush _ _) = Op_Flush"
| "operation (Req_WriteZeroes _ _) = Op_WriteZeroes"
| "operation (Req_Discard _ _) = Op_Discard"
| "operation (Req_Fork _ _) = Op_Fork"
| "operation (Req_Restore _ _) = Op_Restore"
| "operation (Req_Delete _) = Op_Delete"

primrec target_device_id :: "block_request \<Rightarrow> device_id option" where
  "target_device_id (Req_Create _) = None"
| "target_device_id (Req_Info d) = Some d"
| "target_device_id (Req_Read d _ _) = Some d"
| "target_device_id (Req_Write d _ _ _ _) = Some d"
| "target_device_id (Req_CommitBatch d _ _) = Some d"
| "target_device_id (Req_Flush d _) = Some d"
| "target_device_id (Req_WriteZeroes d _) = Some d"
| "target_device_id (Req_Discard d _) = Some d"
| "target_device_id (Req_Fork s _) = Some s"
| "target_device_id (Req_Restore s _) = Some s"
| "target_device_id (Req_Delete d) = Some d"

primrec request_byte_range :: "block_request \<Rightarrow> byte_range option result" where
  "request_byte_range (Req_Read _ r _) = Inr (Some r)"
| "request_byte_range (Req_WriteZeroes _ r) = Inr (Some r)"
| "request_byte_range (Req_Discard _ r) = Inr (Some r)"
| "request_byte_range (Req_Write _ off bytes _ _) =
    andThen (u64_of_len bytes) (\<lambda>len. Inr (Some (mk_bytes off len)))"
| "request_byte_range (Req_CommitBatch _ _ _) = Inr None"
| "request_byte_range (Req_Create _) = Inr None"
| "request_byte_range (Req_Info _) = Inr None"
| "request_byte_range (Req_Flush _ _) = Inr None"
| "request_byte_range (Req_Fork _ _) = Inr None"
| "request_byte_range (Req_Restore _ _) = Inr None"
| "request_byte_range (Req_Delete _) = Inr None"

definition validate_for_new_device :: "block_request \<Rightarrow> unit result" where
  "validate_for_new_device req =
    (case req of Req_Create request \<Rightarrow> validate_create request | _ \<Rightarrow> Inl invalid_argument)"

definition validate_ranged :: "block_request \<Rightarrow> device_spec \<Rightarrow> unit result" where
  "validate_ranged req spec =
    andThen (request_byte_range req) (\<lambda>r.
    case r of None \<Rightarrow> Inr () | Some rg \<Rightarrow> validate_for_device rg spec)"

definition validate_for_existing_device :: "block_request \<Rightarrow> device_spec \<Rightarrow> unit result" where
  "validate_for_existing_device req spec =
    andThen (validate_spec spec) (\<lambda>_.
    case req of
      Req_Create _ \<Rightarrow> Inl invalid_argument
    | Req_Read _ _ _ \<Rightarrow> validate_ranged req spec
    | Req_Write _ _ _ _ _ \<Rightarrow> validate_ranged req spec
    | Req_WriteZeroes _ _ \<Rightarrow> validate_ranged req spec
    | Req_Discard _ _ \<Rightarrow> validate_ranged req spec
    | Req_CommitBatch _ writes _ \<Rightarrow>
        andThen (ensure (writes \<noteq> []) invalid_argument) (\<lambda>_.
        forR (\<lambda>w. validate_batch_write w spec) writes)
    | _ \<Rightarrow> Inr ())"

section \<open>What ranges denote\<close>

text \<open>The blocks of a range, and the ranges whose end is representable.\<close>

definition blocks_of :: "block_range \<Rightarrow> nat set" where
  "blocks_of r = {range_start r ..< range_start r + range_blocks r}"

definition range_ok :: "block_range \<Rightarrow> bool" where
  "range_ok r \<longleftrightarrow> range_start r + range_blocks r < u64_limit"

abbreviation range_stop :: "block_range \<Rightarrow> nat" where
  "range_stop r \<equiv> range_start r + range_blocks r"

lemma mk_range_sel [simp]:
  "range_start (mk_range s n) = s" "range_blocks (mk_range s n) = n"
  by (simp_all add: mk_range_def)

lemma mk_bytes_sel [simp]: "byte_offset (mk_bytes s n) = s" "byte_len (mk_bytes s n) = n"
  by (simp_all add: mk_bytes_def)

lemma range_eq_iff: "r = s \<longleftrightarrow> range_start r = range_start s \<and> range_blocks r = range_blocks s"
  for r s :: block_range
  by auto

lemma in_blocks_of [simp]: "b \<in> blocks_of r \<longleftrightarrow> range_start r \<le> b \<and> b < range_stop r"
  by (auto simp: blocks_of_def)

lemma blocks_of_empty_iff: "blocks_of r = {} \<longleftrightarrow> is_empty r"
  by (auto simp: blocks_of_def is_empty_def)

lemma card_blocks_of: "card (blocks_of r) = range_blocks r"
  by (simp add: blocks_of_def)

lemma end_exclusive_Inr [simp, result_rules]:
  "end_exclusive r = Inr e \<longleftrightarrow> e = range_stop r \<and> range_ok r"
  by (auto simp: end_exclusive_def range_ok_def)

lemma end_exclusive_ok: "range_ok r \<Longrightarrow> end_exclusive r = Inr (range_stop r)"
  by simp

lemma end_exclusive_bad: "\<not> range_ok r \<Longrightarrow> end_exclusive r = Inl invalid_argument"
  by (simp add: end_exclusive_def range_ok_def)

lemma byte_end_Inr [simp, result_rules]:
  "byte_end r = Inr e \<longleftrightarrow> e = byte_offset r + byte_len r \<and> byte_offset r + byte_len r < u64_limit"
  by (auto simp: byte_end_def)

lemma validate_non_empty_Inr [simp, result_rules]:
  "validate_non_empty r = Inr u \<longleftrightarrow> range_ok r \<and> range_blocks r > 0"
  by (auto simp: validate_non_empty_def is_empty_def)

lemma contains_range_Inr [simp, result_rules]:
  "contains_range r s = Inr b \<longleftrightarrow>
    range_ok r \<and> range_ok s \<and> b = (range_start r \<le> range_start s \<and> range_stop s \<le> range_stop r)"
  by (auto simp: contains_range_def)

lemma overlaps_Inr [simp, result_rules]:
  "overlaps r s = Inr b \<longleftrightarrow> range_ok r \<and> range_ok s \<and> b = (blocks_of r \<inter> blocks_of s \<noteq> {})"
proof -
  have "(\<not> is_empty r \<and> \<not> is_empty s \<and> range_start r < range_stop s \<and> range_start s < range_stop r)
      \<longleftrightarrow> blocks_of r \<inter> blocks_of s \<noteq> {}"
    by (force simp: is_empty_def blocks_of_def)
  then show ?thesis
    unfolding overlaps_def by auto
qed

lemma intersection_Some:
  assumes "range_ok r" "range_ok s" "blocks_of r \<inter> blocks_of s \<noteq> {}"
  shows "intersection r s = Inr (Some (mk_range (max (range_start r) (range_start s))
    (min (range_stop r) (range_stop s) - max (range_start r) (range_start s))))"
  using assms by (simp add: intersection_def end_exclusive_ok Let_def ex_bool_eq)

lemma intersection_None:
  assumes "range_ok r" "range_ok s" "blocks_of r \<inter> blocks_of s = {}"
  shows "intersection r s = Inr None"
  using assms by (simp add: intersection_def ex_bool_eq)

lemma intersection_ok: "intersection r s = Inr x \<Longrightarrow> range_ok r \<and> range_ok s"
  by (auto simp: intersection_def split: if_splits)

lemma intersection_blocks:
  assumes "intersection r s = Inr x"
  shows "(case x of None \<Rightarrow> blocks_of r \<inter> blocks_of s = {}
    | Some t \<Rightarrow> blocks_of t = blocks_of r \<inter> blocks_of s \<and> range_ok t \<and> 0 < range_blocks t)"
proof (cases "blocks_of r \<inter> blocks_of s = {}")
  case True
  then show ?thesis
    using assms intersection_ok [OF assms] by (simp add: intersection_None)
next
  case False
  then have "max (range_start r) (range_start s) < min (range_stop r) (range_stop s)"
    by auto
  then show ?thesis
    using assms intersection_ok [OF assms] False
    by (auto simp: intersection_Some range_ok_def blocks_of_def)
qed

lemma validate_spec_Inr [simp, result_rules]:
  "validate_spec spec = Inr u \<longleftrightarrow> 0 < logical_blocks spec \<and> is_power_of_two (block_size spec)"
  by (auto simp: validate_spec_def dest: is_power_of_two_pos)

lemma logical_bytes_Inr [simp, result_rules]:
  "logical_bytes spec = Inr n \<longleftrightarrow> 0 < logical_blocks spec \<and> is_power_of_two (block_size spec)
    \<and> n = logical_blocks spec * block_size spec \<and> n < u64_limit"
  by (auto simp: logical_bytes_def)

lemma validate_for_device_Inr [simp, result_rules]:
  "validate_for_device r spec = Inr u \<longleftrightarrow>
    0 < logical_blocks spec \<and> is_power_of_two (block_size spec)
    \<and> block_size spec dvd byte_offset r \<and> block_size spec dvd byte_len r
    \<and> byte_offset r + byte_len r \<le> logical_blocks spec * block_size spec
    \<and> logical_blocks spec * block_size spec < u64_limit"
  by (auto simp: validate_for_device_def is_aligned_to_def mod_eq_0_iff_dvd dest: is_power_of_two_pos)

end
