(* ===== verification/Objects.thy ===== *)
theory Objects
  imports Api
begin

text \<open>
  The immutable metadata objects (\<^verbatim>\<open>object.rs\<close>): heads, catalog shards, tree nodes, append-log
  runs, segment descriptors and timeline records, with the validation every one of them passes
  before it is stored.  The lemmas at the end say what an accepted node guarantees: the children
  of an internal node tile its range, the entries of a leaf are disjoint slices of segments.
\<close>

section \<open>Heads and catalogs\<close>

datatype segment_payload_integrity = Crc32c nat | Payload_Unchecked

datatype mapping_owner = BlockDevice device_id | NativeKeyspace keyspace_id

record device_head =
  dh_device_id :: device_id
  dh_generation :: device_generation
  dh_shard_roots :: "metadata_node_id list"
  dh_latest_commit :: commit_seq

record keyspace_head =
  kh_keyspace_id :: keyspace_id
  kh_generation :: keyspace_generation
  kh_shard_roots :: "keyspace_catalog_shard_id list"
  kh_file_count :: nat
  kh_latest_commit :: commit_seq

definition validate_device_head :: "device_head \<Rightarrow> nat \<Rightarrow> unit result" where
  "validate_device_head h expected =
    andThen (ensure (expected \<noteq> 0) invalid_argument) (\<lambda>_.
    ensure (length (dh_shard_roots h) = expected) invalid_argument)"

definition byte_capacity :: "block_range \<Rightarrow> nat \<Rightarrow> nat result" where
  "byte_capacity r bs =
    andThen (validate_non_empty r) (\<lambda>_.
    andThen (ensure (bs \<noteq> 0) invalid_argument) (\<lambda>_.
    andThen (ensure (is_power_of_two bs) invalid_argument) (\<lambda>_.
    ok_or (checked_mul_u64 (range_blocks r) bs) invalid_argument)))"

record file_head =
  fh_file_id :: file_id
  fh_version :: file_version
  fh_root :: metadata_node_id
  fh_size :: nat
  fh_latest_commit :: commit_seq

definition validate_current :: "file_head \<Rightarrow> block_range \<Rightarrow> nat \<Rightarrow> unit result" where
  "validate_current h coverage bs =
    andThen (byte_capacity coverage bs) (\<lambda>capacity.
    ensure (\<not> capacity < fh_size h) invalid_argument)"

definition validate_transition_from ::
  "file_head \<Rightarrow> file_head \<Rightarrow> block_range \<Rightarrow> nat \<Rightarrow> unit result" where
  "validate_transition_from h previous coverage bs =
    andThen (validate_current h coverage bs) (\<lambda>_.
    andThen (ensure (fh_file_id h = fh_file_id previous) invalid_argument) (\<lambda>_.
    andThen (ensure (\<not> fh_version h < fh_version previous) invalid_argument) (\<lambda>_.
    andThen (ensure (\<not> fh_latest_commit h < fh_latest_commit previous) invalid_argument) (\<lambda>_.
    ensure (\<not> ((fh_root h \<noteq> fh_root previous \<or> fh_size h \<noteq> fh_size previous)
      \<and> fh_version h = fh_version previous)) invalid_argument))))"

record keyspace_file =
  kf_name :: "string option"
  kf_head :: file_head

record keyspace_catalog_shard =
  cs_shard_id :: keyspace_catalog_shard_id
  cs_files :: "(file_id, keyspace_file) btree"

definition validate_catalog_shard :: "keyspace_catalog_shard \<Rightarrow> unit result" where
  "validate_catalog_shard shard =
    forR (\<lambda>(file_id, entry). ensure (file_id = fh_file_id (kf_head entry)) invalid_argument)
      (cs_files shard)"

record keyspace_root =
  kr_root_id :: keyspace_root_id
  kr_shard_roots :: "keyspace_catalog_shard_id list"
  kr_file_count :: nat

definition validate_keyspace_root :: "keyspace_root \<Rightarrow> unit result" where
  "validate_keyspace_root root = ensure (kr_shard_roots root \<noteq> []) invalid_argument"

section \<open>Append-log runs\<close>

record append_log_run_range =
  rr_run_id :: append_run_id
  rr_storage_node :: storage_node_id
  rr_stream_id :: append_stream_id
  rr_writer_epoch :: writer_epoch
  rr_keyspace_id :: keyspace_id
  rr_file_id :: file_id
  rr_file_offset_start :: nat
  rr_payload_len :: nat
  rr_log_id :: nat
  rr_log_payload_offset :: nat
  rr_integrity :: segment_payload_integrity

record append_log_run =
  run_range :: append_log_run_range
  run_log_record_bytes :: nat

definition rr_file_offset_end :: "append_log_run_range \<Rightarrow> nat result" where
  "rr_file_offset_end r =
    ok_or (checked_add_u64 (rr_file_offset_start r) (rr_payload_len r)) invalid_argument"

definition rr_log_payload_end :: "append_log_run_range \<Rightarrow> nat result" where
  "rr_log_payload_end r =
    ok_or (checked_add_u64 (rr_log_payload_offset r) (rr_payload_len r)) invalid_argument"

definition validate_run_range :: "append_log_run_range \<Rightarrow> unit result" where
  "validate_run_range r =
    andThen (ensure (rr_payload_len r \<noteq> 0) invalid_argument) (\<lambda>_.
    andThen (rr_file_offset_end r) (\<lambda>_.
    andThen (rr_log_payload_end r) (\<lambda>_. Inr ())))"

text \<open>
  \<^verbatim>\<open>AppendLogRun\<close> repeats the fields of a range and adds the record length; \<^verbatim>\<open>full_range\<close>
  is the range it contains.
\<close>

definition full_range :: "append_log_run \<Rightarrow> append_log_run_range" where
  "full_range run = run_range run"

definition validate_run :: "append_log_run \<Rightarrow> unit result" where
  "validate_run run =
    andThen (ensure (rr_payload_len (run_range run) \<noteq> 0) invalid_argument) (\<lambda>_.
    andThen (rr_file_offset_end (run_range run)) (\<lambda>_.
    andThen (rr_log_payload_end (run_range run)) (\<lambda>_.
    ensure (\<not> run_log_record_bytes run < rr_payload_len (run_range run)) invalid_argument)))"

record run_backed_file_extent =
  rx_file_offset_start :: nat
  rx_payload_len :: nat
  rx_run :: append_log_run_range

definition validate_run_extent :: "run_backed_file_extent \<Rightarrow> unit result" where
  "validate_run_extent x =
    andThen (validate_run_range (rx_run x)) (\<lambda>_.
    andThen (ensure (rx_payload_len x \<noteq> 0) invalid_argument) (\<lambda>_.
    ensure (rx_file_offset_start x = rr_file_offset_start (rx_run x)
      \<and> rx_payload_len x = rr_payload_len (rx_run x)) invalid_argument))"

definition validate_run_extent_step ::
  "nat option \<Rightarrow> run_backed_file_extent \<Rightarrow> nat option result" where
  "validate_run_extent_step previous_end x =
    andThen (validate_run_extent x) (\<lambda>_.
    andThen (ensure (case previous_end of None \<Rightarrow> True | Some p \<Rightarrow> \<not> rx_file_offset_start x < p)
      invalid_argument) (\<lambda>_.
    andThen (ok_or (checked_add_u64 (rx_file_offset_start x) (rx_payload_len x)) invalid_argument)
      (\<lambda>e. Inr (Some e))))"

definition validate_run_backed_file_extents :: "run_backed_file_extent list \<Rightarrow> unit result" where
  "validate_run_backed_file_extents xs =
    andThen (foldR validate_run_extent_step None xs) (\<lambda>_. Inr ())"

section \<open>Segments, leaves and nodes\<close>

record segment_descriptor =
  sd_segment_id :: segment_id
  sd_blocks :: block_count
  sd_bytes :: nat
  sd_integrity :: segment_payload_integrity

definition validate_descriptor :: "segment_descriptor \<Rightarrow> nat \<Rightarrow> unit result" where
  "validate_descriptor d bs =
    andThen (ensure (bs \<noteq> 0) invalid_argument) (\<lambda>_.
    andThen (ensure (is_power_of_two bs) invalid_argument) (\<lambda>_.
    andThen (ensure (sd_blocks d \<noteq> 0) invalid_argument) (\<lambda>_.
    andThen (ok_or (checked_mul_u64 (sd_blocks d) bs) invalid_argument) (\<lambda>expected_bytes.
    ensure (sd_bytes d = expected_bytes) invalid_argument))))"

record leaf_entry =
  le_logical_start :: block_index
  le_blocks :: block_count
  le_segment_id :: segment_id
  le_segment_offset :: block_index

definition logical_range :: "leaf_entry \<Rightarrow> block_range" where
  "logical_range e = mk_range (le_logical_start e) (le_blocks e)"

definition segment_end_exclusive :: "leaf_entry \<Rightarrow> block_index result" where
  "segment_end_exclusive e =
    ok_or (checked_add_u64 (le_segment_offset e) (le_blocks e)) invalid_argument"

definition validate_against :: "leaf_entry \<Rightarrow> block_range \<Rightarrow> segment_descriptor \<Rightarrow> unit result" where
  "validate_against e covered d =
    andThen (validate_non_empty (logical_range e)) (\<lambda>_.
    andThen (contains_range covered (logical_range e)) (\<lambda>inside.
    andThen (ensure inside invalid_argument) (\<lambda>_.
    andThen (ensure (le_segment_id e = sd_segment_id d) invalid_argument) (\<lambda>_.
    andThen (segment_end_exclusive e) (\<lambda>stop.
    ensure (\<not> sd_blocks d < stop) invalid_argument)))))"

record metadata_child =
  mc_range :: block_range
  mc_node_id :: metadata_node_id

datatype metadata_node_kind =
    Internal "metadata_child list"
  | Leaf "leaf_entry list" "run_backed_file_extent list"

record metadata_node =
  mn_node_id :: metadata_node_id
  mn_covered_range :: block_range
  mn_kind :: metadata_node_kind

definition validate_child_step ::
  "block_range \<Rightarrow> block_range option \<times> nat \<Rightarrow> metadata_child \<Rightarrow> (block_range option \<times> nat) result"
where
  "validate_child_step covered st child =
    (case st of (previous, next_expected_start) \<Rightarrow>
      andThen (validate_non_empty (mc_range child)) (\<lambda>_.
      andThen (contains_range covered (mc_range child)) (\<lambda>inside.
      andThen (ensure inside invalid_argument) (\<lambda>_.
      andThen
        (case previous of
          Some p \<Rightarrow>
            andThen (ensure (\<not> range_start (mc_range child) < range_start p) invalid_argument) (\<lambda>_.
            andThen (end_exclusive p) (\<lambda>previous_end.
            andThen (ensure (\<not> range_start (mc_range child) < previous_end) invalid_argument) (\<lambda>_.
            ensure (\<not> previous_end < range_start (mc_range child)) invalid_argument)))
        | None \<Rightarrow> ensure (range_start (mc_range child) = next_expected_start) invalid_argument) (\<lambda>_.
      andThen (end_exclusive (mc_range child)) (\<lambda>e.
      Inr (Some (mc_range child), e)))))))"

definition validate_child_ranges :: "block_range \<Rightarrow> metadata_child list \<Rightarrow> unit result" where
  "validate_child_ranges covered children =
    andThen (ensure (children \<noteq> []) invalid_argument) (\<lambda>_.
    andThen (foldR (validate_child_step covered) (None, range_start covered) children) (\<lambda>st.
    andThen (end_exclusive covered) (\<lambda>e.
    ensure (snd st = e) invalid_argument)))"

definition validate_leaf_step ::
  "block_range \<Rightarrow> segment_descriptor list \<Rightarrow> block_range option \<Rightarrow> leaf_entry
    \<Rightarrow> block_range option result"
where
  "validate_leaf_step covered segments previous entry =
    andThen (ok_or (find (\<lambda>d. sd_segment_id d = le_segment_id entry) segments) invalid_argument)
      (\<lambda>descriptor.
    andThen (validate_against entry covered descriptor) (\<lambda>_.
    andThen
      (case previous of
        Some p \<Rightarrow>
          andThen (ensure (\<not> le_logical_start entry < range_start p) invalid_argument) (\<lambda>_.
          andThen (end_exclusive p) (\<lambda>previous_end.
          ensure (\<not> le_logical_start entry < previous_end) invalid_argument))
      | None \<Rightarrow> Inr ()) (\<lambda>_.
    Inr (Some (logical_range entry)))))"

definition validate_leaf_entries ::
  "block_range \<Rightarrow> leaf_entry list \<Rightarrow> segment_descriptor list \<Rightarrow> unit result" where
  "validate_leaf_entries covered entries segments =
    andThen (foldR (validate_leaf_step covered segments) None entries) (\<lambda>_. Inr ())"

definition validate_node :: "metadata_node \<Rightarrow> segment_descriptor list \<Rightarrow> unit result" where
  "validate_node node segments =
    andThen (validate_non_empty (mn_covered_range node)) (\<lambda>_.
    case mn_kind node of
      Internal children \<Rightarrow> validate_child_ranges (mn_covered_range node) children
    | Leaf entries run_extents \<Rightarrow>
        andThen (validate_leaf_entries (mn_covered_range node) entries segments) (\<lambda>_.
        validate_run_backed_file_extents run_extents))"

section \<open>Commit groups, timelines and checkpoints\<close>

record shard_root_update =
  su_shard_id :: shard_id
  su_old_root :: metadata_node_id
  su_new_root :: metadata_node_id

datatype root_update =
    BlockShard shard_root_update
  | FileCreated file_id metadata_node_id nat
  | FileRoot file_id metadata_node_id metadata_node_id nat

record commit_group =
  cg_commit_group :: commit_group_id
  cg_commit_seq :: commit_seq
  cg_owner :: mapping_owner
  cg_updates :: "root_update list"

record fork_record =
  fr_commit_seq :: commit_seq
  fr_source :: device_id
  fr_target :: device_id
  fr_shard_roots :: "metadata_node_id list"

record shard_commit =
  sc_commit_seq :: commit_seq
  sc_commit_group :: commit_group_id
  sc_time :: logical_time
  sc_device_id :: device_id
  sc_shard_id :: shard_id
  sc_old_root :: metadata_node_id
  sc_new_root :: metadata_node_id

record keyspace_commit =
  kc_commit_seq :: commit_seq
  kc_commit_group :: commit_group_id
  kc_time :: logical_time
  kc_keyspace_id :: keyspace_id
  kc_shard_index :: nat
  kc_old_shard :: keyspace_catalog_shard_id
  kc_new_shard :: keyspace_catalog_shard_id
  kc_old_file_count :: nat
  kc_new_file_count :: nat

record file_commit =
  fc_commit_seq :: commit_seq
  fc_commit_group :: commit_group_id
  fc_time :: logical_time
  fc_keyspace_id :: keyspace_id
  fc_file_id :: file_id
  fc_old_root :: "metadata_node_id option"
  fc_new_root :: metadata_node_id
  fc_old_version :: "file_version option"
  fc_new_version :: file_version
  fc_old_size :: nat
  fc_new_size :: nat

record delete_record =
  dr_commit_seq :: commit_seq
  dr_time :: logical_time
  dr_device_id :: device_id
  dr_shard_roots :: "metadata_node_id list"

datatype checkpoint_roots =
    CP_BlockShard "metadata_node_id list"
  | CP_NativeKeyspace keyspace_root_id

record checkpoint =
  cp_checkpoint_id :: checkpoint_id
  cp_commit_seq :: commit_seq
  cp_time :: logical_time
  cp_owner :: mapping_owner
  cp_roots :: checkpoint_roots

section \<open>What validation guarantees\<close>

text \<open>Consecutive non-empty ranges that start at \<open>a\<close> and end at \<open>b\<close>.\<close>

fun tiling :: "nat \<Rightarrow> nat \<Rightarrow> block_range list \<Rightarrow> bool" where
  "tiling a b [] \<longleftrightarrow> a = b"
| "tiling a b (r # rs) \<longleftrightarrow> range_start r = a \<and> 0 < range_blocks r \<and> tiling (range_stop r) b rs"

lemma tiling_le: "tiling a b rs \<Longrightarrow> a \<le> b"
  by (induction a b rs rule: tiling.induct) auto

lemma tiling_strict: "tiling a b rs \<Longrightarrow> rs \<noteq> [] \<Longrightarrow> a < b"
  by (cases rs) (auto dest: tiling_le)

lemma tiling_member: "tiling a b rs \<Longrightarrow> r \<in> set rs \<Longrightarrow> a \<le> range_start r \<and> range_stop r \<le> b \<and> 0 < range_blocks r"
  by (induction a b rs rule: tiling.induct) (auto dest: tiling_le)

lemma tiling_cover: "tiling a b rs \<Longrightarrow> a \<le> x \<Longrightarrow> x < b \<Longrightarrow> \<exists>r\<in>set rs. x \<in> blocks_of r"
proof (induction a b rs rule: tiling.induct)
  case (2 a b r rs)
  then show ?case
    by (cases "x < range_stop r") auto
qed simp

lemma tiling_disjoint: "tiling a b rs \<Longrightarrow> sorted_wrt (\<lambda>r s. range_stop r \<le> range_start s) rs"
  by (induction a b rs rule: tiling.induct) (auto dest: tiling_member)

lemma tiling_append: "tiling a c (rs @ ss) \<longleftrightarrow> (\<exists>b. tiling a b rs \<and> tiling b c ss)"
  by (induction rs arbitrary: a) auto

lemma tiling_distinct: "tiling a b rs \<Longrightarrow> distinct rs"
  by (induction a b rs rule: tiling.induct) (auto dest: tiling_member)

lemma tiling_unique:
  assumes "tiling a b rs" "r \<in> set rs" "s \<in> set rs" "x \<in> blocks_of r" "x \<in> blocks_of s"
  shows "r = s"
  using assms by (induction a b rs rule: tiling.induct) (fastforce dest: tiling_member)+

lemma child_step_Inr:
  "validate_child_step covered (previous, start) c = Inr st \<longleftrightarrow>
    range_ok covered \<and> range_ok (mc_range c) \<and> 0 < range_blocks (mc_range c)
    \<and> range_start covered \<le> range_start (mc_range c) \<and> range_stop (mc_range c) \<le> range_stop covered
    \<and> (case previous of None \<Rightarrow> range_start (mc_range c) = start
        | Some p \<Rightarrow> range_ok p \<and> range_start (mc_range c) = range_stop p)
    \<and> st = (Some (mc_range c), range_stop (mc_range c))"
  by (cases previous) (auto simp: validate_child_step_def)

lemma child_fold_tiling:
  assumes "foldR (validate_child_step covered) (previous, start) cs = Inr st"
    and "case previous of None \<Rightarrow> True | Some p \<Rightarrow> start = range_stop p"
  shows "tiling start (snd st) (map mc_range cs)"
  using assms
proof (induction cs arbitrary: previous start)
  case (Cons c cs)
  then obtain st1 where st1: "validate_child_step covered (previous, start) c = Inr st1"
    and rest: "foldR (validate_child_step covered) st1 cs = Inr st"
    by auto
  from st1 have eq: "st1 = (Some (mc_range c), range_stop (mc_range c))"
    and c: "0 < range_blocks (mc_range c)" "range_start (mc_range c) = start"
    using Cons.prems(2) by (auto simp: child_step_Inr split: option.splits)
  have "tiling (range_stop (mc_range c)) (snd st) (map mc_range cs)"
    using Cons.IH [OF rest [unfolded eq]] by simp
  with c show ?case
    by simp
qed auto

lemma child_ranges_tiling:
  assumes "validate_child_ranges covered cs = Inr u"
  shows "cs \<noteq> [] \<and> range_ok covered \<and> tiling (range_start covered) (range_stop covered) (map mc_range cs)"
  using assms child_fold_tiling [of covered None "range_start covered" cs]
  by (auto simp: validate_child_ranges_def)

lemma tiling_child_fold:
  assumes "tiling start stop (map mc_range cs)" "range_ok covered"
    and "range_start covered \<le> start" "stop \<le> range_stop covered"
    and "case previous of None \<Rightarrow> True | Some p \<Rightarrow> range_ok p \<and> start = range_stop p"
  shows "\<exists>p. foldR (validate_child_step covered) (previous, start) cs = Inr (p, stop)"
  using assms
proof (induction cs arbitrary: previous start)
  case (Cons c cs)
  have le: "range_stop (mc_range c) \<le> stop"
    using Cons.prems(1) by (auto dest: tiling_le)
  have ok: "range_ok (mc_range c)"
    using le Cons.prems(2,4) by (simp add: range_ok_def)
  have step: "validate_child_step covered (previous, start) c
      = Inr (Some (mc_range c), range_stop (mc_range c))"
    using Cons.prems le ok by (auto simp: child_step_Inr split: option.splits)
  have "\<exists>p. foldR (validate_child_step covered) (Some (mc_range c), range_stop (mc_range c)) cs = Inr (p, stop)"
    by (rule Cons.IH) (use Cons.prems ok in auto)
  then show ?case
    by (simp add: step)
qed simp

text \<open>Acceptance of the children of an internal node, in both directions.\<close>

lemma child_ranges_iff:
  "validate_child_ranges covered cs = Inr u \<longleftrightarrow>
    cs \<noteq> [] \<and> range_ok covered \<and> tiling (range_start covered) (range_stop covered) (map mc_range cs)"
  (is "_ \<longleftrightarrow> ?tiles")
proof
  assume ?tiles
  then obtain p where
    "foldR (validate_child_step covered) (None, range_start covered) cs = Inr (p, range_stop covered)"
    using tiling_child_fold [of "range_start covered" "range_stop covered" cs covered None] by auto
  with \<open>?tiles\<close> show "validate_child_ranges covered cs = Inr u"
    by (simp add: validate_child_ranges_def)
qed (rule child_ranges_tiling)

text \<open>The shape of a stored leaf, without reference to the segments.\<close>

definition entry_end :: "leaf_entry \<Rightarrow> nat" where
  "entry_end e = le_logical_start e + le_blocks e"

definition entries_ok :: "block_range \<Rightarrow> leaf_entry list \<Rightarrow> bool" where
  "entries_ok covered es \<longleftrightarrow>
    (\<forall>e\<in>set es. 0 < le_blocks e \<and> range_start covered \<le> le_logical_start e
      \<and> entry_end e \<le> range_stop covered)
    \<and> sorted_wrt (\<lambda>e f. entry_end e \<le> le_logical_start f) es"

definition entry_in_segment :: "segment_descriptor list \<Rightarrow> leaf_entry \<Rightarrow> bool" where
  "entry_in_segment segments e \<longleftrightarrow>
    (\<exists>d. find (\<lambda>d. sd_segment_id d = le_segment_id e) segments = Some d
      \<and> le_segment_offset e + le_blocks e \<le> sd_blocks d \<and> le_segment_offset e + le_blocks e < u64_limit)"

lemma logical_range_sel [simp]:
  "range_start (logical_range e) = le_logical_start e" "range_blocks (logical_range e) = le_blocks e"
  by (simp_all add: logical_range_def)

lemma validate_against_Inr:
  "validate_against e covered d = Inr u \<longleftrightarrow>
    range_ok covered \<and> range_ok (logical_range e) \<and> 0 < le_blocks e
    \<and> range_start covered \<le> le_logical_start e \<and> entry_end e \<le> range_stop covered
    \<and> le_segment_id e = sd_segment_id d
    \<and> le_segment_offset e + le_blocks e < u64_limit \<and> le_segment_offset e + le_blocks e \<le> sd_blocks d"
  by (auto simp: validate_against_def segment_end_exclusive_def entry_end_def)

lemma find_segment_id: "find (\<lambda>d. sd_segment_id d = i) segments = Some d \<Longrightarrow> sd_segment_id d = i"
  by (auto simp: find_Some_iff)

lemma leaf_step_Inr:
  "validate_leaf_step covered segments previous e = Inr st \<longleftrightarrow>
    entry_in_segment segments e \<and> range_ok covered \<and> range_ok (logical_range e) \<and> 0 < le_blocks e
    \<and> range_start covered \<le> le_logical_start e \<and> entry_end e \<le> range_stop covered
    \<and> (case previous of None \<Rightarrow> True | Some p \<Rightarrow> range_ok p \<and> range_stop p \<le> le_logical_start e)
    \<and> st = Some (logical_range e)"
proof (cases "find (\<lambda>d. sd_segment_id d = le_segment_id e) segments")
  case (Some d)
  then have id: "sd_segment_id d = le_segment_id e"
    by (rule find_segment_id)
  show ?thesis
    unfolding validate_leaf_step_def entry_in_segment_def Some
    by (cases previous) (simp_all add: validate_against_Inr id not_less, auto)
qed (simp add: validate_leaf_step_def entry_in_segment_def)

definition after :: "block_range option \<Rightarrow> leaf_entry list \<Rightarrow> bool" where
  "after previous es \<longleftrightarrow>
    (case previous of None \<Rightarrow> True
      | Some p \<Rightarrow> es = [] \<or> range_ok p \<and> (\<forall>e\<in>set es. range_stop p \<le> le_logical_start e))"

lemma entries_ok_Cons:
  "entries_ok covered (e # es) \<longleftrightarrow>
    0 < le_blocks e \<and> range_start covered \<le> le_logical_start e \<and> entry_end e \<le> range_stop covered
    \<and> (\<forall>f\<in>set es. entry_end e \<le> le_logical_start f) \<and> entries_ok covered es"
  by (auto simp: entries_ok_def)

lemma after_Cons:
  assumes "0 < le_blocks e" "\<forall>f\<in>set es. entry_end e \<le> le_logical_start f"
  shows "after previous (e # es) \<longleftrightarrow>
    (case previous of None \<Rightarrow> True | Some p \<Rightarrow> range_ok p \<and> range_stop p \<le> le_logical_start e)"
proof -
  have "range_stop p \<le> le_logical_start f" if "range_stop p \<le> le_logical_start e" "f \<in> set es" for p f
    using assms that by (force simp: entry_end_def)
  then show ?thesis
    by (auto simp: after_def split: option.splits)
qed

lemma leaf_fold_Inr:
  "(\<exists>st. foldR (validate_leaf_step covered segments) previous es = Inr st) \<longleftrightarrow>
    entries_ok covered es \<and> (\<forall>e\<in>set es. entry_in_segment segments e) \<and> (es = [] \<or> range_ok covered)
    \<and> after previous es"
proof (induction es arbitrary: previous)
  case (Cons e es)
  have ok: "range_ok (logical_range e)" if "range_ok covered" "entry_end e \<le> range_stop covered"
    using that by (simp add: range_ok_def entry_end_def)
  have next_ok: "after (Some (logical_range e)) es \<longleftrightarrow>
      es = [] \<or> range_ok (logical_range e) \<and> (\<forall>f\<in>set es. entry_end e \<le> le_logical_start f)"
    by (simp add: after_def entry_end_def)
  have step: "(\<exists>st. foldR (validate_leaf_step covered segments) previous (e # es) = Inr st) \<longleftrightarrow>
      validate_leaf_step covered segments previous e = Inr (Some (logical_range e))
      \<and> (\<exists>st. foldR (validate_leaf_step covered segments) (Some (logical_range e)) es = Inr st)"
    by (auto simp: leaf_step_Inr)
  show ?case
    unfolding step Cons.IH leaf_step_Inr next_ok entries_ok_Cons
    using ok after_Cons [of e es previous] by auto
qed (auto simp: entries_ok_def after_def split: option.splits)

lemma validate_leaf_entries_Inr:
  "validate_leaf_entries covered es segments = Inr u \<longleftrightarrow>
    entries_ok covered es \<and> (\<forall>e\<in>set es. entry_in_segment segments e) \<and> (es = [] \<or> range_ok covered)"
  using leaf_fold_Inr [of covered segments None es] 
  by (auto simp: validate_leaf_entries_def after_def)

section \<open>Properties\<close>

text \<open>
  C29: the validator of an internal node accepts a list of children exactly when it is not empty and
  its ranges tile the covered range: consecutive, non-empty, without a gap or an overlap, from the
  first covered block to the last.
\<close>

theorem validate_child_ranges_accepts_tilings:
  "validate_child_ranges covered children = Inr () \<longleftrightarrow>
    children \<noteq> [] \<and> range_ok covered
    \<and> tiling (range_start covered) (range_stop covered) (map mc_range children)"
  by (rule child_ranges_iff)

text \<open>
  C28: in a valid internal node every covered block belongs to the range of exactly one child, so a
  descent from the root is never ambiguous and never falls between two children.
\<close>

theorem valid_internal_node_routes_uniquely:
  assumes "validate_node node segments = Inr ()" "mn_kind node = Internal children"
    and "b \<in> blocks_of (mn_covered_range node)"
  shows "\<exists>!i. i < length children \<and> b \<in> blocks_of (mc_range (children ! i))"
proof -
  let ?c = "mn_covered_range node"
  have t: "tiling (range_start ?c) (range_stop ?c) (map mc_range children)"
    using assms(1,2) by (simp add: validate_node_def child_ranges_iff)
  then obtain r where "r \<in> set (map mc_range children)" "b \<in> blocks_of r"
    using tiling_cover assms(3) by (metis in_blocks_of)
  then obtain i where i: "i < length children" "b \<in> blocks_of (mc_range (children ! i))"
    by (auto simp: in_set_conv_nth)
  have "j = i" if "j < length children" "b \<in> blocks_of (mc_range (children ! j))" for j
  proof -
    have "map mc_range children ! j = map mc_range children ! i"
      using tiling_unique [OF t] i that by (metis length_map nth_map nth_mem)
    then show ?thesis
      using nth_eq_iff_index_eq [OF tiling_distinct [OF t], of j i] i(1) that(1) by simp
  qed
  with i show ?thesis
    by blast
qed

definition sample_internal :: metadata_node where
  "sample_internal = \<lparr>mn_node_id = 3, mn_covered_range = mk_range 0 8,
    mn_kind = Internal [\<lparr>mc_range = mk_range 0 5, mc_node_id = 1\<rparr>, \<lparr>mc_range = mk_range 5 3, mc_node_id = 2\<rparr>]\<rparr>"

theorem valid_internal_node_routes_uniquely_witness:
  "validate_node sample_internal [] = Inr ()
    \<and> (\<exists>!i. i < length [\<lparr>mc_range = mk_range 0 5, mc_node_id = 1\<rparr>, \<lparr>mc_range = mk_range 5 3, mc_node_id = 2 :: metadata_node_id\<rparr>]
      \<and> 6 \<in> blocks_of (mc_range ([\<lparr>mc_range = mk_range 0 5, mc_node_id = 1\<rparr>, \<lparr>mc_range = mk_range 5 3, mc_node_id = 2\<rparr>] ! i)))"
proof
  show v: "validate_node sample_internal [] = Inr ()"
    by (simp add: sample_internal_def validate_node_def child_ranges_iff range_ok_def u64_limit_def)
  show "\<exists>!i. i < length [\<lparr>mc_range = mk_range 0 5, mc_node_id = 1\<rparr>, \<lparr>mc_range = mk_range 5 3, mc_node_id = 2 :: metadata_node_id\<rparr>]
      \<and> 6 \<in> blocks_of (mc_range ([\<lparr>mc_range = mk_range 0 5, mc_node_id = 1\<rparr>, \<lparr>mc_range = mk_range 5 3, mc_node_id = 2\<rparr>] ! i))"
    by (rule valid_internal_node_routes_uniquely [OF v]) (simp_all add: sample_internal_def)
qed

text \<open>
  C30: the validator of leaf entries accepts a list exactly when its entries are non-empty, in
  ascending order, pairwise disjoint, inside the covered range, and each lies inside the segment it
  names.
\<close>

theorem validate_leaf_entries_accepts_sorted_disjoint:
  "validate_leaf_entries covered es segments = Inr () \<longleftrightarrow>
    (\<forall>e\<in>set es. 0 < le_blocks e \<and> blocks_of (logical_range e) \<subseteq> blocks_of covered \<and> entry_in_segment segments e)
    \<and> sorted_wrt (\<lambda>e f. entry_end e \<le> le_logical_start f) es
    \<and> (es = [] \<or> range_ok covered)"
proof -
  have "0 < le_blocks e \<and> blocks_of (logical_range e) \<subseteq> blocks_of covered \<longleftrightarrow>
      0 < le_blocks e \<and> range_start covered \<le> le_logical_start e \<and> entry_end e \<le> range_stop covered" for e
    by (auto simp: blocks_of_def entry_end_def)
  then have "(\<forall>e\<in>set es. 0 < le_blocks e \<and> blocks_of (logical_range e) \<subseteq> blocks_of covered \<and> entry_in_segment segments e)
      \<longleftrightarrow> (\<forall>e\<in>set es. (0 < le_blocks e \<and> range_start covered \<le> le_logical_start e \<and> entry_end e \<le> range_stop covered)
        \<and> entry_in_segment segments e)"
    by metis
  then show ?thesis
    unfolding validate_leaf_entries_Inr entries_ok_def by blast
qed

theorem validate_leaf_entries_accepts_sorted_disjoint_witness:
  "validate_leaf_entries (mk_range 0 8)
      [\<lparr>le_logical_start = 1, le_blocks = 2, le_segment_id = 7, le_segment_offset = 0\<rparr>]
      [\<lparr>sd_segment_id = 7, sd_blocks = 2, sd_bytes = 8192, sd_integrity = Payload_Unchecked\<rparr>] = Inr ()"
  by (subst validate_leaf_entries_accepts_sorted_disjoint)
    (auto simp: entry_in_segment_def range_ok_def u64_limit_def)

end
