(* ===== verification/Extents.thy ===== *)
theory Extents
  imports Prelude
begin

text \<open>
  Maps represented by sorted lists of disjoint extents.

  Leaf entries, run-backed file extents and both kinds of collapsed batch writes share one
  discipline: the list is sorted and disjoint; an overwrite cuts the old extents around the
  written interval, adds the new extents, sorts by start and possibly joins neighbours.  The
  locales below state what a cut and a join promise, and prove once that the whole procedure is
  a pointwise override of the map the list denotes.
\<close>

text \<open>The value a list of extents gives to a position.\<close>

definition extent_at ::
  "('x \<Rightarrow> nat) \<Rightarrow> ('x \<Rightarrow> nat) \<Rightarrow> ('x \<Rightarrow> nat \<Rightarrow> 'v) \<Rightarrow> 'x list \<Rightarrow> nat \<Rightarrow> 'v option" where
  "extent_at lo hi val xs p =
    (case find (\<lambda>x. lo x \<le> p \<and> p < hi x) xs of None \<Rightarrow> None | Some x \<Rightarrow> Some (val x p))"

definition extents_sorted :: "('x \<Rightarrow> nat) \<Rightarrow> ('x \<Rightarrow> nat) \<Rightarrow> 'x list \<Rightarrow> bool" where
  "extents_sorted lo hi xs \<longleftrightarrow> (\<forall>x\<in>set xs. lo x < hi x) \<and> sorted_wrt (\<lambda>x y. hi x \<le> lo y) xs"

section \<open>Extent lists\<close>

locale extent_list =
  fixes lo :: "'x \<Rightarrow> nat" and hi :: "'x \<Rightarrow> nat" and val :: "'x \<Rightarrow> nat \<Rightarrow> 'v"
begin

abbreviation "at \<equiv> extent_at lo hi val"
abbreviation "ordered \<equiv> extents_sorted lo hi"

lemma ordered_Nil: "ordered []"
  by (simp add: extents_sorted_def)

lemma ordered_Cons:
  "ordered (x # xs) \<longleftrightarrow> lo x < hi x \<and> (\<forall>y\<in>set xs. hi x \<le> lo y) \<and> ordered xs"
  by (auto simp: extents_sorted_def)

lemma ordered_append:
  "ordered (xs @ ys) \<longleftrightarrow> ordered xs \<and> ordered ys \<and> (\<forall>x\<in>set xs. \<forall>y\<in>set ys. hi x \<le> lo y)"
  by (auto simp: extents_sorted_def sorted_wrt_append)

lemma ordered_unique:
  assumes "ordered xs" "x \<in> set xs" "y \<in> set xs" "lo x \<le> p" "p < hi x" "lo y \<le> p" "p < hi y"
  shows "x = y"
  using assms by (induction xs) (fastforce simp: ordered_Cons)+

lemma ordered_distinct: "ordered xs \<Longrightarrow> distinct xs"
  by (induction xs) (fastforce simp: ordered_Cons)+

lemma at_mem: "at xs p = Some v \<Longrightarrow> \<exists>x\<in>set xs. lo x \<le> p \<and> p < hi x \<and> v = val x p"
  by (auto simp: extent_at_def find_Some_iff split: option.splits)

lemma at_Some_iff:
  assumes "ordered xs"
  shows "at xs p = Some v \<longleftrightarrow> (\<exists>x\<in>set xs. lo x \<le> p \<and> p < hi x \<and> v = val x p)"
proof
  assume "\<exists>x\<in>set xs. lo x \<le> p \<and> p < hi x \<and> v = val x p"
  then obtain x where x: "x \<in> set xs" "lo x \<le> p" "p < hi x" "v = val x p"
    by blast
  then obtain y where y: "find (\<lambda>x. lo x \<le> p \<and> p < hi x) xs = Some y"
    by (cases "find (\<lambda>x. lo x \<le> p \<and> p < hi x) xs") (auto simp: find_None_iff)
  then have "y \<in> set xs" "lo y \<le> p" "p < hi y"
    by (auto simp: find_Some_iff)
  then have "y = x"
    using assms x by (metis ordered_unique)
  with x y show "at xs p = Some v"
    by (simp add: extent_at_def)
qed (rule at_mem)

lemma at_None_iff: "at xs p = None \<longleftrightarrow> (\<forall>x\<in>set xs. \<not> (lo x \<le> p \<and> p < hi x))"
proof (cases "find (\<lambda>x. lo x \<le> p \<and> p < hi x) xs")
  case (Some x)
  then have "x \<in> set xs" "lo x \<le> p" "p < hi x"
    by (auto simp: find_Some_iff)
  with Some show ?thesis
    by (auto simp: extent_at_def)
next
  case None
  then have "\<forall>x\<in>set xs. \<not> (lo x \<le> p \<and> p < hi x)"
    by (auto simp: find_None_iff)
  with None show ?thesis
    by (simp add: extent_at_def)
qed

lemma at_cong:
  assumes "ordered xs" "ordered ys"
    and "\<And>v. (\<exists>x\<in>set xs. lo x \<le> p \<and> p < hi x \<and> v = val x p) \<longleftrightarrow>
      (\<exists>y\<in>set ys. lo y \<le> q \<and> q < hi y \<and> v = val y q)"
  shows "at xs p = at ys q"
  using assms(3) unfolding at_Some_iff [OF assms(1), symmetric] at_Some_iff [OF assms(2), symmetric]
  by (metis option.exhaust)

text \<open>Sorting by start orders any list of pairwise separate extents.\<close>

lemma sort_key_ordered:
  assumes "distinct xs" "\<forall>x\<in>set xs. lo x < hi x"
    and apart: "\<forall>x\<in>set xs. \<forall>y\<in>set xs. x \<noteq> y \<longrightarrow> hi x \<le> lo y \<or> hi y \<le> lo x"
  shows "ordered (sort_key lo xs)"
proof -
  let ?ys = "sort_key lo xs"
  have "hi (?ys ! i) \<le> lo (?ys ! j)" if "i < j" "j < length ?ys" for i j
  proof -
    have mem: "?ys ! i \<in> set xs" "?ys ! j \<in> set xs"
      using that nth_mem [of i ?ys] nth_mem [of j ?ys] by simp_all
    have "?ys ! i \<noteq> ?ys ! j"
      using assms(1) that by (simp add: nth_eq_iff_index_eq)
    moreover have "lo (?ys ! i) \<le> lo (?ys ! j)"
      using that sorted_nth_mono [OF sorted_sort_key [of lo xs], of i j] by simp
    moreover have "lo (?ys ! j) < hi (?ys ! j)"
      using assms(2) mem by blast
    ultimately show ?thesis
      using apart [rule_format, OF mem] by linarith
  qed
  then show ?thesis
    using assms(2) by (simp add: extents_sorted_def sorted_wrt_iff_nth_less)
qed

end

section \<open>Cutting an interval out of an extent\<close>

text \<open>
  \<open>carve a b x\<close> gives the parts of \<open>x\<close> outside the interval from \<open>a\<close> to \<open>b\<close>, in order, or fails.
  \<open>valid\<close> is what the caller knows of its extents.
\<close>

locale extent_carving = extent_list lo hi val
  for lo :: "'x \<Rightarrow> nat" and hi :: "'x \<Rightarrow> nat" and val :: "'x \<Rightarrow> nat \<Rightarrow> 'v" +
  fixes carve :: "nat \<Rightarrow> nat \<Rightarrow> 'x \<Rightarrow> 'e + 'x list" and valid :: "'x \<Rightarrow> bool"
  assumes carve_pieces: "\<lbrakk>carve a b x = Inr ys; a < b; lo x < hi x; valid x; y \<in> set ys\<rbrakk> \<Longrightarrow>
      lo x \<le> lo y \<and> lo y < hi y \<and> hi y \<le> hi x \<and> (hi y \<le> a \<or> b \<le> lo y) \<and> valid y
      \<and> (\<forall>p. lo y \<le> p \<and> p < hi y \<longrightarrow> val y p = val x p)"
    and carve_order: "\<lbrakk>carve a b x = Inr ys; a < b; lo x < hi x; valid x\<rbrakk> \<Longrightarrow>
      sorted_wrt (\<lambda>x y. hi x \<le> lo y) ys"
    and carve_rest: "\<lbrakk>carve a b x = Inr ys; a < b; lo x < hi x; valid x; lo x \<le> p; p < hi x; p < a \<or> b \<le> p\<rbrakk> \<Longrightarrow>
      \<exists>y\<in>set ys. lo y \<le> p \<and> p < hi y"
begin

lemma carve_all_pieces:
  assumes "mapR (carve a b) xs = Inr pss" "a < b" "ordered xs" "\<forall>x\<in>set xs. valid x"
  shows "ordered (concat pss)
    \<and> (\<forall>y\<in>set (concat pss). (hi y \<le> a \<or> b \<le> lo y) \<and> valid y \<and> (\<exists>x\<in>set xs. lo x \<le> lo y \<and> hi y \<le> hi x))"
  using assms(1,3,4)
proof (induction xs arbitrary: pss)
  case Nil
  then show ?case
    by (simp add: ordered_Nil)
next
  case (Cons x xs)
  from Cons.prems(1) obtain ps rest where
    p: "carve a b x = Inr ps" "mapR (carve a b) xs = Inr rest" "pss = ps # rest"
    by auto
  have x: "lo x < hi x" "valid x" "\<forall>y\<in>set xs. hi x \<le> lo y" "ordered xs"
    using Cons.prems(2,3) by (auto simp: ordered_Cons)
  have ps: "ordered ps"
    using carve_order [OF p(1) assms(2) x(1,2)] carve_pieces [OF p(1) assms(2) x(1,2)]
    by (auto simp: extents_sorted_def)
  have IH: "ordered (concat rest)"
    "\<forall>y\<in>set (concat rest). (hi y \<le> a \<or> b \<le> lo y) \<and> valid y \<and> (\<exists>x\<in>set xs. lo x \<le> lo y \<and> hi y \<le> hi x)"
    using Cons.IH [OF p(2) x(4)] Cons.prems(3) by auto
  have "hi y \<le> lo z" if "y \<in> set ps" "z \<in> set (concat rest)" for y z
    using carve_pieces [OF p(1) assms(2) x(1,2) that(1)] IH(2) that(2) x(3) by fastforce
  moreover have "(hi y \<le> a \<or> b \<le> lo y) \<and> valid y \<and> lo x \<le> lo y \<and> hi y \<le> hi x" if "y \<in> set ps" for y
    using carve_pieces [OF p(1) assms(2) x(1,2) that] by blast
  ultimately show ?case
    using ps IH by (fastforce simp: p(3) ordered_append simp del: set_concat)
qed

lemma carve_all_at:
  assumes "mapR (carve a b) xs = Inr pss" "a < b" "ordered xs" "\<forall>x\<in>set xs. valid x"
    and "p < a \<or> b \<le> p"
  shows "(\<exists>y\<in>set (concat pss). lo y \<le> p \<and> p < hi y \<and> v = val y p) \<longleftrightarrow>
    (\<exists>x\<in>set xs. lo x \<le> p \<and> p < hi x \<and> v = val x p)"
  using assms(1,3,4)
proof (induction xs arbitrary: pss)
  case (Cons x xs)
  from Cons.prems(1) obtain ps rest where
    q: "carve a b x = Inr ps" "mapR (carve a b) xs = Inr rest" "pss = ps # rest"
    by auto
  have x: "lo x < hi x" "valid x" "ordered xs"
    using Cons.prems(2,3) by (auto simp: ordered_Cons)
  have "(\<exists>y\<in>set ps. lo y \<le> p \<and> p < hi y \<and> v = val y p) \<longleftrightarrow> lo x \<le> p \<and> p < hi x \<and> v = val x p"
  proof
    assume "\<exists>y\<in>set ps. lo y \<le> p \<and> p < hi y \<and> v = val y p"
    then obtain y where y: "y \<in> set ps" "lo y \<le> p" "p < hi y" "v = val y p"
      by blast
    with carve_pieces [OF q(1) assms(2) x(1,2) y(1)] show "lo x \<le> p \<and> p < hi x \<and> v = val x p"
      by (simp add: le_trans [of "lo x" "lo y" p])
  next
    assume p: "lo x \<le> p \<and> p < hi x \<and> v = val x p"
    then obtain y where y: "y \<in> set ps" "lo y \<le> p" "p < hi y"
      using carve_rest [OF q(1) assms(2) x(1,2) _ _ assms(5)] by blast
    with carve_pieces [OF q(1) assms(2) x(1,2) y(1)] p
    show "\<exists>y\<in>set ps. lo y \<le> p \<and> p < hi y \<and> v = val y p"
      by auto
  qed
  moreover have "(\<exists>y\<in>set (concat rest). lo y \<le> p \<and> p < hi y \<and> v = val y p) \<longleftrightarrow>
      (\<exists>x\<in>set xs. lo x \<le> p \<and> p < hi x \<and> v = val x p)"
    using Cons.IH [OF q(2) x(3)] Cons.prems(3) by auto
  ultimately show ?case
    by (auto simp: q(3))
qed simp

text \<open>
  Cutting every extent, adding the replacements and sorting by start is a pointwise override.
\<close>

theorem replace_ordered:
  assumes "mapR (carve a b) xs = Inr pss" "a < b" "ordered xs" "\<forall>x\<in>set xs. valid x"
    and "ordered ys" "\<forall>y\<in>set ys. a \<le> lo y \<and> hi y \<le> b"
  shows "ordered (sort_key lo (concat pss @ ys))"
proof (rule sort_key_ordered)
  have c: "ordered (concat pss)" "\<forall>y\<in>set (concat pss). hi y \<le> a \<or> b \<le> lo y"
    using carve_all_pieces [OF assms(1-4)] by blast+
  have pos: "\<forall>z\<in>set (concat pss @ ys). lo z < hi z"
    using c(1) assms(5) by (auto simp: extents_sorted_def)
  then show "\<forall>z\<in>set (concat pss @ ys). lo z < hi z" .
  show "distinct (concat pss @ ys)"
  proof -
    have "set (concat pss) \<inter> set ys = {}"
    proof (rule ccontr)
      assume "set (concat pss) \<inter> set ys \<noteq> {}"
      then obtain z where z: "z \<in> set (concat pss)" "z \<in> set ys"
        by blast
      then have "hi z \<le> a \<or> b \<le> lo z" "a \<le> lo z" "hi z \<le> b" "lo z < hi z"
        using c(2) assms(6) pos by auto
      then show False
        by linarith
    qed
    then show ?thesis
      using ordered_distinct [OF c(1)] ordered_distinct [OF assms(5)] by simp
  qed
  have sep: "hi x \<le> lo y \<or> hi y \<le> lo x" if "ordered zs" "x \<in> set zs" "y \<in> set zs" "x \<noteq> y" for x y zs
    using that by (induction zs) (auto simp: ordered_Cons)
  have "hi x \<le> lo y \<or> hi y \<le> lo x" if "x \<in> set (concat pss)" "y \<in> set ys" for x y
    using c(2) assms(6) that by (meson le_trans)
  then show "\<forall>x\<in>set (concat pss @ ys). \<forall>y\<in>set (concat pss @ ys).
      x \<noteq> y \<longrightarrow> hi x \<le> lo y \<or> hi y \<le> lo x"
    using sep [OF c(1)] sep [OF assms(5)] unfolding set_append by blast
qed

theorem replace_at:
  assumes "mapR (carve a b) xs = Inr pss" "a < b" "ordered xs" "\<forall>x\<in>set xs. valid x"
    and "ordered ys" "\<forall>y\<in>set ys. a \<le> lo y \<and> hi y \<le> b"
  shows "at (sort_key lo (concat pss @ ys)) p = (if a \<le> p \<and> p < b then at ys p else at xs p)"
proof -
  have out: "ordered (sort_key lo (concat pss @ ys))"
    by (rule replace_ordered [OF assms])
  have c: "\<forall>y\<in>set (concat pss). hi y \<le> a \<or> b \<le> lo y"
    using carve_all_pieces [OF assms(1-4)] by blast
  have "at (sort_key lo (concat pss @ ys)) p = at ys p" if "a \<le> p" "p < b"
    by (rule at_cong [OF out assms(5)]) (use c that in \<open>auto simp del: set_concat\<close>)
  moreover have "at (sort_key lo (concat pss @ ys)) p = at xs p" if "p < a \<or> b \<le> p"
  proof (rule at_cong [OF out assms(3)])
    fix v
    have "\<not> (\<exists>y\<in>set ys. lo y \<le> p \<and> p < hi y \<and> v = val y p)"
      using assms(6) that by fastforce
    then show "(\<exists>x\<in>set (sort_key lo (concat pss @ ys)). lo x \<le> p \<and> p < hi x \<and> v = val x p) \<longleftrightarrow>
        (\<exists>x\<in>set xs. lo x \<le> p \<and> p < hi x \<and> v = val x p)"
      using carve_all_at [OF assms(1-4) that, of v] by (auto simp del: set_concat)
  qed
  ultimately show ?thesis
    by auto
qed

theorem replace_valid:
  assumes "mapR (carve a b) xs = Inr pss" "a < b" "ordered xs" "\<forall>x\<in>set xs. valid x" "\<forall>y\<in>set ys. valid y"
  shows "\<forall>z\<in>set (sort_key lo (concat pss @ ys)). valid z"
  using carve_all_pieces [OF assms(1-4)] assms(5) by (auto simp del: set_concat)

end

section \<open>Joining neighbours\<close>

text \<open>
  One step of a coalescing loop: the next extent is appended, or merged into the last one.
\<close>

locale extent_coalescing = extent_list lo hi val
  for lo :: "'x \<Rightarrow> nat" and hi :: "'x \<Rightarrow> nat" and val :: "'x \<Rightarrow> nat \<Rightarrow> 'v" +
  fixes step :: "'x list \<Rightarrow> 'x \<Rightarrow> 'e + 'x list" and valid :: "'x \<Rightarrow> bool"
  assumes step_cases: "\<lbrakk>step out x = Inr out'; valid x; \<forall>y\<in>set out. valid y; lo x < hi x; ordered out\<rbrakk> \<Longrightarrow>
      out' = out @ [x]
      \<or> (\<exists>ys y z. out = ys @ [y] \<and> out' = ys @ [z] \<and> lo z = lo y \<and> hi y = lo x \<and> hi z = hi x \<and> valid z
          \<and> (\<forall>p. lo y \<le> p \<and> p < hi y \<longrightarrow> val z p = val y p)
          \<and> (\<forall>p. lo x \<le> p \<and> p < hi x \<longrightarrow> val z p = val x p))"
begin

lemma step_keeps:
  assumes "step out x = Inr out'" "ordered (out @ x # xs)" "\<forall>y\<in>set (out @ x # xs). valid y"
  shows "ordered (out' @ xs) \<and> (\<forall>y\<in>set (out' @ xs). valid y)"
proof -
  have pre: "valid x" "\<forall>y\<in>set out. valid y" "lo x < hi x" "ordered out"
    using assms(2,3) by (auto simp: ordered_append ordered_Cons)
  from step_cases [OF assms(1) pre] show ?thesis
    using assms(2,3) by (fastforce simp: ordered_append ordered_Cons ordered_Nil)
qed

lemma step_at:
  assumes "step out x = Inr out'" "ordered (out @ x # xs)" "\<forall>y\<in>set (out @ x # xs). valid y"
  shows "at (out' @ xs) p = at (out @ x # xs) p"
proof (rule at_cong [OF _ assms(2)])
  show "ordered (out' @ xs)"
    using step_keeps [OF assms] ..
  have pre: "valid x" "\<forall>y\<in>set out. valid y" "lo x < hi x" "ordered out"
    using assms(2,3) by (auto simp: ordered_append ordered_Cons)
  fix v
  show "(\<exists>y\<in>set (out' @ xs). lo y \<le> p \<and> p < hi y \<and> v = val y p) \<longleftrightarrow>
      (\<exists>y\<in>set (out @ x # xs). lo y \<le> p \<and> p < hi y \<and> v = val y p)"
  proof (cases "out' = out @ [x]")
    case False
    then obtain ys y z where z: "out = ys @ [y]" "out' = ys @ [z]" "lo z = lo y" "hi y = lo x" "hi z = hi x"
      "\<forall>p. lo y \<le> p \<and> p < hi y \<longrightarrow> val z p = val y p" "\<forall>p. lo x \<le> p \<and> p < hi x \<longrightarrow> val z p = val x p"
      using step_cases [OF assms(1) pre] by blast
    have "lo y < hi y"
      using pre(4) z(1) by (auto simp: ordered_append ordered_Cons)
    then have "lo z \<le> p \<and> p < hi z \<longleftrightarrow> lo y \<le> p \<and> p < hi y \<or> lo x \<le> p \<and> p < hi x"
      using z(3-5) pre(3) by auto
    then have "lo z \<le> p \<and> p < hi z \<and> v = val z p \<longleftrightarrow>
        lo y \<le> p \<and> p < hi y \<and> v = val y p \<or> lo x \<le> p \<and> p < hi x \<and> v = val x p"
      using z(6,7) by metis
    then show ?thesis
      by (auto simp: z(1,2))
  qed auto
qed

theorem coalesce_keeps:
  assumes "foldR step out xs = Inr res" "ordered (out @ xs)" "\<forall>x\<in>set (out @ xs). valid x"
  shows "ordered res \<and> (\<forall>x\<in>set res. valid x) \<and> (\<forall>p. at res p = at (out @ xs) p)"
  using assms
proof (induction xs arbitrary: out)
  case (Cons x xs)
  from Cons.prems(1) obtain out' where s: "step out x = Inr out'" "foldR step out' xs = Inr res"
    by auto
  note keeps = step_keeps [OF s(1) Cons.prems(2,3)]
  show ?case
    using Cons.IH [OF s(2)] keeps step_at [OF s(1) Cons.prems(2,3)] by simp
qed simp

end

end
