(* ===== verification/Leaf_Edit.thy ===== *)
theory Leaf_Edit
  imports Objects Extents
begin

text \<open>
  Editing the entries of one leaf (\<^verbatim>\<open>local/metadata_tree.rs\<close>: \<^verbatim>\<open>replace_leaf_entries\<close>,
  \<^verbatim>\<open>coalesce_leaf_entries\<close>, \<^verbatim>\<open>blocks_for_bytes\<close> and the range conversions).  The map a leaf
  denotes sends a block to the segment block that holds it; an edit is shown to override exactly
  the replaced range of that map and to keep the leaf valid.
\<close>

section \<open>The program\<close>

definition carve_leaf_entry :: "block_range \<Rightarrow> leaf_entry \<Rightarrow> leaf_entry list result" where
  "carve_leaf_entry r entry =
    andThen (end_exclusive r) (\<lambda>replacement_end.
    andThen (end_exclusive (logical_range entry)) (\<lambda>entry_stop.
    andThen (overlaps (logical_range entry) r) (\<lambda>hit.
    if \<not> hit then Inr [entry]
    else
      let left =
        (if le_logical_start entry < range_start r
         then [\<lparr>le_logical_start = le_logical_start entry,
                le_blocks = range_start r - le_logical_start entry,
                le_segment_id = le_segment_id entry,
                le_segment_offset = le_segment_offset entry\<rparr>]
         else [])
      in
        if replacement_end < entry_stop then
          andThen (ok_or (checked_add_u64 (le_segment_offset entry)
              (replacement_end - le_logical_start entry)) invalid_argument) (\<lambda>segment_offset.
          Inr (left @ [\<lparr>le_logical_start = replacement_end,
                        le_blocks = entry_stop - replacement_end,
                        le_segment_id = le_segment_id entry,
                        le_segment_offset = segment_offset\<rparr>]))
        else Inr left)))"

definition coalesce_leaf_step :: "leaf_entry list \<Rightarrow> leaf_entry \<Rightarrow> leaf_entry list result" where
  "coalesce_leaf_step out entry =
    (if out = [] then Inr (out @ [entry])
     else
       let previous = last out in
       if le_segment_id previous = le_segment_id entry then
         andThen (end_exclusive (logical_range previous)) (\<lambda>logical_end.
         if logical_end = le_logical_start entry then
           andThen (segment_end_exclusive previous) (\<lambda>segment_end.
           if segment_end = le_segment_offset entry then
             andThen (ok_or (checked_add_u64 (le_blocks previous) (le_blocks entry)) invalid_argument)
               (\<lambda>blocks. Inr (butlast out @ [previous\<lparr>le_blocks := blocks\<rparr>]))
           else Inr (out @ [entry]))
         else Inr (out @ [entry]))
       else Inr (out @ [entry]))"

definition coalesce_leaf_entries :: "leaf_entry list \<Rightarrow> leaf_entry list result" where
  "coalesce_leaf_entries entries = foldR coalesce_leaf_step [] entries"

definition replace_leaf_entries ::
  "leaf_entry list \<Rightarrow> block_range \<Rightarrow> block_range \<Rightarrow> leaf_entry option \<Rightarrow> leaf_entry list result" where
  "replace_leaf_entries entries covered r replacement =
    andThen (validate_non_empty r) (\<lambda>_.
    andThen (contains_range covered r) (\<lambda>inside.
    andThen (ensure inside invalid_argument) (\<lambda>_.
    andThen (end_exclusive r) (\<lambda>_.
    andThen (mapR (carve_leaf_entry r) entries) (\<lambda>pieces.
    coalesce_leaf_entries (sort_key le_logical_start
      (concat pieces @ (case replacement of None \<Rightarrow> [] | Some e \<Rightarrow> [e]))))))))"

definition block_range_to_byte_range :: "block_range \<Rightarrow> nat \<Rightarrow> byte_range result" where
  "block_range_to_byte_range r bs =
    andThen (ok_or (checked_mul_u64 (range_start r) bs) invalid_argument) (\<lambda>offset.
    andThen (ok_or (checked_mul_u64 (range_blocks r) bs) invalid_argument) (\<lambda>len.
    Inr (mk_bytes offset len)))"

definition byte_range_intersection :: "byte_range \<Rightarrow> byte_range \<Rightarrow> byte_range option result" where
  "byte_range_intersection a b =
    andThen (byte_end a) (\<lambda>a_end.
    andThen (byte_end b) (\<lambda>b_end.
    let start = max (byte_offset a) (byte_offset b); stop = min a_end b_end in
    if stop \<le> start then Inr None else Inr (Some (mk_bytes start (stop - start)))))"

definition blocks_for_bytes :: "nat \<Rightarrow> nat \<Rightarrow> nat result" where
  "blocks_for_bytes bytes bs =
    andThen (ensure (bs \<noteq> 0) invalid_argument) (\<lambda>_.
    if bytes = 0 then Inr 0
    else ok_or (map_option (\<lambda>adjusted. adjusted div bs) (checked_add_u64 bytes (bs - 1))) invalid_argument)"

section \<open>The map a leaf denotes\<close>

definition leaf_value :: "leaf_entry \<Rightarrow> nat \<Rightarrow> segment_id \<times> nat" where
  "leaf_value e b = (le_segment_id e, le_segment_offset e + (b - le_logical_start e))"

definition leaf_at :: "leaf_entry list \<Rightarrow> nat \<Rightarrow> (segment_id \<times> nat) option" where
  "leaf_at es b = extent_at le_logical_start entry_end leaf_value es b"

lemma entries_ok_alt:
  "entries_ok covered es \<longleftrightarrow> extents_sorted le_logical_start entry_end es
    \<and> (\<forall>e\<in>set es. range_start covered \<le> le_logical_start e \<and> entry_end e \<le> range_stop covered)"
  by (auto simp: entries_ok_def extents_sorted_def entry_end_def)

lemma carve_leaf_cases:
  assumes "carve_leaf_entry r e = Inr ps" "0 < range_blocks r" "0 < le_blocks e"
  shows "(blocks_of (logical_range e) \<inter> blocks_of r = {} \<and> ps = [e]) \<or>
    (le_logical_start e < range_stop r \<and> range_start r < entry_end e \<and>
     ps = (if le_logical_start e < range_start r
           then [e\<lparr>le_blocks := range_start r - le_logical_start e\<rparr>] else []) @
          (if range_stop r < entry_end e
           then [e\<lparr>le_logical_start := range_stop r, le_blocks := entry_end e - range_stop r,
                  le_segment_offset := le_segment_offset e + (range_stop r - le_logical_start e)\<rparr>] else []))"
proof -
  have "blocks_of (logical_range e) \<inter> blocks_of r \<noteq> {} \<longleftrightarrow>
      le_logical_start e < range_stop r \<and> range_start r < entry_end e"
    using assms(2,3) by (force simp: blocks_of_def entry_end_def)
  then show ?thesis
    using assms(1) by (auto simp: carve_leaf_entry_def Let_def entry_end_def ex_bool_eq split: if_splits)
qed

lemma blocks_disjoint_iff:
  assumes "0 < range_blocks r" "0 < le_blocks e"
  shows "blocks_of (logical_range e) \<inter> blocks_of r = {} \<longleftrightarrow>
    entry_end e \<le> range_start r \<or> range_stop r \<le> le_logical_start e"
  using assms by (force simp: blocks_of_def entry_end_def)

interpretation leaf_cut: extent_carving le_logical_start entry_end leaf_value
  "\<lambda>a b. carve_leaf_entry (mk_range a (b - a))" "entry_in_segment segments" for segments
proof unfold_locales
  fix a b x ys
  assume a: "carve_leaf_entry (mk_range a (b - a)) x = Inr ys" "a < b"
    "le_logical_start x < entry_end x" "entry_in_segment segments x"
  have pos: "0 < range_blocks (mk_range a (b - a))" "0 < le_blocks x"
    using a(2,3) by (auto simp: entry_end_def)
  note cases = carve_leaf_cases [OF a(1) pos] blocks_disjoint_iff [OF pos]
  show "le_logical_start x \<le> le_logical_start y \<and> le_logical_start y < entry_end y \<and> entry_end y \<le> entry_end x
      \<and> (entry_end y \<le> a \<or> b \<le> le_logical_start y) \<and> entry_in_segment segments y
      \<and> (\<forall>p. le_logical_start y \<le> p \<and> p < entry_end y \<longrightarrow> leaf_value y p = leaf_value x p)"
    if "y \<in> set ys" for y
    using cases a that by (auto simp: entry_end_def leaf_value_def entry_in_segment_def split: if_splits)
  show "sorted_wrt (\<lambda>x y. entry_end x \<le> le_logical_start y) ys"
    using cases a(2) by (auto simp: entry_end_def split: if_splits)
  show "\<exists>y\<in>set ys. le_logical_start y \<le> p \<and> p < entry_end y"
    if "le_logical_start x \<le> p" "p < entry_end x" "p < a \<or> b \<le> p" for p
    using cases a(2) that by (auto simp: entry_end_def split: if_splits)
qed

lemma coalesce_leaf_step_Inr:
  "coalesce_leaf_step out e = Inr out' \<Longrightarrow>
    out' = out @ [e] \<or>
    (\<exists>ys y. out = ys @ [y] \<and> out' = ys @ [y\<lparr>le_blocks := le_blocks y + le_blocks e\<rparr>]
      \<and> le_segment_id y = le_segment_id e \<and> entry_end y = le_logical_start e
      \<and> le_segment_offset y + le_blocks y = le_segment_offset e)"
  by (cases out rule: rev_cases)
    (auto simp: coalesce_leaf_step_def Let_def segment_end_exclusive_def entry_end_def split: if_splits)

interpretation leaf_join: extent_coalescing le_logical_start entry_end leaf_value
  coalesce_leaf_step "entry_in_segment segments" for segments
proof unfold_locales
  fix out x out'
  assume a: "coalesce_leaf_step out x = Inr out'" "entry_in_segment segments x"
    "\<forall>y\<in>set out. entry_in_segment segments y"
  from coalesce_leaf_step_Inr [OF a(1)]
  show "out' = out @ [x] \<or> (\<exists>ys y z. out = ys @ [y] \<and> out' = ys @ [z]
      \<and> le_logical_start z = le_logical_start y \<and> entry_end y = le_logical_start x \<and> entry_end z = entry_end x
      \<and> entry_in_segment segments z
      \<and> (\<forall>p. le_logical_start y \<le> p \<and> p < entry_end y \<longrightarrow> leaf_value z p = leaf_value y p)
      \<and> (\<forall>p. le_logical_start x \<le> p \<and> p < entry_end x \<longrightarrow> leaf_value z p = leaf_value x p))"
    using a(2) by (fastforce simp: entry_end_def leaf_value_def entry_in_segment_def)
qed

section \<open>Edits are overrides\<close>

lemma replacement_ordered:
  assumes "case rep of None \<Rightarrow> True | Some e \<Rightarrow> logical_range e = r" "0 < range_blocks r"
  shows "extents_sorted le_logical_start entry_end (case rep of None \<Rightarrow> [] | Some e \<Rightarrow> [e])
    \<and> (\<forall>y\<in>set (case rep of None \<Rightarrow> [] | Some e \<Rightarrow> [e]). range_start r \<le> le_logical_start y \<and> entry_end y \<le> range_stop r)"
  using assms by (auto simp: extents_sorted_def entry_end_def logical_range_def split: option.splits)

lemma replace_leaf_unfold:
  assumes "replace_leaf_entries es covered r rep = Inr out"
  obtains pieces where "0 < range_blocks r" "range_ok r" "range_ok covered"
    "range_start covered \<le> range_start r" "range_stop r \<le> range_stop covered"
    "mapR (carve_leaf_entry r) es = Inr pieces"
    "coalesce_leaf_entries (sort_key le_logical_start
      (concat pieces @ (case rep of None \<Rightarrow> [] | Some e \<Rightarrow> [e]))) = Inr out"
  using assms by (auto simp: replace_leaf_entries_def ex_bool_eq)

lemma mk_range_self [simp]: "mk_range (range_start r) (range_blocks r) = r"
  by (simp add: range_eq_iff)

lemma replace_leaf_sorted_at:
  assumes "replace_leaf_entries es covered r rep = Inr out"
    and "extents_sorted le_logical_start entry_end es" "\<forall>e\<in>set es. entry_in_segment segments e"
    and "case rep of None \<Rightarrow> True | Some e \<Rightarrow> logical_range e = r \<and> entry_in_segment segments e"
  shows "extents_sorted le_logical_start entry_end out \<and> (\<forall>e\<in>set out. entry_in_segment segments e)
    \<and> (\<forall>b. leaf_at out b =
        (if b \<in> blocks_of r then (case rep of None \<Rightarrow> None | Some e \<Rightarrow> Some (leaf_value e b))
         else leaf_at es b))"
proof -
  let ?rep = "case rep of None \<Rightarrow> [] | Some e \<Rightarrow> [e]"
  obtain pieces where p: "0 < range_blocks r" "mapR (carve_leaf_entry r) es = Inr pieces"
    "coalesce_leaf_entries (sort_key le_logical_start (concat pieces @ ?rep)) = Inr out"
    by (rule replace_leaf_unfold [OF assms(1)])
  have rep: "extents_sorted le_logical_start entry_end ?rep"
    "\<forall>y\<in>set ?rep. range_start r \<le> le_logical_start y \<and> entry_end y \<le> range_stop r"
    "\<forall>y\<in>set ?rep. entry_in_segment segments y"
    using replacement_ordered [of r rep] p(1) assms(4) by (auto split: option.splits)
  have lt: "range_start r < range_stop r"
    using p(1) by simp
  have m: "mapR (carve_leaf_entry (mk_range (range_start r) (range_stop r - range_start r))) es = Inr pieces"
    using p(2) by simp
  have sorted: "extents_sorted le_logical_start entry_end (sort_key le_logical_start (concat pieces @ ?rep))"
    and valid: "\<forall>z\<in>set (sort_key le_logical_start (concat pieces @ ?rep)). entry_in_segment segments z"
    and at: "\<And>b. extent_at le_logical_start entry_end leaf_value
        (sort_key le_logical_start (concat pieces @ ?rep)) b =
      (if range_start r \<le> b \<and> b < range_stop r then extent_at le_logical_start entry_end leaf_value ?rep b
       else extent_at le_logical_start entry_end leaf_value es b)"
    using leaf_cut.replace_ordered [OF m lt assms(2,3) rep(1,2)]
      leaf_cut.replace_valid [OF m lt assms(2,3) rep(3)]
      leaf_cut.replace_at [OF m lt assms(2,3) rep(1,2)]
    by blast+
  have "extent_at le_logical_start entry_end leaf_value ?rep b =
      (case rep of None \<Rightarrow> None | Some e \<Rightarrow> Some (leaf_value e b))" if "b \<in> blocks_of r" for b
    using assms(4) that by (auto simp: extent_at_def entry_end_def split: option.splits)
  with leaf_join.coalesce_keeps [OF p(3) [unfolded coalesce_leaf_entries_def], of segments] sorted valid at
  show ?thesis
    by (simp add: leaf_at_def)
qed

lemma replace_leaf_entries_ok:
  assumes "replace_leaf_entries es covered r rep = Inr out" "entries_ok covered es"
    and "\<forall>e\<in>set es. entry_in_segment segments e"
    and "case rep of None \<Rightarrow> True | Some e \<Rightarrow> logical_range e = r \<and> entry_in_segment segments e"
  shows "entries_ok covered out"
proof -
  have es: "extents_sorted le_logical_start entry_end es"
    using assms(2) by (simp add: entries_ok_alt)
  note out = replace_leaf_sorted_at [OF assms(1) es assms(3,4)]
  have inside: "b \<in> blocks_of covered" if "leaf_at out b = Some v" for b v
  proof (cases "b \<in> blocks_of r")
    case True
    then show ?thesis
      by (rule_tac replace_leaf_unfold [OF assms(1)]) auto
  next
    case False
    with that out have "leaf_at es b = Some v"
      by metis
    then show ?thesis
      using assms(2) leaf_cut.at_mem [of es b v] by (auto simp: leaf_at_def entries_ok_alt)
  qed
  have "range_start covered \<le> le_logical_start e \<and> entry_end e \<le> range_stop covered" if e: "e \<in> set out" for e
  proof -
    have lt: "le_logical_start e < entry_end e"
      using out e by (auto simp: extents_sorted_def)
    have "leaf_at out b = Some (leaf_value e b)" if "le_logical_start e \<le> b" "b < entry_end e" for b
      using out e that leaf_cut.at_Some_iff [of out b "leaf_value e b"] by (auto simp: leaf_at_def)
    moreover have "le_logical_start e \<le> entry_end e - 1"
      using lt by simp
    ultimately have "le_logical_start e \<in> blocks_of covered" "entry_end e - 1 \<in> blocks_of covered"
      using lt inside by (metis le_refl, metis diff_less less_nat_zero_code less_one neq0_conv)
    with lt show ?thesis
      by auto
  qed
  with out show ?thesis
    by (simp add: entries_ok_alt)
qed

text \<open>An edit of a valid leaf never fails.\<close>

lemma carve_leaf_total:
  assumes "range_ok r" "range_ok (logical_range e)" "entry_in_segment segments e" "0 < range_blocks r" "0 < le_blocks e"
  shows "\<exists>ps. carve_leaf_entry r e = Inr ps"
proof -
  have "le_segment_offset e + (range_stop r - le_logical_start e) < u64_limit" if "range_stop r < entry_end e"
    using assms(3,5) that by (auto simp: entry_in_segment_def entry_end_def)
  then show ?thesis
    using assms(1,2)
    by (simp add: carve_leaf_entry_def Let_def end_exclusive_ok entry_end_def ex_bool_eq)
qed

lemma coalesce_leaf_step_total:
  assumes "\<forall>y\<in>set out. range_ok (logical_range y) \<and> entry_in_segment segments y"
    and "entry_in_segment segments e"
  shows "\<exists>out'. coalesce_leaf_step out e = Inr out'"
proof (cases out rule: rev_cases)
  case (snoc ys y)
  have "range_ok (logical_range y)" "le_segment_offset y + le_blocks y < u64_limit"
    "le_segment_offset e + le_blocks e < u64_limit"
    using assms snoc by (auto simp: entry_in_segment_def)
  then show ?thesis
    using snoc by (auto simp: coalesce_leaf_step_def Let_def end_exclusive_ok segment_end_exclusive_def ex_bool_eq)
qed (simp add: coalesce_leaf_step_def)

definition coalescible :: "segment_descriptor list \<Rightarrow> leaf_entry list \<Rightarrow> leaf_entry list \<Rightarrow> bool" where
  "coalescible segments out es \<longleftrightarrow> extents_sorted le_logical_start entry_end (out @ es)
    \<and> (\<forall>e\<in>set (out @ es). entry_in_segment segments e \<and> entry_end e < u64_limit)"

lemma coalesce_leaf_total:
  assumes "coalescible segments [] es"
  shows "\<exists>out. coalesce_leaf_entries es = Inr out"
  unfolding coalesce_leaf_entries_def
proof (rule foldR_total [where I = "coalescible segments", OF _ assms])
  fix out x xs
  assume a: "coalescible segments out (x # xs)"
  then have "\<forall>y\<in>set out. range_ok (logical_range y) \<and> entry_in_segment segments y" "entry_in_segment segments x"
    by (auto simp: coalescible_def range_ok_def entry_end_def)
  then obtain out' where s: "coalesce_leaf_step out x = Inr out'"
    using coalesce_leaf_step_total by blast
  have "\<forall>e\<in>set (out' @ xs). entry_end e < u64_limit"
    using coalesce_leaf_step_Inr [OF s] a by (auto simp: coalescible_def entry_end_def)
  then show "\<exists>t. coalesce_leaf_step out x = Inr t \<and> coalescible segments t xs"
    using s a leaf_join.step_keeps [OF s, of xs segments] by (auto simp: coalescible_def)
qed

lemma replace_leaf_total:
  assumes "entries_ok covered es" "\<forall>e\<in>set es. entry_in_segment segments e"
    and "range_ok covered" "0 < range_blocks r"
    and "range_start covered \<le> range_start r" "range_stop r \<le> range_stop covered"
    and "case rep of None \<Rightarrow> True | Some e \<Rightarrow> logical_range e = r \<and> entry_in_segment segments e"
  shows "\<exists>out. replace_leaf_entries es covered r rep = Inr out"
proof -
  have ok: "range_ok r"
    using assms(3,6) by (simp add: range_ok_def)
  have "\<exists>ps. carve_leaf_entry r e = Inr ps" if "e \<in> set es" for e
    using carve_leaf_total [OF ok _ _ assms(4), of e segments] assms(1-3) that
    by (auto simp: entries_ok_def range_ok_def entry_end_def)
  then obtain pieces where p: "mapR (carve_leaf_entry r) es = Inr pieces"
    using mapR_total by metis
  let ?rep = "case rep of None \<Rightarrow> [] | Some e \<Rightarrow> [e]"
  have rep: "extents_sorted le_logical_start entry_end ?rep"
    "\<forall>y\<in>set ?rep. range_start r \<le> le_logical_start y \<and> entry_end y \<le> range_stop r"
    "\<forall>y\<in>set ?rep. entry_in_segment segments y"
    using replacement_ordered [of r rep] assms(4,7) by (auto split: option.splits)
  have lt: "range_start r < range_stop r"
    using assms(4) by simp
  have m: "mapR (carve_leaf_entry (mk_range (range_start r) (range_stop r - range_start r))) es = Inr pieces"
    using p by simp
  have es: "extents_sorted le_logical_start entry_end es"
    using assms(1) by (simp add: entries_ok_alt)
  have "entry_end z < u64_limit" if "z \<in> set (concat pieces @ ?rep)" for z
  proof (cases "z \<in> set ?rep")
    case True
    then show ?thesis
      using rep(2) ok by (force simp: range_ok_def)
  next
    case False
    with that have "z \<in> set (concat pieces)"
      unfolding set_append by blast
    then obtain x where "x \<in> set es" "entry_end z \<le> entry_end x"
      using leaf_cut.carve_all_pieces [OF m lt es assms(2)] by blast
    then show ?thesis
      using assms(1,3) by (force simp: entries_ok_def range_ok_def)
  qed
  then have "coalescible segments [] (sort_key le_logical_start (concat pieces @ ?rep))"
    using leaf_cut.replace_ordered [OF m lt es assms(2) rep(1,2)]
      leaf_cut.replace_valid [OF m lt es assms(2) rep(3)]
    by (simp add: coalescible_def)
  then show ?thesis
    using coalesce_leaf_total p ok assms(3-6) by (fastforce simp: replace_leaf_entries_def ex_bool_eq)
qed

section \<open>Properties\<close>

text \<open>
  C12: editing a valid leaf over a non-empty range inside the covered range, with no replacement or
  with an entry for exactly that range, never fails; the new list is again valid for the same
  segments, and it maps every block of the range to the replacement and every other block to what it
  was mapped to before.
\<close>

theorem replace_leaf_entries_overrides:
  assumes "validate_leaf_entries covered es segments = Inr ()" "range_ok covered"
    and "0 < range_blocks r" "blocks_of r \<subseteq> blocks_of covered"
    and "case rep of None \<Rightarrow> True | Some e \<Rightarrow> logical_range e = r \<and> entry_in_segment segments e"
  shows "\<exists>out. replace_leaf_entries es covered r rep = Inr out
    \<and> validate_leaf_entries covered out segments = Inr ()
    \<and> (\<forall>b. leaf_at out b =
        (if b \<in> blocks_of r then (case rep of None \<Rightarrow> None | Some e \<Rightarrow> Some (leaf_value e b))
         else leaf_at es b))"
proof -
  have es: "entries_ok covered es" "\<forall>e\<in>set es. entry_in_segment segments e"
    using assms(1) by (simp_all add: validate_leaf_entries_Inr)
  have "{range_start r ..< range_stop r} \<subseteq> {range_start covered ..< range_stop covered}"
    using assms(4) by (simp add: blocks_of_def)
  with assms(3) have inside: "range_start covered \<le> range_start r" "range_stop r \<le> range_stop covered"
    by (simp_all add: ivl_subset)
  obtain out where out: "replace_leaf_entries es covered r rep = Inr out"
    using replace_leaf_total [OF es assms(2,3) inside assms(5)] by blast
  have sorted: "extents_sorted le_logical_start entry_end es"
    using es(1) by (simp add: entries_ok_alt)
  note at = replace_leaf_sorted_at [OF out sorted es(2) assms(5)]
  have "entries_ok covered out"
    by (rule replace_leaf_entries_ok [OF out es assms(5)])
  with at assms(2) have "validate_leaf_entries covered out segments = Inr ()"
    by (simp add: validate_leaf_entries_Inr)
  with out at show ?thesis
    by blast
qed

definition sample_segments :: "segment_descriptor list" where
  "sample_segments = [\<lparr>sd_segment_id = 7, sd_blocks = 6, sd_bytes = 24576, sd_integrity = Payload_Unchecked\<rparr>,
    \<lparr>sd_segment_id = 9, sd_blocks = 2, sd_bytes = 8192, sd_integrity = Crc32c 5\<rparr>]"

definition sample_entry :: leaf_entry where
  "sample_entry = \<lparr>le_logical_start = 1, le_blocks = 6, le_segment_id = 7, le_segment_offset = 0\<rparr>"

definition sample_patch :: leaf_entry where
  "sample_patch = \<lparr>le_logical_start = 3, le_blocks = 2, le_segment_id = 9, le_segment_offset = 0\<rparr>"

theorem replace_leaf_entries_overrides_witness:
  "\<exists>out. replace_leaf_entries [sample_entry] (mk_range 0 8) (mk_range 3 2) (Some sample_patch) = Inr out
    \<and> validate_leaf_entries (mk_range 0 8) out sample_segments = Inr ()
    \<and> (\<forall>b. leaf_at out b =
        (if b \<in> blocks_of (mk_range 3 2) then (case Some sample_patch of None \<Rightarrow> None | Some e \<Rightarrow> Some (leaf_value e b))
         else leaf_at [sample_entry] b))"
  by (rule replace_leaf_entries_overrides)
    (auto simp: sample_segments_def sample_entry_def sample_patch_def validate_leaf_entries_Inr entries_ok_def
      entry_in_segment_def range_ok_def u64_limit_def entry_end_def logical_range_def)

text \<open>
  C31: the number of blocks computed for a byte length is the least number of whole blocks that
  hold it, as long as the length is not within one block of the end of the address space.
\<close>

theorem blocks_for_bytes_least:
  assumes "0 < bs" "n + bs \<le> u64_limit"
  shows "\<exists>k. blocks_for_bytes n bs = Inr k \<and> n \<le> k * bs \<and> (\<forall>j. n \<le> j * bs \<longrightarrow> k \<le> j)"
proof (cases "n = 0")
  case False
  let ?k = "(n + (bs - 1)) div bs"
  have "blocks_for_bytes n bs = Inr ?k"
    using assms False by (simp add: blocks_for_bytes_def checked_add_u64_def)
  moreover have "n \<le> ?k * bs"
    using assms(1) div_mult_mod_eq [of "n + (bs - 1)" bs] mod_less_divisor [OF assms(1), of "n + (bs - 1)"] by linarith
  moreover have "?k \<le> j" if "n \<le> j * bs" for j
  proof -
    have "n + (bs - 1) < (j + 1) * bs"
      using that assms(1) by simp
    then have "?k < j + 1"
      by (rule less_mult_imp_div_less)
    then show ?thesis
      by simp
  qed
  ultimately show ?thesis
    by blast
qed (use assms(1) in \<open>auto simp: blocks_for_bytes_def\<close>)

theorem blocks_for_bytes_least_witness:
  "\<exists>k. blocks_for_bytes 5000 4096 = Inr k \<and> 5000 \<le> k * 4096 \<and> (\<forall>j. 5000 \<le> j * 4096 \<longrightarrow> k \<le> j)"
  by (rule blocks_for_bytes_least) (simp_all add: u64_limit_def)

end
