(* ===== verification/Batch_Collapse.thy ===== *)
theory Batch_Collapse
  imports Leaf_Edit
begin

text \<open>
  Collapsing a batch of writes (\<^verbatim>\<open>local/metadata_tree.rs\<close>): overlapping writes of one batch
  are resolved by request order into a sorted list of disjoint writes before anything is stored.
  The specification is \<open>last_write\<close>, the value the last write covering a position gives it.
\<close>

section \<open>The program\<close>

record file_batch_write =
  fw_offset :: nat
  fw_bytes :: "byte list"

definition file_byte_range :: "file_batch_write \<Rightarrow> byte_range result" where
  "file_byte_range w =
    andThen (u64_of_len (fw_bytes w)) (\<lambda>len.
    let r = mk_bytes (fw_offset w) len in andThen (byte_end r) (\<lambda>_. Inr r))"

record collapsed_file_write =
  cf_offset :: nat
  cf_bytes :: "byte list"

record collapsed_block_write =
  cb_offset :: nat
  cb_bytes :: "byte list"
  cb_integrity :: payload_integrity

definition cf_end :: "collapsed_file_write \<Rightarrow> nat result" where
  "cf_end w = andThen (u64_of_len (cf_bytes w)) (\<lambda>len. ok_or (checked_add_u64 (cf_offset w) len) invalid_argument)"

definition cb_byte_range :: "collapsed_block_write \<Rightarrow> byte_range result" where
  "cb_byte_range w = andThen (u64_of_len (cb_bytes w)) (\<lambda>len. Inr (mk_bytes (cb_offset w) len))"

definition cb_end :: "collapsed_block_write \<Rightarrow> nat result" where
  "cb_end w = andThen (u64_of_len (cb_bytes w)) (\<lambda>len. ok_or (checked_add_u64 (cb_offset w) len) invalid_argument)"

definition carve_file_write :: "nat \<Rightarrow> nat \<Rightarrow> collapsed_file_write \<Rightarrow> collapsed_file_write list result" where
  "carve_file_write offset stop existing =
    andThen (cf_end existing) (\<lambda>existing_end.
    let existing_start = cf_offset existing in
    if existing_end \<le> offset \<or> stop \<le> existing_start then Inr [existing]
    else Inr (
      (if existing_start < offset
       then [\<lparr>cf_offset = existing_start, cf_bytes = take (offset - existing_start) (cf_bytes existing)\<rparr>]
       else []) @
      (if stop < existing_end
       then [\<lparr>cf_offset = stop, cf_bytes = drop (stop - existing_start) (cf_bytes existing)\<rparr>]
       else [])))"

definition insert_collapsed_file_write ::
  "collapsed_file_write list \<Rightarrow> nat \<Rightarrow> byte list \<Rightarrow> collapsed_file_write list result" where
  "insert_collapsed_file_write collapsed offset bytes =
    andThen (u64_of_len bytes) (\<lambda>len.
    andThen (ok_or (checked_add_u64 offset len) invalid_argument) (\<lambda>stop.
    andThen (mapR (carve_file_write offset stop) collapsed) (\<lambda>pieces.
    Inr (sort_key cf_offset (concat pieces @ [\<lparr>cf_offset = offset, cf_bytes = bytes\<rparr>])))))"

record file_collapse_state =
  fcs_collapsed :: "collapsed_file_write list"
  fcs_running_size :: nat
  fcs_total_bytes :: nat
  fcs_first_offset :: "nat option"

definition collapse_file_step ::
  "nat \<Rightarrow> file_collapse_state \<Rightarrow> file_batch_write \<Rightarrow> file_collapse_state result" where
  "collapse_file_step max_batch_bytes st w =
    andThen (file_byte_range w) (\<lambda>r.
    let st1 = st\<lparr>fcs_first_offset := (case fcs_first_offset st of None \<Rightarrow> Some (byte_offset r) | Some f \<Rightarrow> Some f)\<rparr> in
    andThen (byte_end r) (\<lambda>stop.
    andThen (ensure (\<not> fcs_running_size st1 < byte_offset r) invalid_argument) (\<lambda>_.
    let st2 = st1\<lparr>fcs_running_size := max (fcs_running_size st1) stop\<rparr> in
    if fw_bytes w = [] then Inr st2
    else
      andThen (u64_of_len (fw_bytes w)) (\<lambda>len.
      andThen (ok_or (checked_add_u64 (fcs_total_bytes st2) len) invalid_argument) (\<lambda>total.
      andThen (ensure (\<not> max_batch_bytes < total) invalid_argument) (\<lambda>_.
      andThen (insert_collapsed_file_write (fcs_collapsed st2) (fw_offset w) (fw_bytes w)) (\<lambda>collapsed.
      Inr (st2\<lparr>fcs_collapsed := collapsed, fcs_total_bytes := total\<rparr>))))))))"

definition collapse_native_file_batch_writes ::
  "file_batch_write list \<Rightarrow> nat \<Rightarrow> nat \<Rightarrow> (collapsed_file_write list \<times> byte_range \<times> nat) result" where
  "collapse_native_file_batch_writes ws base_size max_batch_bytes =
    andThen (ensure (ws \<noteq> []) invalid_argument) (\<lambda>_.
    andThen (foldR (collapse_file_step max_batch_bytes)
      \<lparr>fcs_collapsed = [], fcs_running_size = base_size, fcs_total_bytes = 0, fcs_first_offset = None\<rparr> ws) (\<lambda>st.
    if fcs_collapsed st = [] then
      Inr (fcs_collapsed st,
        mk_bytes (case fcs_first_offset st of None \<Rightarrow> base_size | Some f \<Rightarrow> f) 0, base_size)
    else
      let start = cf_offset (hd (fcs_collapsed st)) in
      andThen (cf_end (last (fcs_collapsed st))) (\<lambda>stop.
      Inr (fcs_collapsed st, mk_bytes start (stop - start), fcs_running_size st))))"

definition carve_block_write :: "nat \<Rightarrow> nat \<Rightarrow> collapsed_block_write \<Rightarrow> collapsed_block_write list result" where
  "carve_block_write offset stop existing =
    andThen (cb_end existing) (\<lambda>existing_end.
    let existing_start = cb_offset existing in
    if existing_end \<le> offset \<or> stop \<le> existing_start then Inr [existing]
    else Inr (
      (if existing_start < offset
       then [\<lparr>cb_offset = existing_start, cb_bytes = take (offset - existing_start) (cb_bytes existing),
              cb_integrity = cb_integrity existing\<rparr>]
       else []) @
      (if stop < existing_end
       then [\<lparr>cb_offset = stop, cb_bytes = drop (stop - existing_start) (cb_bytes existing),
              cb_integrity = cb_integrity existing\<rparr>]
       else [])))"

definition coalesce_block_step ::
  "collapsed_block_write list \<Rightarrow> collapsed_block_write \<Rightarrow> collapsed_block_write list result" where
  "coalesce_block_step coalesced w =
    (if coalesced = [] then Inr (coalesced @ [w])
     else
       let previous = last coalesced in
       if cb_integrity previous = cb_integrity w then
         andThen (cb_end previous) (\<lambda>stop.
         if stop = cb_offset w then Inr (butlast coalesced @ [previous\<lparr>cb_bytes := cb_bytes previous @ cb_bytes w\<rparr>])
         else Inr (coalesced @ [w]))
       else Inr (coalesced @ [w]))"

definition coalesce_adjacent_block_writes :: "collapsed_block_write list \<Rightarrow> collapsed_block_write list result" where
  "coalesce_adjacent_block_writes ws = foldR coalesce_block_step [] ws"

definition insert_collapsed_block_write ::
  "collapsed_block_write list \<Rightarrow> nat \<Rightarrow> byte list \<Rightarrow> payload_integrity \<Rightarrow> collapsed_block_write list result" where
  "insert_collapsed_block_write collapsed offset bytes integrity =
    andThen (u64_of_len bytes) (\<lambda>len.
    andThen (ok_or (checked_add_u64 offset len) invalid_argument) (\<lambda>stop.
    andThen (mapR (carve_block_write offset stop) collapsed) (\<lambda>pieces.
    coalesce_adjacent_block_writes (sort_key cb_offset
      (concat pieces @ [\<lparr>cb_offset = offset, cb_bytes = bytes, cb_integrity = integrity\<rparr>])))))"

definition collapse_block_step ::
  "device_spec \<Rightarrow> nat \<Rightarrow> collapsed_block_write list \<times> nat \<Rightarrow> block_batch_write
    \<Rightarrow> (collapsed_block_write list \<times> nat) result" where
  "collapse_block_step spec max_batch_bytes st w =
    (case st of (collapsed, total_bytes) \<Rightarrow>
      andThen (validate_batch_write w spec) (\<lambda>_.
      andThen (u64_of_len (bw_bytes w)) (\<lambda>len.
      andThen (ok_or (checked_add_u64 total_bytes len) invalid_argument) (\<lambda>total.
      andThen (ensure (\<not> max_batch_bytes < total) invalid_argument) (\<lambda>_.
      andThen (insert_collapsed_block_write collapsed (bw_offset w) (bw_bytes w) (bw_integrity w)) (\<lambda>collapsed'.
      Inr (collapsed', total)))))))"

definition collapse_block_batch_writes ::
  "block_batch_write list \<Rightarrow> device_spec \<Rightarrow> nat \<Rightarrow> collapsed_block_write list result" where
  "collapse_block_batch_writes ws spec max_batch_bytes =
    andThen (ensure (ws \<noteq> []) invalid_argument) (\<lambda>_.
    andThen (foldR (collapse_block_step spec max_batch_bytes) ([], 0) ws) (\<lambda>st.
    andThen (ensure (fst st \<noteq> []) invalid_argument) (\<lambda>_.
    Inr (fst st))))"

record native_batch_segment_group =
  ng_start :: nat
  ng_end :: nat
  ng_first_write :: nat
  ng_last_write :: nat

definition native_group_step ::
  "nat \<Rightarrow> native_batch_segment_group list \<Rightarrow> nat \<times> collapsed_file_write
    \<Rightarrow> native_batch_segment_group list result" where
  "native_group_step bs groups iw =
    (case iw of (index, w) \<Rightarrow>
      andThen (cf_end w) (\<lambda>write_end.
      andThen (ensure (bs \<noteq> 0) Panic) (\<lambda>_.
      andThen (ok_or (checked_mul_u64 (cf_offset w div bs) bs) invalid_argument) (\<lambda>group_start.
      andThen (blocks_for_bytes (write_end - group_start) bs) (\<lambda>group_blocks.
      andThen (ok_or (checked_mul_u64 group_blocks bs) invalid_argument) (\<lambda>group_len.
      andThen (ok_or (checked_add_u64 group_start group_len) invalid_argument) (\<lambda>group_end.
      if groups \<noteq> [] \<and> group_start \<le> ng_end (last groups)
      then Inr (butlast groups @
        [(last groups)\<lparr>ng_end := max (ng_end (last groups)) group_end, ng_last_write := index + 1\<rparr>])
      else Inr (groups @
        [\<lparr>ng_start = group_start, ng_end = group_end, ng_first_write = index, ng_last_write = index + 1\<rparr>]))))))))"

definition native_batch_segment_groups ::
  "collapsed_file_write list \<Rightarrow> nat \<Rightarrow> native_batch_segment_group list result" where
  "native_batch_segment_groups ws bs =
    foldR (native_group_step bs) [] (zip [0..<length ws] ws)"

fun cover_scan :: "collapsed_file_write list \<Rightarrow> nat \<Rightarrow> nat \<Rightarrow> bool result" where
  "cover_scan [] covered_through target_end = Inr False"
| "cover_scan (w # ws) covered_through target_end =
    andThen (cf_end w) (\<lambda>write_end.
    if write_end \<le> covered_through then cover_scan ws covered_through target_end
    else if covered_through < cf_offset w then Inr False
    else if target_end \<le> write_end then Inr True
    else cover_scan ws write_end target_end)"

definition native_batch_writes_cover_range :: "collapsed_file_write list \<Rightarrow> byte_range \<Rightarrow> bool result" where
  "native_batch_writes_cover_range ws r =
    (if byte_len r = 0 then Inr True
     else andThen (byte_end r) (\<lambda>target_end. cover_scan ws (byte_offset r) target_end))"

definition overlay_one :: "nat \<Rightarrow> byte list \<Rightarrow> collapsed_file_write \<Rightarrow> byte list result" where
  "overlay_one group_start bytes w =
    andThen (ok_or (checked_sub (cf_offset w) group_start) Panic) (\<lambda>start.
    let stop = start + length (cf_bytes w) in
    andThen (ensure (stop < u64_limit) invalid_argument) (\<lambda>_.
    andThen (ensure (stop \<le> length bytes) corrupt) (\<lambda>_.
    Inr (take start bytes @ cf_bytes w @ drop stop bytes))))"

definition overlay_native_batch_writes ::
  "nat \<Rightarrow> collapsed_file_write list \<Rightarrow> byte list \<Rightarrow> byte list result" where
  "overlay_native_batch_writes group_start ws bytes = foldR (overlay_one group_start) bytes ws"

section \<open>Disjoint writes as maps\<close>

abbreviation cf_stop :: "collapsed_file_write \<Rightarrow> nat" where
  "cf_stop w \<equiv> cf_offset w + length (cf_bytes w)"

abbreviation cb_stop :: "collapsed_block_write \<Rightarrow> nat" where
  "cb_stop w \<equiv> cb_offset w + length (cb_bytes w)"

definition cf_value :: "collapsed_file_write \<Rightarrow> nat \<Rightarrow> byte" where
  "cf_value w p = cf_bytes w ! (p - cf_offset w)"

definition cb_value :: "collapsed_block_write \<Rightarrow> nat \<Rightarrow> byte \<times> payload_integrity" where
  "cb_value w p = (cb_bytes w ! (p - cb_offset w), cb_integrity w)"

definition cf_at :: "collapsed_file_write list \<Rightarrow> nat \<Rightarrow> byte option" where
  "cf_at ws p = extent_at cf_offset cf_stop cf_value ws p"

definition cb_at :: "collapsed_block_write list \<Rightarrow> nat \<Rightarrow> (byte \<times> payload_integrity) option" where
  "cb_at ws p = extent_at cb_offset cb_stop cb_value ws p"

abbreviation "cf_sorted \<equiv> extents_sorted cf_offset cf_stop"
abbreviation "cb_sorted \<equiv> extents_sorted cb_offset cb_stop"

lemma cf_end_Inr [simp, result_rules]: "cf_end w = Inr e \<longleftrightarrow> e = cf_stop w \<and> cf_stop w < u64_limit"
  by (auto simp: cf_end_def)

lemma cb_end_Inr [simp, result_rules]: "cb_end w = Inr e \<longleftrightarrow> e = cb_stop w \<and> cb_stop w < u64_limit"
  by (auto simp: cb_end_def)

interpretation file_cut: extent_carving cf_offset cf_stop cf_value carve_file_write "\<lambda>_. True"
proof unfold_locales
  fix a b x ys
  assume a: "carve_file_write a b x = Inr ys" "a < b" "cf_offset x < cf_stop x"
  note c = a(1) [unfolded carve_file_write_def, simplified Let_def andThen_Inr_iff cf_end_Inr]
  show "cf_offset x \<le> cf_offset y \<and> cf_offset y < cf_stop y \<and> cf_stop y \<le> cf_stop x
      \<and> (cf_stop y \<le> a \<or> b \<le> cf_offset y) \<and> True
      \<and> (\<forall>p. cf_offset y \<le> p \<and> p < cf_stop y \<longrightarrow> cf_value y p = cf_value x p)" if "y \<in> set ys" for y
    using c a(2,3) that by (auto simp: cf_value_def split: if_splits)
  show "sorted_wrt (\<lambda>x y. cf_stop x \<le> cf_offset y) ys"
    using c a(2) by (auto split: if_splits)
  show "\<exists>y\<in>set ys. cf_offset y \<le> p \<and> p < cf_stop y" if "cf_offset x \<le> p" "p < cf_stop x" "p < a \<or> b \<le> p" for p
    using c a(2) that by (auto split: if_splits)
qed

interpretation block_cut: extent_carving cb_offset cb_stop cb_value carve_block_write "\<lambda>_. True"
proof unfold_locales
  fix a b x ys
  assume a: "carve_block_write a b x = Inr ys" "a < b" "cb_offset x < cb_stop x"
  note c = a(1) [unfolded carve_block_write_def, simplified Let_def andThen_Inr_iff cb_end_Inr]
  show "cb_offset x \<le> cb_offset y \<and> cb_offset y < cb_stop y \<and> cb_stop y \<le> cb_stop x
      \<and> (cb_stop y \<le> a \<or> b \<le> cb_offset y) \<and> True
      \<and> (\<forall>p. cb_offset y \<le> p \<and> p < cb_stop y \<longrightarrow> cb_value y p = cb_value x p)" if "y \<in> set ys" for y
    using c a(2,3) that by (auto simp: cb_value_def split: if_splits)
  show "sorted_wrt (\<lambda>x y. cb_stop x \<le> cb_offset y) ys"
    using c a(2) by (auto split: if_splits)
  show "\<exists>y\<in>set ys. cb_offset y \<le> p \<and> p < cb_stop y" if "cb_offset x \<le> p" "p < cb_stop x" "p < a \<or> b \<le> p" for p
    using c a(2) that by (auto split: if_splits)
qed

lemma coalesce_block_step_Inr:
  "coalesce_block_step out w = Inr out' \<Longrightarrow>
    out' = out @ [w] \<or>
    (\<exists>ys y. out = ys @ [y] \<and> out' = ys @ [y\<lparr>cb_bytes := cb_bytes y @ cb_bytes w\<rparr>]
      \<and> cb_integrity y = cb_integrity w \<and> cb_stop y = cb_offset w)"
  by (cases out rule: rev_cases) (auto simp: coalesce_block_step_def Let_def split: if_splits)

interpretation block_join: extent_coalescing cb_offset cb_stop cb_value coalesce_block_step "\<lambda>_. True"
proof unfold_locales
  fix out x out'
  assume "coalesce_block_step out x = Inr out'"
  from coalesce_block_step_Inr [OF this]
  show "out' = out @ [x] \<or> (\<exists>ys y z. out = ys @ [y] \<and> out' = ys @ [z]
      \<and> cb_offset z = cb_offset y \<and> cb_stop y = cb_offset x \<and> cb_stop z = cb_stop x \<and> True
      \<and> (\<forall>p. cb_offset y \<le> p \<and> p < cb_stop y \<longrightarrow> cb_value z p = cb_value y p)
      \<and> (\<forall>p. cb_offset x \<le> p \<and> p < cb_stop x \<longrightarrow> cb_value z p = cb_value x p))"
    by (fastforce simp: cb_value_def nth_append)
qed

lemma insert_file_correct:
  assumes "insert_collapsed_file_write ws off bytes = Inr out" "cf_sorted ws" "bytes \<noteq> []"
  shows "cf_sorted out \<and> (\<forall>p. cf_at out p =
    (if off \<le> p \<and> p < off + length bytes then Some (bytes ! (p - off)) else cf_at ws p))"
proof -
  let ?new = "[\<lparr>cf_offset = off, cf_bytes = bytes\<rparr>]"
  obtain pieces where m: "mapR (carve_file_write off (off + length bytes)) ws = Inr pieces"
    and out: "out = sort_key cf_offset (concat pieces @ ?new)"
    using assms(1) by (auto simp: insert_collapsed_file_write_def)
  have lt: "off < off + length bytes"
    using assms(3) by simp
  have new: "cf_sorted ?new" "\<forall>y\<in>set ?new. off \<le> cf_offset y \<and> cf_stop y \<le> off + length bytes"
    using assms(3) by (auto simp: extents_sorted_def)
  have "cf_sorted out"
    using file_cut.replace_ordered [OF m lt assms(2) _ new] by (simp add: out)
  moreover have "cf_at out p = (if off \<le> p \<and> p < off + length bytes then cf_at ?new p else cf_at ws p)" for p
    using file_cut.replace_at [OF m lt assms(2) _ new, of p] by (simp add: out cf_at_def)
  ultimately show ?thesis
    by (auto simp: cf_at_def extent_at_def cf_value_def)
qed

lemma insert_block_correct:
  assumes "insert_collapsed_block_write ws off bytes i = Inr out" "cb_sorted ws" "bytes \<noteq> []"
  shows "cb_sorted out \<and> (\<forall>p. cb_at out p =
    (if off \<le> p \<and> p < off + length bytes then Some (bytes ! (p - off), i) else cb_at ws p))"
proof -
  let ?new = "[\<lparr>cb_offset = off, cb_bytes = bytes, cb_integrity = i\<rparr>]"
  obtain pieces where m: "mapR (carve_block_write off (off + length bytes)) ws = Inr pieces"
    and out: "foldR coalesce_block_step [] (sort_key cb_offset (concat pieces @ ?new)) = Inr out"
    using assms(1) by (auto simp: insert_collapsed_block_write_def coalesce_adjacent_block_writes_def)
  have lt: "off < off + length bytes"
    using assms(3) by simp
  have new: "cb_sorted ?new" "\<forall>y\<in>set ?new. off \<le> cb_offset y \<and> cb_stop y \<le> off + length bytes"
    using assms(3) by (auto simp: extents_sorted_def)
  have s: "cb_sorted (sort_key cb_offset (concat pieces @ ?new))"
    using block_cut.replace_ordered [OF m lt assms(2) _ new] by simp
  moreover have "cb_at (sort_key cb_offset (concat pieces @ ?new)) p =
      (if off \<le> p \<and> p < off + length bytes then cb_at ?new p else cb_at ws p)" for p
    using block_cut.replace_at [OF m lt assms(2) _ new, of p] by (simp add: cb_at_def)
  ultimately show ?thesis
    using block_join.coalesce_keeps [OF out] by (auto simp: cb_at_def extent_at_def cb_value_def)
qed

section \<open>The last write wins\<close>

definition last_write :: "('w \<Rightarrow> nat) \<Rightarrow> ('w \<Rightarrow> byte list) \<Rightarrow> 'w list \<Rightarrow> nat \<Rightarrow> 'w option" where
  "last_write off bytes ws p = find (\<lambda>w. off w \<le> p \<and> p < off w + length (bytes w)) (rev ws)"

lemma find_append: "find P (xs @ ys) = (case find P xs of None \<Rightarrow> find P ys | Some x \<Rightarrow> Some x)"
  by (induction xs) auto

lemma last_write_Nil [simp]: "last_write off bytes [] p = None"
  by (simp add: last_write_def)

lemma last_write_Cons:
  "last_write off bytes (w # ws) p =
    (case last_write off bytes ws p of
      None \<Rightarrow> if off w \<le> p \<and> p < off w + length (bytes w) then Some w else None
    | Some v \<Rightarrow> Some v)"
  by (simp add: last_write_def find_append split: option.splits)

definition cb_aligned :: "nat \<Rightarrow> collapsed_block_write \<Rightarrow> bool" where
  "cb_aligned bs w \<longleftrightarrow> bs dvd cb_offset w \<and> bs dvd length (cb_bytes w)"

lemma carve_block_aligned:
  assumes "carve_block_write a b x = Inr ys" "cb_aligned bs x" "bs dvd a" "bs dvd b" "y \<in> set ys"
  shows "cb_aligned bs y"
  using assms by (auto simp: carve_block_write_def cb_aligned_def Let_def min_def dvd_diff_nat split: if_splits)

lemma coalesce_block_aligned:
  assumes "foldR coalesce_block_step out ws = Inr res" "\<forall>w\<in>set out. cb_aligned bs w" "\<forall>w\<in>set ws. cb_aligned bs w"
  shows "\<forall>w\<in>set res. cb_aligned bs w"
proof (rule foldR_invariant [OF assms(1), where P = "\<lambda>out. \<forall>w\<in>set out. cb_aligned bs w", OF assms(2)])
  fix s x t
  assume "\<forall>w\<in>set s. cb_aligned bs w" "x \<in> set ws" "coalesce_block_step s x = Inr t"
  with coalesce_block_step_Inr [OF this(3)] assms(3) show "\<forall>w\<in>set t. cb_aligned bs w"
    by (auto simp: cb_aligned_def)
qed

lemma insert_block_aligned:
  assumes "insert_collapsed_block_write ws off bytes i = Inr out" "\<forall>w\<in>set ws. cb_aligned bs w"
    and "bs dvd off" "bs dvd length bytes"
  shows "\<forall>w\<in>set out. cb_aligned bs w"
proof -
  obtain pieces where m: "mapR (carve_block_write off (off + length bytes)) ws = Inr pieces"
    and out: "foldR coalesce_block_step [] (sort_key cb_offset
      (concat pieces @ [\<lparr>cb_offset = off, cb_bytes = bytes, cb_integrity = i\<rparr>])) = Inr out"
    using assms(1) by (auto simp: insert_collapsed_block_write_def coalesce_adjacent_block_writes_def)
  have "\<forall>ps\<in>set pieces. \<forall>y\<in>set ps. cb_aligned bs y"
    using m assms(2-4) carve_block_aligned [of off "off + length bytes" _ _ bs]
    by (auto simp: mapR_Inr_iff list_all2_conv_all_nth in_set_conv_nth) (metis nth_mem)
  then show ?thesis
    using coalesce_block_aligned [OF out, of bs] assms(3,4) by (auto simp: cb_aligned_def)
qed

lemma collapse_block_fold:
  assumes "foldR (collapse_block_step spec m) (c, t) ws = Inr (c', t')" "cb_sorted c"
    and "\<forall>w\<in>set c. cb_aligned (block_size spec) w"
  shows "cb_sorted c' \<and> (\<forall>w\<in>set c'. cb_aligned (block_size spec) w) \<and> t' = t + (\<Sum>w\<leftarrow>ws. length (bw_bytes w))
    \<and> (ws = [] \<or> t' \<le> m)
    \<and> (\<forall>p. cb_at c' p =
        (case last_write bw_offset bw_bytes ws p of None \<Rightarrow> cb_at c p
          | Some w \<Rightarrow> Some (bw_bytes w ! (p - bw_offset w), bw_integrity w)))"
  using assms
proof (induction ws arbitrary: c t)
  case (Cons w ws)
  from Cons.prems(1) obtain st1 where st1: "collapse_block_step spec m (c, t) w = Inr st1"
    "foldR (collapse_block_step spec m) st1 ws = Inr (c', t')"
    by auto
  from st1(1) obtain c1 where
    v: "validate_batch_write w spec = Inr ()" and i: "insert_collapsed_block_write c (bw_offset w) (bw_bytes w) (bw_integrity w) = Inr c1"
    and le: "t + length (bw_bytes w) \<le> m"
    and eq: "st1 = (c1, t + length (bw_bytes w))"
    by (auto simp: collapse_block_step_def)
  note rest = st1(2) [unfolded eq]
  have w: "bw_bytes w \<noteq> []" "block_size spec dvd bw_offset w" "block_size spec dvd length (bw_bytes w)"
    using v by (auto simp: validate_batch_write_def batch_byte_range_def)
  note c1 = insert_block_correct [OF i Cons.prems(2) w(1)] insert_block_aligned [OF i Cons.prems(3) w(2,3)]
  show ?case
    using Cons.IH [OF rest] c1 le by (auto simp: last_write_Cons split: option.splits)
qed auto

definition file_batch_inv :: "nat \<Rightarrow> file_collapse_state \<Rightarrow> bool" where
  "file_batch_inv base st \<longleftrightarrow> cf_sorted (fcs_collapsed st) \<and> base \<le> fcs_running_size st
    \<and> (\<forall>p. base \<le> p \<and> p < fcs_running_size st \<longrightarrow> cf_at (fcs_collapsed st) p \<noteq> None)
    \<and> (\<forall>p. cf_at (fcs_collapsed st) p \<noteq> None \<longrightarrow> p < fcs_running_size st)"

lemma collapse_file_step_correct:
  assumes "collapse_file_step m st w = Inr st'" "file_batch_inv base st"
  shows "file_batch_inv base st' \<and> (\<forall>p. cf_at (fcs_collapsed st') p =
    (if fw_offset w \<le> p \<and> p < fw_offset w + length (fw_bytes w) then Some (fw_bytes w ! (p - fw_offset w))
     else cf_at (fcs_collapsed st) p))
    \<and> fcs_running_size st' = max (fcs_running_size st) (fw_offset w + length (fw_bytes w))"
proof (cases "fw_bytes w = []")
  case True
  then show ?thesis
    using assms by (auto simp: collapse_file_step_def file_byte_range_def Let_def file_batch_inv_def)
next
  case False
  with assms(1) obtain c where
    i: "insert_collapsed_file_write (fcs_collapsed st) (fw_offset w) (fw_bytes w) = Inr c"
    and le: "fw_offset w \<le> fcs_running_size st"
    and st': "fcs_collapsed st' = c" "fcs_running_size st' = max (fcs_running_size st) (fw_offset w + length (fw_bytes w))"
    by (auto simp: collapse_file_step_def file_byte_range_def Let_def)
  have "cf_sorted (fcs_collapsed st)"
    using assms(2) by (simp add: file_batch_inv_def)
  from insert_file_correct [OF i this False] show ?thesis
    using assms(2) le st' by (auto simp: file_batch_inv_def)
qed

lemma collapse_file_fold:
  assumes "foldR (collapse_file_step m) st ws = Inr st'" "file_batch_inv base st"
  shows "file_batch_inv base st' \<and> (\<forall>p. cf_at (fcs_collapsed st') p =
      (case last_write fw_offset fw_bytes ws p of None \<Rightarrow> cf_at (fcs_collapsed st) p
        | Some w \<Rightarrow> Some (fw_bytes w ! (p - fw_offset w))))
    \<and> fcs_running_size st' = foldl max (fcs_running_size st) (map (\<lambda>w. fw_offset w + length (fw_bytes w)) ws)"
  using assms
proof (induction ws arbitrary: st)
  case (Cons w ws)
  then obtain st1 where s: "collapse_file_step m st w = Inr st1" "foldR (collapse_file_step m) st1 ws = Inr st'"
    by auto
  from collapse_file_step_correct [OF s(1) Cons.prems(2)] Cons.IH [OF s(2)] show ?case
    by (auto simp: last_write_Cons split: option.splits)
qed auto

section \<open>Coverage and overlay\<close>

lemma cf_at_None_iff: "cf_at ws p = None \<longleftrightarrow> (\<forall>w\<in>set ws. \<not> (cf_offset w \<le> p \<and> p < cf_stop w))"
  by (simp add: cf_at_def file_cut.at_None_iff)

lemma cf_at_Cons:
  "cf_at (w # ws) p = (if cf_offset w \<le> p \<and> p < cf_stop w then Some (cf_value w p) else cf_at ws p)"
  by (simp add: cf_at_def extent_at_def)

lemma cover_scan_correct:
  assumes "cover_scan ws c t = Inr b" "cf_sorted ws" "c < t"
  shows "b \<longleftrightarrow> (\<forall>p. c \<le> p \<and> p < t \<longrightarrow> cf_at ws p \<noteq> None)"
  using assms
proof (induction ws arbitrary: c)
  case Nil
  then show ?case
    by (auto simp: cf_at_None_iff)
next
  case (Cons w ws)
  have tail: "cf_sorted ws" "\<forall>v\<in>set ws. cf_stop w \<le> cf_offset v" "cf_offset w < cf_stop w"
    using Cons.prems(2) by (auto simp: file_cut.ordered_Cons)
  consider "cf_stop w \<le> c" | "c < cf_offset w" | "cf_offset w \<le> c" "t \<le> cf_stop w"
    | "cf_offset w \<le> c" "c < cf_stop w" "cf_stop w < t"
    by linarith
  then show ?case
  proof cases
    case 1
    then have "cover_scan ws c t = Inr b"
      using Cons.prems(1) by auto
    from Cons.IH [OF this tail(1) Cons.prems(3)] 1 show ?thesis
      by (auto simp: cf_at_Cons)
  next
    case 2
    then have "\<not> b"
      using Cons.prems(1) tail(3) by auto
    moreover have "cf_at (w # ws) c = None"
      using 2 tail by (fastforce simp: cf_at_None_iff)
    ultimately show ?thesis
      using Cons.prems(3) by auto
  next
    case 3
    then have "b"
      using Cons.prems(1,3) by auto
    with 3 show ?thesis
      by (auto simp: cf_at_Cons)
  next
    case 4
    then have "cover_scan ws (cf_stop w) t = Inr b"
      using Cons.prems(1) by auto
    from Cons.IH [OF this tail(1) 4(3)] 4 show ?thesis
      by (auto simp: cf_at_Cons)
  qed
qed

lemma overlay_one_correct:
  assumes "overlay_one gs bytes w = Inr out"
  shows "length out = length bytes \<and> gs \<le> cf_offset w \<and> cf_stop w \<le> gs + length bytes
    \<and> (\<forall>i<length bytes. out ! i =
        (if cf_offset w \<le> gs + i \<and> gs + i < cf_stop w then cf_value w (gs + i) else bytes ! i))"
proof -
  from assms obtain k where k: "cf_offset w = gs + k"
    by (auto simp: overlay_one_def dest: le_Suc_ex)
  with assms have out: "k + length (cf_bytes w) \<le> length bytes"
    "out = take k bytes @ cf_bytes w @ drop (k + length (cf_bytes w)) bytes"
    by (auto simp: overlay_one_def Let_def)
  have "out ! i = (if k \<le> i \<and> i < k + length (cf_bytes w) then cf_bytes w ! (i - k) else bytes ! i)"
    if "i < length bytes" for i
    using that out by (auto simp: nth_append)
  with k out show ?thesis
    by (auto simp: cf_value_def)
qed

lemma overlay_correct:
  assumes "overlay_native_batch_writes gs ws bytes = Inr out" "cf_sorted ws"
  shows "length out = length bytes \<and> (\<forall>w\<in>set ws. gs \<le> cf_offset w \<and> cf_stop w \<le> gs + length bytes)
    \<and> (\<forall>i<length bytes. out ! i = (case cf_at ws (gs + i) of None \<Rightarrow> bytes ! i | Some v \<Rightarrow> v))"
  using assms unfolding overlay_native_batch_writes_def
proof (induction ws arbitrary: bytes)
  case (Cons w ws)
  then obtain mid where s: "overlay_one gs bytes w = Inr mid" "foldR (overlay_one gs) mid ws = Inr out"
    by auto
  have tail: "cf_sorted ws" "\<forall>v\<in>set ws. cf_stop w \<le> cf_offset v"
    using Cons.prems(2) by (auto simp: file_cut.ordered_Cons)
  have "cf_at ws p = None" if "p < cf_stop w" for p
    using that tail(2) by (fastforce simp: cf_at_None_iff)
  then show ?case
    using overlay_one_correct [OF s(1)] Cons.IH [OF s(2) tail(1)]
    by (auto simp: cf_at_Cons split: option.splits)
qed (simp add: cf_at_def extent_at_def)

section \<open>Properties\<close>

text \<open>
  C13: collapsing the writes of an atomic block batch gives block-aligned, sorted, disjoint writes
  whose total input stayed within the batch limit, and at every byte position they hold the byte and
  the integrity mode of the last write of the batch that covers it, and nothing where no write does.
\<close>

theorem collapse_block_batch_last_writer_wins:
  assumes "collapse_block_batch_writes ws spec max_batch_bytes = Inr out"
  shows "cb_sorted out \<and> (\<forall>w\<in>set out. cb_aligned (block_size spec) w)
    \<and> (\<Sum>w\<leftarrow>ws. length (bw_bytes w)) \<le> max_batch_bytes
    \<and> (\<forall>p. cb_at out p = map_option (\<lambda>w. (bw_bytes w ! (p - bw_offset w), bw_integrity w))
        (last_write bw_offset bw_bytes ws p))"
proof -
  obtain t where f: "foldR (collapse_block_step spec max_batch_bytes) ([], 0) ws = Inr (out, t)" and "ws \<noteq> []"
    using assms by (auto simp: collapse_block_batch_writes_def)
  have "cb_at [] p = None" for p
    by (simp add: cb_at_def extent_at_def)
  with collapse_block_fold [OF f] \<open>ws \<noteq> []\<close> show ?thesis
    by (auto simp: extents_sorted_def split: option.splits)
qed

text \<open>Rules that run the batch functions on concrete writes.\<close>

lemmas batch_eval = collapse_block_batch_writes_def collapse_block_step_def validate_batch_write_def
  batch_byte_range_def u64_of_len_def checked_add_u64_def insert_collapsed_block_write_def carve_block_write_def
  coalesce_adjacent_block_writes_def coalesce_block_step_def cb_end_def u64_limit_def is_power_of_two.simps
  validate_for_device_def byte_end_def is_aligned_to_def logical_bytes_def validate_spec_def checked_mul_u64_def
  collapse_native_file_batch_writes_def collapse_file_step_def file_byte_range_def insert_collapsed_file_write_def
  carve_file_write_def cf_end_def native_batch_writes_cover_range_def overlay_native_batch_writes_def
  overlay_one_def checked_sub_def mk_bytes_def

definition sample_device_spec :: device_spec where
  "sample_device_spec = \<lparr>logical_blocks = 4, block_size = 2\<rparr>"

definition sample_block_batch :: "block_batch_write list" where
  "sample_block_batch = [\<lparr>bw_offset = 0, bw_bytes = [1, 2, 3, 4], bw_integrity = Verified\<rparr>,
    \<lparr>bw_offset = 2, bw_bytes = [5, 6], bw_integrity = Unchecked\<rparr>]"

theorem collapse_block_batch_last_writer_wins_witness:
  "\<exists>out. collapse_block_batch_writes sample_block_batch sample_device_spec 16 = Inr out
    \<and> cb_sorted out \<and> (\<forall>w\<in>set out. cb_aligned (block_size sample_device_spec) w)
    \<and> (\<Sum>w\<leftarrow>sample_block_batch. length (bw_bytes w)) \<le> 16
    \<and> (\<forall>p. cb_at out p = map_option (\<lambda>w. (bw_bytes w ! (p - bw_offset w), bw_integrity w))
        (last_write bw_offset bw_bytes sample_block_batch p))"
proof -
  have "collapse_block_batch_writes sample_block_batch sample_device_spec 16 =
      Inr [\<lparr>cb_offset = 0, cb_bytes = [1, 2], cb_integrity = Verified\<rparr>,
        \<lparr>cb_offset = 2, cb_bytes = [5, 6], cb_integrity = Unchecked\<rparr>]"
    by (simp add: batch_eval sample_block_batch_def sample_device_spec_def)
  from this collapse_block_batch_last_writer_wins [OF this] show ?thesis
    by blast
qed

text \<open>
  C14: collapsing the writes of a native file batch gives sorted, disjoint writes holding at every
  position the byte of the last write that covers it; the batch leaves no hole, since every position
  from the old size to the new size is written, and the new size is the largest end of a write or the
  old size.
\<close>

theorem collapse_file_batch_last_writer_wins:
  assumes "collapse_native_file_batch_writes ws base_size max_batch_bytes = Inr (out, r, new_size)"
  shows "cf_sorted out
    \<and> (\<forall>p. cf_at out p = map_option (\<lambda>w. fw_bytes w ! (p - fw_offset w)) (last_write fw_offset fw_bytes ws p))
    \<and> (\<forall>p. base_size \<le> p \<and> p < new_size \<longrightarrow> cf_at out p \<noteq> None)
    \<and> new_size = foldl max base_size (map (\<lambda>w. fw_offset w + length (fw_bytes w)) ws)"
proof -
  let ?init = "\<lparr>fcs_collapsed = [], fcs_running_size = base_size, fcs_total_bytes = 0, fcs_first_offset = None\<rparr>"
  obtain st where f: "foldR (collapse_file_step max_batch_bytes) ?init ws = Inr st" and out: "out = fcs_collapsed st"
    and size: "new_size = (if fcs_collapsed st = [] then base_size else fcs_running_size st)"
    using assms by (auto simp: collapse_native_file_batch_writes_def Let_def split: if_splits)
  have none: "cf_at [] p = None" for p
    by (simp add: cf_at_def extent_at_def)
  then have "file_batch_inv base_size ?init"
    by (simp add: file_batch_inv_def extents_sorted_def)
  note st = collapse_file_fold [OF f this]
  have "fcs_running_size st = base_size" if "fcs_collapsed st = []"
    using st that none by (fastforce simp: file_batch_inv_def)
  then have size: "new_size = fcs_running_size st"
    using size by simp
  have "cf_at out p = map_option (\<lambda>w. fw_bytes w ! (p - fw_offset w)) (last_write fw_offset fw_bytes ws p)" for p
    using st none out by (cases "last_write fw_offset fw_bytes ws p") simp_all
  moreover have "cf_sorted out" "base_size \<le> p \<and> p < new_size \<longrightarrow> cf_at out p \<noteq> None" for p
    using st unfolding out size file_batch_inv_def by blast+
  moreover have "new_size = foldl max base_size (map (\<lambda>w. fw_offset w + length (fw_bytes w)) ws)"
    using st unfolding size by simp
  ultimately show ?thesis
    by blast
qed

definition sample_file_batch :: "file_batch_write list" where
  "sample_file_batch = [\<lparr>fw_offset = 1, fw_bytes = [1, 2, 3]\<rparr>, \<lparr>fw_offset = 3, fw_bytes = [9, 8]\<rparr>]"

theorem collapse_file_batch_last_writer_wins_witness:
  "\<exists>out r. collapse_native_file_batch_writes sample_file_batch 2 16 = Inr (out, r, 5)
    \<and> cf_sorted out
    \<and> (\<forall>p. cf_at out p = map_option (\<lambda>w. fw_bytes w ! (p - fw_offset w))
        (last_write fw_offset fw_bytes sample_file_batch p))
    \<and> (\<forall>p. 2 \<le> p \<and> p < 5 \<longrightarrow> cf_at out p \<noteq> None)
    \<and> 5 = foldl max 2 (map (\<lambda>w. fw_offset w + length (fw_bytes w)) sample_file_batch)"
proof -
  have "collapse_native_file_batch_writes sample_file_batch 2 16 =
      Inr ([\<lparr>cf_offset = 1, cf_bytes = [1, 2]\<rparr>, \<lparr>cf_offset = 3, cf_bytes = [9, 8]\<rparr>], mk_bytes 1 4, 5)"
    by (simp add: batch_eval sample_file_batch_def)
  from this collapse_file_batch_last_writer_wins [OF this] show ?thesis
    by blast
qed

text \<open>
  C15: the coverage test used to decide whether old bytes must be read back answers exactly whether
  every byte of the range is written by the batch.
\<close>

theorem native_batch_cover_test_exact:
  assumes "native_batch_writes_cover_range ws r = Inr covered" "cf_sorted ws"
  shows "covered \<longleftrightarrow> (\<forall>p. byte_offset r \<le> p \<and> p < byte_offset r + byte_len r \<longrightarrow> cf_at ws p \<noteq> None)"
  using assms cover_scan_correct [of ws "byte_offset r" "byte_offset r + byte_len r" covered]
  by (auto simp: native_batch_writes_cover_range_def split: if_splits)

theorem native_batch_cover_test_exact_witness:
  "native_batch_writes_cover_range [\<lparr>cf_offset = 1, cf_bytes = [1, 2]\<rparr>, \<lparr>cf_offset = 3, cf_bytes = [9, 8]\<rparr>] (mk_bytes 2 3) = Inr True
    \<and> cf_at [\<lparr>cf_offset = 1, cf_bytes = [1, 2]\<rparr>, \<lparr>cf_offset = 3, cf_bytes = [9, 8]\<rparr>] 4 \<noteq> None"
proof
  show c: "native_batch_writes_cover_range [\<lparr>cf_offset = 1, cf_bytes = [1, 2]\<rparr>, \<lparr>cf_offset = 3, cf_bytes = [9, 8]\<rparr>] (mk_bytes 2 3) = Inr True"
    by (simp add: batch_eval)
  have "cf_sorted [\<lparr>cf_offset = 1, cf_bytes = [1, 2]\<rparr>, \<lparr>cf_offset = 3, cf_bytes = [9, 8]\<rparr>]"
    by (simp add: extents_sorted_def)
  from native_batch_cover_test_exact [OF c this]
  show "cf_at [\<lparr>cf_offset = 1, cf_bytes = [1, 2]\<rparr>, \<lparr>cf_offset = 3, cf_bytes = [9, 8]\<rparr>] 4 \<noteq> None"
    by simp
qed

text \<open>
  C16: laying collapsed writes over the bytes read back for a segment changes exactly the written
  positions and keeps the length; a write outside the group is refused.
\<close>

theorem overlay_native_batch_exact:
  assumes "overlay_native_batch_writes group_start ws bytes = Inr out" "cf_sorted ws"
  shows "length out = length bytes
    \<and> (\<forall>w\<in>set ws. group_start \<le> cf_offset w \<and> cf_stop w \<le> group_start + length bytes)
    \<and> (\<forall>i<length bytes. out ! i = (case cf_at ws (group_start + i) of None \<Rightarrow> bytes ! i | Some v \<Rightarrow> v))"
  using assms by (rule overlay_correct)

theorem overlay_native_batch_exact_witness:
  "\<exists>out. overlay_native_batch_writes 4 [\<lparr>cf_offset = 5, cf_bytes = [1, 2]\<rparr>] [0, 0, 0, 7] = Inr out \<and> length out = 4
    \<and> (\<forall>i<4. out ! i = (case cf_at [\<lparr>cf_offset = 5, cf_bytes = [1, 2]\<rparr>] (4 + i) of None \<Rightarrow> [0, 0, 0, 7] ! i | Some v \<Rightarrow> v))"
proof -
  have "overlay_native_batch_writes 4 [\<lparr>cf_offset = 5, cf_bytes = [1, 2]\<rparr>] [0, 0, 0, 7] = Inr [0, 1, 2, 7]"
    by (simp add: batch_eval)
  with overlay_native_batch_exact [OF this] show ?thesis
    by (simp add: extents_sorted_def)
qed

end
