(* ===== verification/Config.thy ===== *)
theory Config
  imports Api
begin

text \<open>
  The provider configuration (\<^verbatim>\<open>local/config.rs\<close>) and its validation.
\<close>

record local_store_config =
  cfg_shard_count :: nat
  cfg_block_size :: nat
  cfg_file_root_blocks :: nat
  cfg_metadata_fanout :: nat
  cfg_metadata_leaf_blocks :: nat
  cfg_storage_node :: storage_node_id
  cfg_observability_event_capacity :: nat
  cfg_stream_auto_persist_bytes :: "nat option"

definition default_config :: local_store_config where
  "default_config =
    \<lparr>cfg_shard_count = 1, cfg_block_size = 4096, cfg_file_root_blocks = 1, cfg_metadata_fanout = 4,
     cfg_metadata_leaf_blocks = 1024, cfg_storage_node = 1, cfg_observability_event_capacity = 1024,
     cfg_stream_auto_persist_bytes = None\<rparr>"

definition storage_shape_matches :: "local_store_config \<Rightarrow> local_store_config \<Rightarrow> bool" where
  "storage_shape_matches c d \<longleftrightarrow>
    cfg_shard_count c = cfg_shard_count d \<and> cfg_block_size c = cfg_block_size d
    \<and> cfg_file_root_blocks c = cfg_file_root_blocks d \<and> cfg_metadata_fanout c = cfg_metadata_fanout d
    \<and> cfg_metadata_leaf_blocks c = cfg_metadata_leaf_blocks d \<and> cfg_storage_node c = cfg_storage_node d"

definition with_runtime_policy :: "local_store_config \<Rightarrow> local_store_config \<Rightarrow> local_store_config" where
  "with_runtime_policy c expected =
    c\<lparr>cfg_observability_event_capacity := cfg_observability_event_capacity expected,
      cfg_stream_auto_persist_bytes := cfg_stream_auto_persist_bytes expected\<rparr>"

definition validate_config :: "local_store_config \<Rightarrow> unit result" where
  "validate_config c =
    andThen (ensure (cfg_shard_count c \<noteq> 0) invalid_argument) (\<lambda>_.
    andThen (ensure (cfg_block_size c \<noteq> 0) invalid_argument) (\<lambda>_.
    andThen (ensure (is_power_of_two (cfg_block_size c)) invalid_argument) (\<lambda>_.
    andThen (ensure (cfg_file_root_blocks c \<noteq> 0) invalid_argument) (\<lambda>_.
    andThen (ensure (\<not> cfg_metadata_fanout c < 2) invalid_argument) (\<lambda>_.
    andThen (ensure (cfg_metadata_leaf_blocks c \<noteq> 0) invalid_argument) (\<lambda>_.
    andThen (ensure (cfg_observability_event_capacity c \<noteq> 0) invalid_argument) (\<lambda>_.
    ensure (cfg_stream_auto_persist_bytes c \<noteq> Some 0) invalid_argument)))))))"

definition for_storage_node :: "local_store_config \<Rightarrow> storage_node_id \<Rightarrow> local_store_config" where
  "for_storage_node c n = c\<lparr>cfg_storage_node := n\<rparr>"

lemma validate_config_Inr [simp, result_rules]:
  "validate_config c = Inr u \<longleftrightarrow>
    0 < cfg_shard_count c \<and> is_power_of_two (cfg_block_size c) \<and> 0 < cfg_file_root_blocks c
    \<and> 2 \<le> cfg_metadata_fanout c \<and> 0 < cfg_metadata_leaf_blocks c
    \<and> 0 < cfg_observability_event_capacity c \<and> cfg_stream_auto_persist_bytes c \<noteq> Some 0"
  by (auto simp: validate_config_def dest: is_power_of_two_pos)

text \<open>
  The storage nodes of a store: the primary first, then the others in the order given, without
  repetition (\<open>seen\<close> is the set of nodes already taken).
\<close>

fun normalize_from :: "storage_node_id set \<Rightarrow> storage_node_id list \<Rightarrow> storage_node_id list" where
  "normalize_from seen [] = []"
| "normalize_from seen (n # ns) =
    (if n \<in> seen then normalize_from seen ns else n # normalize_from (insert n seen) ns)"

definition normalize_storage_nodes :: "storage_node_id \<Rightarrow> storage_node_id list \<Rightarrow> storage_node_id list" where
  "normalize_storage_nodes primary nodes = normalize_from {} (primary # nodes)"

lemma normalize_from_set: "set (normalize_from seen ns) = set ns - seen"
  by (induction seen ns rule: normalize_from.induct) auto

lemma normalize_from_distinct: "distinct (normalize_from seen ns)"
  by (induction seen ns rule: normalize_from.induct) (auto simp: normalize_from_set)

end
