(* ===== verification/Grants.thy ===== *)
theory Grants
  imports Objects "HOL-Library.Word"
begin

unbundle bit_operations_syntax

text \<open>
  Write grants, segment receipts and reference evidence (\<^verbatim>\<open>provider.rs\<close>), and the local
  authority that issues and verifies them (\<^verbatim>\<open>local/proof.rs\<close>).

  A proof is a deterministic keyed hash of a canonical byte encoding.  The encoding is modelled as
  the sequence of \<^verbatim>\<open>CanonicalSink::append\<close> calls, the hash with its 64-bit lanes as machine
  words.  The lemmas show that the encoding of a grant determines every field of the grant.
\<close>

section \<open>Intents, grants, receipts, evidence\<close>

datatype proof_scheme = DeterministicTestMacV1 | NodeSignatureV1

type_synonym proof_tag = "byte list"
type_synonym grant_hash = "byte list"

datatype write_grant_intent =
    BlockWrite device_id block_range device_generation shard_id metadata_node_id
  | NativeWrite keyspace_id file_id byte_range file_version
  | NativeAppendStream keyspace_id file_id append_stream_id append_ticket_id nat nat writer_epoch
  | Internal_Intent mapping_owner

primrec intent_owner :: "write_grant_intent \<Rightarrow> mapping_owner" where
  "intent_owner (BlockWrite device_id _ _ _ _) = BlockDevice device_id"
| "intent_owner (NativeWrite keyspace_id _ _ _) = NativeKeyspace keyspace_id"
| "intent_owner (NativeAppendStream keyspace_id _ _ _ _ _ _) = NativeKeyspace keyspace_id"
| "intent_owner (Internal_Intent owner) = owner"

record write_grant_request =
  gq_tenant :: tenant_id
  gq_principal :: principal_id
  gq_intent :: write_grant_intent
  gq_write_intent :: write_intent_id
  gq_segment_id :: segment_id
  gq_storage_node :: storage_node_id
  gq_max_bytes :: nat
  gq_payload_integrity :: payload_integrity
  gq_durability :: write_durability
  gq_expires_at :: logical_deadline

record write_grant =
  gr_tenant :: tenant_id
  gr_principal :: principal_id
  gr_grant_id :: grant_id
  gr_nonce :: grant_nonce
  gr_grant_epoch :: grant_epoch
  gr_expires_at :: logical_deadline
  gr_owner :: mapping_owner
  gr_intent :: write_grant_intent
  gr_write_intent :: write_intent_id
  gr_segment_id :: segment_id
  gr_storage_node :: storage_node_id
  gr_max_bytes :: nat
  gr_payload_integrity :: payload_integrity
  gr_durability :: write_durability
  gr_key_id :: storage_node_key_id
  gr_proof_scheme :: proof_scheme
  gr_proof :: proof_tag

datatype segment_receipt_lifecycle = Receipt_DurablePendingMetadata

record segment_replica_placement =
  pl_segment_id :: segment_id
  pl_storage_node :: storage_node_id
  pl_offset :: nat
  pl_bytes :: nat

record segment_replica_commit =
  cm_descriptor :: segment_descriptor
  cm_placement :: segment_replica_placement

record segment_write_receipt =
  rc_tenant :: tenant_id
  rc_grant_id :: grant_id
  rc_grant_hash :: grant_hash
  rc_principal :: principal_id
  rc_owner :: mapping_owner
  rc_storage_node :: storage_node_id
  rc_storage_node_incarnation :: server_incarnation
  rc_segment_id :: segment_id
  rc_write_intent :: write_intent_id
  rc_intent :: write_grant_intent
  rc_bytes :: nat
  rc_integrity :: segment_payload_integrity
  rc_durability :: write_durability
  rc_lifecycle :: segment_receipt_lifecycle
  rc_receipt_epoch :: grant_epoch
  rc_expires_at :: logical_deadline
  rc_node_key_id :: storage_node_key_id
  rc_proof_scheme :: proof_scheme
  rc_proof :: proof_tag
  rc_descriptor :: segment_descriptor
  rc_placement :: segment_replica_placement

definition replica_commit :: "segment_write_receipt \<Rightarrow> segment_replica_commit" where
  "replica_commit rc = \<lparr>cm_descriptor = rc_descriptor rc, cm_placement = rc_placement rc\<rparr>"

record verified_segment_receipt =
  vr_receipt :: segment_write_receipt
  vr_descriptor :: segment_descriptor

record reference_evidence =
  ev_tenant :: tenant_id
  ev_principal :: principal_id
  ev_owner :: mapping_owner
  ev_grant_id :: grant_id
  ev_segment_id :: segment_id
  ev_storage_node :: storage_node_id
  ev_metadata_commit :: commit_seq
  ev_receipt_epoch :: grant_epoch
  ev_node_key_id :: storage_node_key_id
  ev_proof_scheme :: proof_scheme
  ev_proof :: proof_tag

section \<open>Canonical encoding\<close>

text \<open>Big-endian bytes of an unsigned integer of \<open>n\<close> bytes.\<close>

primrec be_bytes :: "nat \<Rightarrow> nat \<Rightarrow> byte list" where
  "be_bytes 0 v = []"
| "be_bytes (Suc n) v = be_bytes n (v div 256) @ [v mod 256]"

text \<open>Each \<open>put\<close> function gives the chunks it appends, in order.\<close>

type_synonym chunks = "byte list list"

definition put_u8 :: "nat \<Rightarrow> chunks" where "put_u8 v = [[v]]"
definition put_u64 :: "nat \<Rightarrow> chunks" where "put_u64 v = [be_bytes 8 v]"
definition put_u128 :: "nat \<Rightarrow> chunks" where "put_u128 v = [be_bytes 16 v]"
definition put_bytes :: "byte list \<Rightarrow> chunks" where "put_bytes bs = put_u64 (length bs) @ [bs]"

primrec put_mapping_owner :: "mapping_owner \<Rightarrow> chunks" where
  "put_mapping_owner (BlockDevice device_id) = put_u8 1 @ put_u128 device_id"
| "put_mapping_owner (NativeKeyspace keyspace_id) = put_u8 2 @ put_u128 keyspace_id"

primrec put_write_grant_intent :: "write_grant_intent \<Rightarrow> chunks" where
  "put_write_grant_intent (BlockWrite device_id r fence shard_id old_root) =
    put_u8 1 @ put_u128 device_id @ put_u64 (range_start r) @ put_u64 (range_blocks r)
      @ put_u64 fence @ put_u64 shard_id @ put_u128 old_root"
| "put_write_grant_intent (NativeWrite keyspace_id file_id r base_version) =
    put_u8 2 @ put_u128 keyspace_id @ put_u128 file_id @ put_u64 (byte_offset r) @ put_u64 (byte_len r)
      @ put_u64 base_version"
| "put_write_grant_intent (NativeAppendStream keyspace_id file_id stream_id ticket_id append_offset bytes writer_epoch) =
    put_u8 3 @ put_u128 keyspace_id @ put_u128 file_id @ put_u128 stream_id @ put_u128 ticket_id
      @ put_u64 append_offset @ put_u64 bytes @ put_u64 writer_epoch"
| "put_write_grant_intent (Internal_Intent owner) = put_u8 4 @ put_mapping_owner owner"

primrec put_write_durability :: "write_durability \<Rightarrow> chunks" where
  "put_write_durability Acknowledged = put_u8 1"
| "put_write_durability Flushed = put_u8 2"

primrec put_payload_integrity :: "payload_integrity \<Rightarrow> chunks" where
  "put_payload_integrity Verified = put_u8 1"
| "put_payload_integrity Unchecked = put_u8 2"

primrec put_segment_payload_integrity :: "segment_payload_integrity \<Rightarrow> chunks" where
  "put_segment_payload_integrity (Crc32c checksum) = put_u8 1 @ put_u64 checksum"
| "put_segment_payload_integrity Payload_Unchecked = put_u8 2"

primrec put_proof_scheme :: "proof_scheme \<Rightarrow> chunks" where
  "put_proof_scheme DeterministicTestMacV1 = put_u8 1"
| "put_proof_scheme NodeSignatureV1 = put_u8 2"

primrec put_segment_receipt_lifecycle :: "segment_receipt_lifecycle \<Rightarrow> chunks" where
  "put_segment_receipt_lifecycle Receipt_DurablePendingMetadata = put_u8 1"

definition put_segment_descriptor :: "segment_descriptor \<Rightarrow> chunks" where
  "put_segment_descriptor d =
    put_u128 (sd_segment_id d) @ put_u64 (sd_blocks d) @ put_u64 (sd_bytes d)
      @ put_segment_payload_integrity (sd_integrity d)"

definition put_segment_replica_placement :: "segment_replica_placement \<Rightarrow> chunks" where
  "put_segment_replica_placement p =
    put_u128 (pl_segment_id p) @ put_u128 (pl_storage_node p) @ put_u64 (pl_offset p) @ put_u64 (pl_bytes p)"

text \<open>The ASCII codes of \<^verbatim>\<open>TCOW_WRITE_GRANT_V1\<close>, \<^verbatim>\<open>TCOW_SEGMENT_RECEIPT_V1\<close> and
  \<^verbatim>\<open>TCOW_REFERENCE_EVIDENCE_V1\<close>.\<close>

definition ascii :: "string \<Rightarrow> byte list" where
  "ascii s = map of_char s"

definition grant_canonical :: "write_grant \<Rightarrow> chunks" where
  "grant_canonical g =
    put_bytes (ascii ''TCOW_WRITE_GRANT_V1'')
      @ put_u128 (gr_tenant g) @ put_u128 (gr_principal g) @ put_u128 (gr_grant_id g) @ put_u128 (gr_nonce g)
      @ put_u64 (gr_grant_epoch g) @ put_u64 (gr_expires_at g)
      @ put_mapping_owner (gr_owner g) @ put_write_grant_intent (gr_intent g)
      @ put_u128 (gr_write_intent g) @ put_u128 (gr_segment_id g) @ put_u128 (gr_storage_node g)
      @ put_u64 (gr_max_bytes g) @ put_payload_integrity (gr_payload_integrity g)
      @ put_write_durability (gr_durability g) @ put_u128 (gr_key_id g) @ put_proof_scheme (gr_proof_scheme g)"

definition receipt_canonical :: "segment_write_receipt \<Rightarrow> chunks" where
  "receipt_canonical r =
    put_bytes (ascii ''TCOW_SEGMENT_RECEIPT_V1'')
      @ put_u128 (rc_tenant r) @ put_u128 (rc_grant_id r) @ put_bytes (rc_grant_hash r) @ put_u128 (rc_principal r)
      @ put_mapping_owner (rc_owner r) @ put_u128 (rc_storage_node r) @ put_u64 (rc_storage_node_incarnation r)
      @ put_u128 (rc_segment_id r) @ put_u128 (rc_write_intent r) @ put_write_grant_intent (rc_intent r)
      @ put_u64 (rc_bytes r) @ put_segment_payload_integrity (rc_integrity r)
      @ put_write_durability (rc_durability r) @ put_segment_receipt_lifecycle (rc_lifecycle r)
      @ put_u64 (rc_receipt_epoch r) @ put_u64 (rc_expires_at r) @ put_u128 (rc_node_key_id r)
      @ put_proof_scheme (rc_proof_scheme r) @ put_segment_descriptor (rc_descriptor r)
      @ put_segment_replica_placement (rc_placement r)"

definition evidence_canonical :: "reference_evidence \<Rightarrow> chunks" where
  "evidence_canonical e =
    put_bytes (ascii ''TCOW_REFERENCE_EVIDENCE_V1'')
      @ put_u128 (ev_tenant e) @ put_u128 (ev_principal e) @ put_mapping_owner (ev_owner e)
      @ put_u128 (ev_grant_id e) @ put_u128 (ev_segment_id e) @ put_u128 (ev_storage_node e)
      @ put_u64 (ev_metadata_commit e) @ put_u64 (ev_receipt_epoch e) @ put_u128 (ev_node_key_id e)
      @ put_proof_scheme (ev_proof_scheme e)"

text \<open>\<^verbatim>\<open>canonical_body\<close>: the chunks collected in a \<^verbatim>\<open>Vec<u8>\<close>.\<close>

definition canonical_body :: "chunks \<Rightarrow> byte list" where
  "canonical_body cs = concat cs"

section \<open>The hash\<close>

record stable_hash =
  sh_lanes :: "64 word list"
  sh_index :: nat

definition stable_hash_new :: stable_hash where
  "stable_hash_new = \<lparr>sh_lanes = [0x243f6a8885a308d3, 0x13198a2e03707344, 0xa4093822299f31d0, 0x082efa98ec4e6c89],
    sh_index = 0\<rparr>"

definition stable_hash_byte :: "stable_hash \<Rightarrow> byte \<Rightarrow> stable_hash" where
  "stable_hash_byte h byte =
    (let lane = sh_index h mod 4;
         x = (sh_lanes h ! lane) XOR push_bit ((sh_index h mod 8) * 8) (word_of_nat byte);
         y = word_rotl (7 + lane * 5) x * 0x9e3779b185ebca87;
         lanes = (sh_lanes h)[lane := y];
         nxt = (lane + 1) mod 4
     in \<lparr>sh_lanes = lanes[nxt := (lanes ! nxt) XOR word_rotr 11 y],
         sh_index = saturating_add_u64 (sh_index h) 1\<rparr>)"

definition stable_hash_update :: "stable_hash \<Rightarrow> byte list \<Rightarrow> stable_hash" where
  "stable_hash_update h bytes = foldl stable_hash_byte h bytes"

definition stable_hash_finish :: "stable_hash \<Rightarrow> proof_tag" where
  "stable_hash_finish h = concat (map (\<lambda>lane. be_bytes 8 (unat lane)) (sh_lanes h))"

text \<open>Writing chunks into a hash, and into the paired body and proof hashes at once.\<close>

definition hash_sink :: "stable_hash \<Rightarrow> chunks \<Rightarrow> stable_hash" where
  "hash_sink h cs = foldl stable_hash_update h cs"

definition body_and_proof_sink :: "stable_hash \<times> stable_hash \<Rightarrow> chunks \<Rightarrow> stable_hash \<times> stable_hash" where
  "body_and_proof_sink hp cs =
    foldl (\<lambda>(body, pf) c. (stable_hash_update body c, stable_hash_update pf c)) hp cs"

definition proof_for_canonical :: "storage_node_key_id \<Rightarrow> chunks \<Rightarrow> proof_tag" where
  "proof_for_canonical key_id cs =
    stable_hash_finish (hash_sink (stable_hash_update stable_hash_new (be_bytes 16 key_id)) cs)"

definition grant_body_hash :: "write_grant \<Rightarrow> grant_hash" where
  "grant_body_hash g = stable_hash_finish (hash_sink stable_hash_new (grant_canonical g))"

definition grant_hash_and_proof :: "storage_node_key_id \<Rightarrow> write_grant \<Rightarrow> grant_hash \<times> proof_tag" where
  "grant_hash_and_proof key_id g =
    (case body_and_proof_sink
        (stable_hash_new, stable_hash_update stable_hash_new (be_bytes 16 key_id)) (grant_canonical g) of
      (body, pf) \<Rightarrow> (stable_hash_finish body, stable_hash_finish pf))"

definition proof_for_grant :: "storage_node_key_id \<Rightarrow> write_grant \<Rightarrow> proof_tag" where
  "proof_for_grant key_id g = proof_for_canonical key_id (grant_canonical g)"

definition proof_for_receipt :: "storage_node_key_id \<Rightarrow> segment_write_receipt \<Rightarrow> proof_tag" where
  "proof_for_receipt key_id r = proof_for_canonical key_id (receipt_canonical r)"

definition proof_for_reference :: "storage_node_key_id \<Rightarrow> reference_evidence \<Rightarrow> proof_tag" where
  "proof_for_reference key_id e = proof_for_canonical key_id (evidence_canonical e)"

section \<open>The local authority\<close>

definition zero_proof :: proof_tag where
  "zero_proof = replicate 32 0"

definition node_key_id :: "storage_node_id \<Rightarrow> storage_node_key_id" where
  "node_key_id n = n"

definition grant_id_of :: "segment_id \<Rightarrow> grant_id" where
  "grant_id_of s = s"

definition grant_nonce_of :: "segment_id \<Rightarrow> write_intent_id \<Rightarrow> grant_nonce" where
  "grant_nonce_of s w = unat ((word_of_nat s :: 128 word) XOR word_rotl 17 (word_of_nat w))"

definition verify_expected_proof :: "proof_tag \<Rightarrow> proof_tag \<Rightarrow> unit result" where
  "verify_expected_proof expected actual = ensure (actual = expected) conflict"

definition verify_grant_proof_and_hash :: "write_grant \<Rightarrow> grant_hash result" where
  "verify_grant_proof_and_hash g =
    (case grant_hash_and_proof (gr_key_id g) g of (hash, expected) \<Rightarrow>
      andThen (verify_expected_proof expected (gr_proof g)) (\<lambda>_. Inr hash))"

definition verify_not_expired :: "logical_deadline \<Rightarrow> unit result" where
  "verify_not_expired expires_at = ensure (\<not> expires_at < LOCAL_GRANT_EPOCH) unavailable"

definition verify_write_grant_and_hash ::
  "write_grant \<Rightarrow> storage_node_id \<Rightarrow> segment_id \<Rightarrow> nat \<Rightarrow> grant_hash result" where
  "verify_write_grant_and_hash g storage_node segment_id bytes =
    andThen (verify_not_expired (gr_expires_at g)) (\<lambda>_.
    andThen (ensure (gr_grant_epoch g = LOCAL_GRANT_EPOCH) conflict) (\<lambda>_.
    andThen (ensure (gr_owner g = intent_owner (gr_intent g)) conflict) (\<lambda>_.
    andThen (ensure (gr_max_bytes g \<noteq> 0) invalid_argument) (\<lambda>_.
    andThen (ensure (gr_proof_scheme g = DeterministicTestMacV1) unsupported) (\<lambda>_.
    andThen (ensure (gr_key_id g = node_key_id (gr_storage_node g)) conflict) (\<lambda>_.
    andThen (verify_grant_proof_and_hash g) (\<lambda>hash.
    andThen (ensure (gr_storage_node g = storage_node) conflict) (\<lambda>_.
    andThen (ensure (gr_segment_id g = segment_id) conflict) (\<lambda>_.
    andThen (ensure (bytes = gr_max_bytes g) invalid_argument) (\<lambda>_.
    Inr hash))))))))))"

definition issue_write_grant :: "write_grant_request \<Rightarrow> write_grant result" where
  "issue_write_grant q =
    andThen (ensure (gq_max_bytes q \<noteq> 0) invalid_argument) (\<lambda>_.
    andThen (verify_not_expired (gq_expires_at q)) (\<lambda>_.
    let key_id = node_key_id (gq_storage_node q);
        g = \<lparr>gr_tenant = gq_tenant q, gr_principal = gq_principal q,
             gr_grant_id = grant_id_of (gq_segment_id q),
             gr_nonce = grant_nonce_of (gq_segment_id q) (gq_write_intent q),
             gr_grant_epoch = LOCAL_GRANT_EPOCH, gr_expires_at = gq_expires_at q,
             gr_owner = intent_owner (gq_intent q), gr_intent = gq_intent q,
             gr_write_intent = gq_write_intent q, gr_segment_id = gq_segment_id q,
             gr_storage_node = gq_storage_node q, gr_max_bytes = gq_max_bytes q,
             gr_payload_integrity = gq_payload_integrity q, gr_durability = gq_durability q,
             gr_key_id = key_id, gr_proof_scheme = DeterministicTestMacV1, gr_proof = zero_proof\<rparr>
    in Inr (g\<lparr>gr_proof := proof_for_grant key_id g\<rparr>)))"

definition create_segment_receipt_after_verified_write ::
  "write_grant \<Rightarrow> grant_hash \<Rightarrow> segment_replica_commit \<Rightarrow> server_incarnation \<Rightarrow> segment_write_receipt result" where
  "create_segment_receipt_after_verified_write g hash commit incarnation =
    andThen (ensure (sd_segment_id (cm_descriptor commit) = gr_segment_id g
      \<and> pl_segment_id (cm_placement commit) = gr_segment_id g) conflict) (\<lambda>_.
    andThen (ensure (sd_bytes (cm_descriptor commit) = gr_max_bytes g
      \<and> pl_bytes (cm_placement commit) = gr_max_bytes g) conflict) (\<lambda>_.
    let r = \<lparr>rc_tenant = gr_tenant g, rc_grant_id = gr_grant_id g, rc_grant_hash = hash,
             rc_principal = gr_principal g, rc_owner = gr_owner g, rc_storage_node = gr_storage_node g,
             rc_storage_node_incarnation = incarnation, rc_segment_id = gr_segment_id g,
             rc_write_intent = gr_write_intent g, rc_intent = gr_intent g, rc_bytes = gr_max_bytes g,
             rc_integrity = sd_integrity (cm_descriptor commit), rc_durability = gr_durability g,
             rc_lifecycle = Receipt_DurablePendingMetadata, rc_receipt_epoch = gr_grant_epoch g,
             rc_expires_at = gr_expires_at g, rc_node_key_id = node_key_id (gr_storage_node g),
             rc_proof_scheme = DeterministicTestMacV1, rc_proof = zero_proof,
             rc_descriptor = cm_descriptor commit, rc_placement = cm_placement commit\<rparr>
    in Inr (r\<lparr>rc_proof := proof_for_receipt (rc_node_key_id r) r\<rparr>)))"

definition create_segment_receipt ::
  "write_grant \<Rightarrow> segment_replica_commit \<Rightarrow> server_incarnation \<Rightarrow> segment_write_receipt result" where
  "create_segment_receipt g commit incarnation =
    andThen (verify_write_grant_and_hash g (pl_storage_node (cm_placement commit))
      (sd_segment_id (cm_descriptor commit)) (sd_bytes (cm_descriptor commit))) (\<lambda>hash.
    create_segment_receipt_after_verified_write g hash commit incarnation)"

definition verify_segment_receipt :: "segment_write_receipt \<Rightarrow> verified_segment_receipt result" where
  "verify_segment_receipt r =
    andThen (verify_not_expired (rc_expires_at r)) (\<lambda>_.
    andThen (ensure (rc_receipt_epoch r = LOCAL_GRANT_EPOCH) conflict) (\<lambda>_.
    andThen (ensure (rc_owner r = intent_owner (rc_intent r)) conflict) (\<lambda>_.
    andThen (ensure (rc_bytes r \<noteq> 0) invalid_argument) (\<lambda>_.
    andThen (ensure (rc_proof_scheme r = DeterministicTestMacV1) unsupported) (\<lambda>_.
    andThen (ensure (rc_node_key_id r = node_key_id (rc_storage_node r)) conflict) (\<lambda>_.
    andThen (verify_expected_proof (proof_for_receipt (rc_node_key_id r) r) (rc_proof r)) (\<lambda>_.
    andThen (ensure (rc_lifecycle r = Receipt_DurablePendingMetadata) conflict) (\<lambda>_.
    andThen (ensure (rc_segment_id r = sd_segment_id (rc_descriptor r)
      \<and> rc_segment_id r = pl_segment_id (rc_placement r)) conflict) (\<lambda>_.
    andThen (ensure (rc_storage_node r = pl_storage_node (rc_placement r)) conflict) (\<lambda>_.
    andThen (ensure (rc_bytes r = sd_bytes (rc_descriptor r) \<and> rc_bytes r = pl_bytes (rc_placement r)) conflict) (\<lambda>_.
    andThen (ensure (rc_integrity r = sd_integrity (rc_descriptor r)) conflict) (\<lambda>_.
    Inr \<lparr>vr_receipt = r, vr_descriptor = rc_descriptor r\<rparr>))))))))))))"

definition verify_receipt_matches_grant ::
  "write_grant \<Rightarrow> segment_write_receipt \<Rightarrow> verified_segment_receipt result" where
  "verify_receipt_matches_grant g r =
    andThen (verify_write_grant_and_hash g (rc_storage_node r) (rc_segment_id r) (rc_bytes r)) (\<lambda>hash.
    andThen (verify_segment_receipt r) (\<lambda>verified.
    andThen (ensure (rc_grant_id r = gr_grant_id g \<and> rc_grant_hash r = hash \<and> rc_tenant r = gr_tenant g
      \<and> rc_principal r = gr_principal g \<and> rc_owner r = gr_owner g \<and> rc_intent r = gr_intent g
      \<and> rc_write_intent r = gr_write_intent g \<and> rc_segment_id r = gr_segment_id g
      \<and> rc_storage_node r = gr_storage_node g \<and> rc_bytes r = gr_max_bytes g
      \<and> rc_durability r = gr_durability g \<and> rc_receipt_epoch r = gr_grant_epoch g
      \<and> rc_expires_at r = gr_expires_at g \<and> rc_node_key_id r = gr_key_id g) conflict) (\<lambda>_.
    Inr verified)))"

definition create_reference_evidence :: "segment_write_receipt \<Rightarrow> commit_seq \<Rightarrow> reference_evidence result" where
  "create_reference_evidence r metadata_commit =
    andThen (verify_segment_receipt r) (\<lambda>_.
    let e = \<lparr>ev_tenant = rc_tenant r, ev_principal = rc_principal r, ev_owner = rc_owner r,
             ev_grant_id = rc_grant_id r, ev_segment_id = rc_segment_id r, ev_storage_node = rc_storage_node r,
             ev_metadata_commit = metadata_commit, ev_receipt_epoch = rc_receipt_epoch r,
             ev_node_key_id = rc_node_key_id r, ev_proof_scheme = DeterministicTestMacV1, ev_proof = zero_proof\<rparr>
    in Inr (e\<lparr>ev_proof := proof_for_reference (ev_node_key_id e) e\<rparr>))"

definition verify_reference_evidence ::
  "reference_evidence \<Rightarrow> segment_id \<Rightarrow> storage_node_id \<Rightarrow> unit result" where
  "verify_reference_evidence e segment_id storage_node =
    andThen (ensure (ev_proof_scheme e = DeterministicTestMacV1) unsupported) (\<lambda>_.
    andThen (ensure (ev_segment_id e = segment_id) conflict) (\<lambda>_.
    andThen (ensure (ev_storage_node e = storage_node) conflict) (\<lambda>_.
    andThen (ensure (ev_node_key_id e = node_key_id storage_node) conflict) (\<lambda>_.
    verify_expected_proof (proof_for_reference (ev_node_key_id e) e) (ev_proof e)))))"

section \<open>One pass over the body computes both hashes\<close>

lemma body_and_proof_sink_split:
  "body_and_proof_sink (b, p) cs = (hash_sink b cs, hash_sink p cs)"
  unfolding body_and_proof_sink_def hash_sink_def by (induction cs arbitrary: b p) auto

lemma stable_hash_update_append:
  "stable_hash_update h (xs @ ys) = stable_hash_update (stable_hash_update h xs) ys"
  by (simp add: stable_hash_update_def)

lemma hash_sink_concat: "hash_sink h cs = stable_hash_update h (canonical_body cs)"
proof (induction cs arbitrary: h)
  case Nil
  show ?case
    by (simp add: hash_sink_def stable_hash_update_def canonical_body_def)
next
  case (Cons c cs)
  show ?case
    using Cons.IH [of "stable_hash_update h c"]
    by (simp add: hash_sink_def canonical_body_def stable_hash_update_append)
qed

lemma grant_hash_and_proof_split:
  "grant_hash_and_proof key g = (grant_body_hash g, proof_for_grant key g)"
  by (simp add: grant_hash_and_proof_def body_and_proof_sink_split grant_body_hash_def
      proof_for_grant_def proof_for_canonical_def)

lemma length_be_bytes [simp]: "length (be_bytes n v) = n"
  by (induction n arbitrary: v) auto

lemma length_stable_hash_update: "length (sh_lanes (stable_hash_update h bs)) = length (sh_lanes h)"
  unfolding stable_hash_update_def
  by (induction bs arbitrary: h) (simp_all add: stable_hash_byte_def Let_def)

lemma length_proof_for_canonical: "length (proof_for_canonical key cs) = 32"
proof -
  have "length (stable_hash_finish h) = 8 * length (sh_lanes h)" for h
    by (simp add: stable_hash_finish_def length_concat comp_def sum_list_triv)
  moreover have "length (sh_lanes stable_hash_new) = 4"
    by (simp add: stable_hash_new_def)
  ultimately show ?thesis
    by (simp add: proof_for_canonical_def hash_sink_concat length_stable_hash_update)
qed

section \<open>The canonical encoding is unambiguous\<close>

definition fits :: "nat \<Rightarrow> nat \<Rightarrow> bool" where
  "fits n v \<longleftrightarrow> v < 256 ^ n"

lemma be_bytes_inj: "fits n a \<Longrightarrow> fits n b \<Longrightarrow> be_bytes n a = be_bytes n b \<longleftrightarrow> a = b"
proof (induction n arbitrary: a b)
  case (Suc n)
  have "fits n (a div 256)" "fits n (b div 256)"
    using Suc.prems by (simp_all add: fits_def less_mult_imp_div_less mult.commute)
  then have "be_bytes n (a div 256) = be_bytes n (b div 256) \<longleftrightarrow> a div 256 = b div 256"
    by (rule Suc.IH)
  then show ?case
    by (auto simp del: div_mult_mod_eq) (metis div_mult_mod_eq)
qed (simp add: fits_def)

primrec wf_owner :: "mapping_owner \<Rightarrow> bool" where
  "wf_owner (BlockDevice d) \<longleftrightarrow> fits 16 d"
| "wf_owner (NativeKeyspace k) \<longleftrightarrow> fits 16 k"

primrec wf_intent :: "write_grant_intent \<Rightarrow> bool" where
  "wf_intent (BlockWrite d r f s m) \<longleftrightarrow>
    fits 16 d \<and> fits 8 (range_start r) \<and> fits 8 (range_blocks r) \<and> fits 8 f \<and> fits 8 s \<and> fits 16 m"
| "wf_intent (NativeWrite k f r v) \<longleftrightarrow>
    fits 16 k \<and> fits 16 f \<and> fits 8 (byte_offset r) \<and> fits 8 (byte_len r) \<and> fits 8 v"
| "wf_intent (NativeAppendStream k f s t a b e) \<longleftrightarrow>
    fits 16 k \<and> fits 16 f \<and> fits 16 s \<and> fits 16 t \<and> fits 8 a \<and> fits 8 b \<and> fits 8 e"
| "wf_intent (Internal_Intent owner) \<longleftrightarrow> wf_owner owner"

text \<open>Every field of a grant is representable in the width the program gives it.\<close>

definition wf_grant :: "write_grant \<Rightarrow> bool" where
  "wf_grant g \<longleftrightarrow>
    fits 16 (gr_tenant g) \<and> fits 16 (gr_principal g) \<and> fits 16 (gr_grant_id g) \<and> fits 16 (gr_nonce g)
    \<and> fits 8 (gr_grant_epoch g) \<and> fits 8 (gr_expires_at g) \<and> wf_owner (gr_owner g) \<and> wf_intent (gr_intent g)
    \<and> fits 16 (gr_write_intent g) \<and> fits 16 (gr_segment_id g) \<and> fits 16 (gr_storage_node g)
    \<and> fits 8 (gr_max_bytes g) \<and> fits 16 (gr_key_id g)"

named_theorems put_inj \<open>an encoded field can be split off unambiguously\<close>

lemma put_u8_inj [put_inj]: "concat (put_u8 a) @ r = concat (put_u8 b) @ s \<longleftrightarrow> a = b \<and> r = s"
  by (simp add: put_u8_def)

lemma put_u64_inj [put_inj]:
  "fits 8 a \<Longrightarrow> fits 8 b \<Longrightarrow> concat (put_u64 a) @ r = concat (put_u64 b) @ s \<longleftrightarrow> a = b \<and> r = s"
  by (simp add: put_u64_def be_bytes_inj del: be_bytes.simps)

lemma put_u128_inj [put_inj]:
  "fits 16 a \<Longrightarrow> fits 16 b \<Longrightarrow> concat (put_u128 a) @ r = concat (put_u128 b) @ s \<longleftrightarrow> a = b \<and> r = s"
  by (simp add: put_u128_def be_bytes_inj del: be_bytes.simps)

lemma put_mapping_owner_inj [put_inj]:
  "wf_owner a \<Longrightarrow> wf_owner b \<Longrightarrow>
    concat (put_mapping_owner a) @ r = concat (put_mapping_owner b) @ s \<longleftrightarrow> a = b \<and> r = s"
  by (cases a; cases b) (simp_all add: put_inj)

lemma put_write_grant_intent_inj [put_inj]:
  "wf_intent a \<Longrightarrow> wf_intent b \<Longrightarrow>
    concat (put_write_grant_intent a) @ r = concat (put_write_grant_intent b) @ s \<longleftrightarrow> a = b \<and> r = s"
  by (cases a; cases b) (auto simp: put_inj)

lemma put_payload_integrity_inj [put_inj]:
  "concat (put_payload_integrity a) @ r = concat (put_payload_integrity b) @ s \<longleftrightarrow> a = b \<and> r = s"
  by (cases a; cases b) (simp_all add: put_inj)

lemma put_write_durability_inj [put_inj]:
  "concat (put_write_durability a) @ r = concat (put_write_durability b) @ s \<longleftrightarrow> a = b \<and> r = s"
  by (cases a; cases b) (simp_all add: put_inj)

lemma put_proof_scheme_inj: "concat (put_proof_scheme a) = concat (put_proof_scheme b) \<longleftrightarrow> a = b"
  by (cases a; cases b) (simp_all add: put_u8_def)

lemma grant_canonical_inj:
  assumes "wf_grant g" "wf_grant h"
    and "canonical_body (grant_canonical g) = canonical_body (grant_canonical h)"
  shows "g\<lparr>gr_proof := zero_proof\<rparr> = h\<lparr>gr_proof := zero_proof\<rparr>"
proof -
  have "gr_tenant g = gr_tenant h \<and> gr_principal g = gr_principal h \<and> gr_grant_id g = gr_grant_id h
    \<and> gr_nonce g = gr_nonce h \<and> gr_grant_epoch g = gr_grant_epoch h \<and> gr_expires_at g = gr_expires_at h
    \<and> gr_owner g = gr_owner h \<and> gr_intent g = gr_intent h \<and> gr_write_intent g = gr_write_intent h
    \<and> gr_segment_id g = gr_segment_id h \<and> gr_storage_node g = gr_storage_node h
    \<and> gr_max_bytes g = gr_max_bytes h \<and> gr_payload_integrity g = gr_payload_integrity h
    \<and> gr_durability g = gr_durability h \<and> gr_key_id g = gr_key_id h \<and> gr_proof_scheme g = gr_proof_scheme h"
    using assms
    by (simp add: canonical_body_def grant_canonical_def wf_grant_def put_inj put_proof_scheme_inj)
  then show ?thesis
    by simp
qed

section \<open>What verification accepts\<close>

lemma grant_canonical_proof [simp]: "grant_canonical (g\<lparr>gr_proof := p\<rparr>) = grant_canonical g"
  by (simp add: grant_canonical_def)

lemma receipt_canonical_proof [simp]: "receipt_canonical (r\<lparr>rc_proof := p\<rparr>) = receipt_canonical r"
  by (simp add: receipt_canonical_def)

lemma evidence_canonical_proof [simp]: "evidence_canonical (e\<lparr>ev_proof := p\<rparr>) = evidence_canonical e"
  by (simp add: evidence_canonical_def)

lemma verify_expected_proof_Inr [simp]: "verify_expected_proof expected actual = Inr u \<longleftrightarrow> actual = expected"
  by (simp add: verify_expected_proof_def)

lemma verify_not_expired_Inr [simp]: "verify_not_expired t = Inr u \<longleftrightarrow> 1 \<le> t"
  by (simp add: verify_not_expired_def LOCAL_GRANT_EPOCH_def) arith

lemma verify_grant_Inr:
  "verify_write_grant_and_hash g node seg bytes = Inr hash \<longleftrightarrow>
    1 \<le> gr_expires_at g \<and> gr_grant_epoch g = LOCAL_GRANT_EPOCH \<and> gr_owner g = intent_owner (gr_intent g)
    \<and> gr_max_bytes g \<noteq> 0 \<and> gr_proof_scheme g = DeterministicTestMacV1
    \<and> gr_key_id g = gr_storage_node g \<and> gr_proof g = proof_for_grant (gr_key_id g) g
    \<and> gr_storage_node g = node \<and> gr_segment_id g = seg \<and> gr_max_bytes g = bytes \<and> hash = grant_body_hash g"
  by (auto simp: verify_write_grant_and_hash_def verify_grant_proof_and_hash_def grant_hash_and_proof_split
      node_key_id_def)

lemma verify_receipt_Inr:
  "verify_segment_receipt r = Inr v \<longleftrightarrow>
    1 \<le> rc_expires_at r \<and> rc_receipt_epoch r = LOCAL_GRANT_EPOCH \<and> rc_owner r = intent_owner (rc_intent r)
    \<and> rc_bytes r \<noteq> 0 \<and> rc_proof_scheme r = DeterministicTestMacV1 \<and> rc_node_key_id r = rc_storage_node r
    \<and> rc_proof r = proof_for_receipt (rc_node_key_id r) r
    \<and> rc_segment_id r = sd_segment_id (rc_descriptor r) \<and> rc_segment_id r = pl_segment_id (rc_placement r)
    \<and> rc_storage_node r = pl_storage_node (rc_placement r)
    \<and> rc_bytes r = sd_bytes (rc_descriptor r) \<and> rc_bytes r = pl_bytes (rc_placement r)
    \<and> rc_integrity r = sd_integrity (rc_descriptor r)
    \<and> v = \<lparr>vr_receipt = r, vr_descriptor = rc_descriptor r\<rparr>"
  using segment_receipt_lifecycle.exhaust [of "rc_lifecycle r"]
  by (auto simp: verify_segment_receipt_def node_key_id_def)

lemma issue_write_grant_Inr:
  assumes "issue_write_grant q = Inr g"
  shows "verify_write_grant_and_hash g (gq_storage_node q) (gq_segment_id q) (gq_max_bytes q)
      = Inr (grant_body_hash g)
    \<and> gr_intent g = gq_intent q \<and> gr_write_intent g = gq_write_intent q
    \<and> gr_tenant g = gq_tenant q \<and> gr_principal g = gq_principal q"
  using assms by (auto simp: issue_write_grant_def verify_grant_Inr Let_def node_key_id_def proof_for_grant_def
      grant_canonical_def)

lemma create_receipt_verifies:
  assumes "verify_write_grant_and_hash g node seg bytes = Inr hash"
    and "create_segment_receipt_after_verified_write g hash commit inc = Inr r"
    and "pl_storage_node (cm_placement commit) = node"
  shows "verify_receipt_matches_grant g r = Inr \<lparr>vr_receipt = r, vr_descriptor = cm_descriptor commit\<rparr>"
  using assms
  by (auto simp: create_segment_receipt_after_verified_write_def Let_def verify_receipt_matches_grant_def
      verify_grant_Inr verify_receipt_Inr node_key_id_def proof_for_receipt_def receipt_canonical_def)

lemma create_evidence_verifies:
  assumes "create_reference_evidence r seq = Inr e"
  shows "verify_reference_evidence e (rc_segment_id r) (rc_storage_node r) = Inr ()
    \<and> ev_metadata_commit e = seq \<and> (\<exists>v. verify_segment_receipt r = Inr v)"
  using assms
  by (auto simp: create_reference_evidence_def verify_reference_evidence_def Let_def verify_receipt_Inr
      node_key_id_def proof_for_reference_def evidence_canonical_def)

section \<open>Properties\<close>

text \<open>
  C17: the canonical encoding that is hashed and signed determines the grant: two grants whose fields
  fit the widths of the program have the same encoding exactly when they agree in every field but
  the proof tag, whatever their owners and intents.
\<close>

theorem grant_encoding_injective:
  assumes "wf_grant g" "wf_grant h"
  shows "canonical_body (grant_canonical g) = canonical_body (grant_canonical h)
    \<longleftrightarrow> g\<lparr>gr_proof := zero_proof\<rparr> = h\<lparr>gr_proof := zero_proof\<rparr>"
  using grant_canonical_inj [OF assms] by (metis grant_canonical_proof)

definition sample_grant :: write_grant where
  "sample_grant = \<lparr>gr_tenant = 1, gr_principal = 2, gr_grant_id = 3, gr_nonce = 4, gr_grant_epoch = 1,
    gr_expires_at = 10, gr_owner = BlockDevice 5, gr_intent = BlockWrite 5 (mk_range 0 2) 0 0 9,
    gr_write_intent = 4, gr_segment_id = 3, gr_storage_node = 1, gr_max_bytes = 8192,
    gr_payload_integrity = Verified, gr_durability = Acknowledged, gr_key_id = 1,
    gr_proof_scheme = DeterministicTestMacV1, gr_proof = zero_proof\<rparr>"

theorem grant_encoding_injective_witness:
  "canonical_body (grant_canonical sample_grant) \<noteq> canonical_body (grant_canonical (sample_grant\<lparr>gr_segment_id := 6\<rparr>))"
  by (subst grant_encoding_injective) (simp_all add: sample_grant_def wf_grant_def fits_def)

text \<open>
  C19: hashing the body and the keyed proof of a grant in one pass over its encoding gives the same
  two values as computing them separately.
\<close>

theorem grant_one_pass_equals_two_passes:
  "grant_hash_and_proof key g = (grant_body_hash g, proof_for_grant key g)"
  by (rule grant_hash_and_proof_split)

text \<open>
  C18: a request with a positive size and a live deadline is granted, and the storage node's check of
  the grant succeeds for exactly the node, the segment and the byte count it was issued for, yielding
  the hash of its body.
\<close>

theorem issued_grant_verifies_exactly:
  assumes "0 < gq_max_bytes q" "1 \<le> gq_expires_at q"
  shows "\<exists>g. issue_write_grant q = Inr g \<and> gr_intent g = gq_intent q \<and> gr_owner g = intent_owner (gq_intent q)
    \<and> (\<forall>node seg n hash. verify_write_grant_and_hash g node seg n = Inr hash \<longleftrightarrow>
        node = gq_storage_node q \<and> seg = gq_segment_id q \<and> n = gq_max_bytes q \<and> hash = grant_body_hash g)"
proof -
  obtain g where g: "issue_write_grant q = Inr g"
    using assms by (auto simp: issue_write_grant_def verify_not_expired_def LOCAL_GRANT_EPOCH_def Let_def)
  moreover have "gr_owner g = intent_owner (gq_intent q)"
    using g by (auto simp: issue_write_grant_def Let_def)
  moreover have "verify_write_grant_and_hash g node seg n = Inr hash \<longleftrightarrow>
      node = gq_storage_node q \<and> seg = gq_segment_id q \<and> n = gq_max_bytes q \<and> hash = grant_body_hash g" for node seg n hash
    using issue_write_grant_Inr [OF g] unfolding verify_grant_Inr by blast
  ultimately show ?thesis
    using issue_write_grant_Inr [OF g] by blast
qed

definition sample_request :: write_grant_request where
  "sample_request = \<lparr>gq_tenant = 1, gq_principal = 1, gq_intent = BlockWrite 5 (mk_range 0 2) 0 0 9,
    gq_write_intent = 4, gq_segment_id = 3, gq_storage_node = 1, gq_max_bytes = 4,
    gq_payload_integrity = Verified, gq_durability = Acknowledged, gq_expires_at = 10\<rparr>"

theorem issued_grant_verifies_exactly_witness:
  "\<exists>g. issue_write_grant sample_request = Inr g \<and> gr_intent g = gq_intent sample_request
    \<and> gr_owner g = intent_owner (gq_intent sample_request)
    \<and> (\<forall>node seg n hash. verify_write_grant_and_hash g node seg n = Inr hash \<longleftrightarrow>
        node = gq_storage_node sample_request \<and> seg = gq_segment_id sample_request
        \<and> n = gq_max_bytes sample_request \<and> hash = grant_body_hash g)"
  by (rule issued_grant_verifies_exactly) (simp_all add: sample_request_def)

text \<open>
  C20: for a grant that verifies at the node holding the replica, a receipt is created when the commit
  names the granted segment and byte count; the receipt then passes the full receipt-against-grant
  check, and the commit can be read back from it.
\<close>

theorem receipt_round_trip:
  assumes "verify_write_grant_and_hash g (pl_storage_node (cm_placement commit)) (gr_segment_id g) (gr_max_bytes g) = Inr hash"
    and "sd_segment_id (cm_descriptor commit) = gr_segment_id g" "pl_segment_id (cm_placement commit) = gr_segment_id g"
    and "sd_bytes (cm_descriptor commit) = gr_max_bytes g" "pl_bytes (cm_placement commit) = gr_max_bytes g"
  shows "\<exists>rc. create_segment_receipt g commit incarnation = Inr rc
    \<and> verify_receipt_matches_grant g rc = Inr \<lparr>vr_receipt = rc, vr_descriptor = cm_descriptor commit\<rparr>
    \<and> replica_commit rc = commit"
proof -
  obtain rc where rc: "create_segment_receipt_after_verified_write g hash commit incarnation = Inr rc"
    using assms by (simp add: create_segment_receipt_after_verified_write_def Let_def)
  then have "create_segment_receipt g commit incarnation = Inr rc"
    using assms by (simp add: create_segment_receipt_def)
  moreover have "replica_commit rc = commit"
    using rc by (auto simp: create_segment_receipt_after_verified_write_def Let_def replica_commit_def)
  ultimately show ?thesis
    using create_receipt_verifies [OF assms(1) rc] by simp
qed

definition sample_commit :: segment_replica_commit where
  "sample_commit = \<lparr>cm_descriptor = \<lparr>sd_segment_id = 3, sd_blocks = 2, sd_bytes = 4, sd_integrity = Crc32c 77\<rparr>,
    cm_placement = \<lparr>pl_segment_id = 3, pl_storage_node = 1, pl_offset = 0, pl_bytes = 4\<rparr>\<rparr>"

lemma sample_issue: "\<exists>g. issue_write_grant sample_request = Inr g"
  by (simp add: issue_write_grant_def sample_request_def verify_not_expired_def LOCAL_GRANT_EPOCH_def Let_def)

lemma sample_issue_fields:
  "issue_write_grant sample_request = Inr g \<Longrightarrow>
    gr_segment_id g = 3 \<and> gr_max_bytes g = 4 \<and> gr_payload_integrity g = Verified
    \<and> verify_write_grant_and_hash g 1 3 4 = Inr (grant_body_hash g)"
  using issue_write_grant_Inr [of sample_request g]
  by (auto simp: issue_write_grant_def sample_request_def Let_def)

theorem receipt_round_trip_witness:
  "\<exists>g rc. issue_write_grant sample_request = Inr g \<and> create_segment_receipt g sample_commit 1 = Inr rc
    \<and> verify_receipt_matches_grant g rc = Inr \<lparr>vr_receipt = rc, vr_descriptor = cm_descriptor sample_commit\<rparr>
    \<and> replica_commit rc = sample_commit"
proof -
  obtain g where g: "issue_write_grant sample_request = Inr g"
    using sample_issue by blast
  have "\<exists>rc. create_segment_receipt g sample_commit 1 = Inr rc
    \<and> verify_receipt_matches_grant g rc = Inr \<lparr>vr_receipt = rc, vr_descriptor = cm_descriptor sample_commit\<rparr>
    \<and> replica_commit rc = sample_commit"
    by (rule receipt_round_trip) (use sample_issue_fields [OF g] in \<open>simp_all add: sample_commit_def\<close>)
  with g show ?thesis
    by blast
qed

text \<open>
  C21: reference evidence made from a receipt that verifies is accepted by the node and for the
  segment of the receipt and by no other node and for no other segment.
\<close>

theorem evidence_round_trip:
  assumes "verify_segment_receipt rc = Inr v"
  shows "\<exists>e. create_reference_evidence rc seq = Inr e \<and> ev_metadata_commit e = seq
    \<and> (\<forall>seg node. verify_reference_evidence e seg node = Inr () \<longleftrightarrow> seg = rc_segment_id rc \<and> node = rc_storage_node rc)"
proof -
  obtain e where e: "create_reference_evidence rc seq = Inr e"
    using assms by (auto simp: create_reference_evidence_def Let_def)
  have "ev_segment_id e = rc_segment_id rc \<and> ev_storage_node e = rc_storage_node rc"
    using e by (auto simp: create_reference_evidence_def Let_def)
  with create_evidence_verifies [OF e] e show ?thesis
    by (auto simp: verify_reference_evidence_def)
qed

theorem evidence_round_trip_witness:
  "\<exists>rc e. (\<exists>v. verify_segment_receipt rc = Inr v) \<and> create_reference_evidence rc 6 = Inr e \<and> ev_metadata_commit e = 6
    \<and> (\<forall>seg node. verify_reference_evidence e seg node = Inr () \<longleftrightarrow> seg = rc_segment_id rc \<and> node = rc_storage_node rc)"
proof -
  obtain g where g: "issue_write_grant sample_request = Inr g"
    using sample_issue by blast
  note fields = sample_issue_fields [OF g]
  obtain rc where rc: "create_segment_receipt_after_verified_write g (grant_body_hash g) sample_commit 1 = Inr rc"
    using fields by (simp add: create_segment_receipt_after_verified_write_def Let_def sample_commit_def)
  obtain v where v: "verify_segment_receipt rc = Inr v"
    using create_receipt_verifies [of g 1 3 4, OF _ rc] fields
    by (auto simp: sample_commit_def verify_receipt_matches_grant_def)
  with evidence_round_trip [OF v, of 6] show ?thesis
    by blast
qed

end
