(* ===== verification/Metadata_State.thy ===== *)
theory Metadata_State
  imports Config Grants "HOL-Library.Product_Lexorder"
begin

text \<open>
  The state behind the metadata plane's mutex (\<^verbatim>\<open>local/metadata_plane.rs\<close>, \<^verbatim>\<open>MetadataInner\<close>
  and the records of open append streams), its identifier allocators and the lookups the plane's
  operations share.  Persistent allocators of 128-bit identifiers use an unchecked increment, which
  panics at the end of the range; commit sequences and collection epochs use a checked one.
\<close>

section \<open>Picking the last maximum\<close>

text \<open>\<^verbatim>\<open>Iterator::max_by_key\<close>: the last of the elements with the largest key.\<close>

definition max_by_key :: "('a \<Rightarrow> 'k::linorder) \<Rightarrow> 'a list \<Rightarrow> 'a option" where
  "max_by_key f xs =
    foldl (\<lambda>acc x. case acc of None \<Rightarrow> Some x | Some y \<Rightarrow> if f y \<le> f x then Some x else Some y) None xs"

lemma max_by_key_Nil [simp]: "max_by_key f [] = None"
  by (simp add: max_by_key_def)

lemma max_by_key_snoc:
  "max_by_key f (xs @ [x]) =
    (case max_by_key f xs of None \<Rightarrow> Some x | Some y \<Rightarrow> if f y \<le> f x then Some x else Some y)"
  by (simp add: max_by_key_def)

lemma max_by_key_None [simp]: "max_by_key f xs = None \<longleftrightarrow> xs = []"
  by (induction xs rule: rev_induct) (auto simp: max_by_key_snoc split: option.splits)

lemma max_by_key_Some:
  "max_by_key f xs = Some y \<Longrightarrow> y \<in> set xs \<and> (\<forall>x\<in>set xs. f x \<le> f y)"
proof (induction xs arbitrary: y rule: rev_induct)
  case (snoc x xs)
  then show ?case
    by (cases "max_by_key f xs") (auto simp: max_by_key_snoc split: if_splits intro: order_trans)
qed simp

section \<open>Append streams\<close>

datatype append_stream_status = Stream_Active | Stream_Released | Stream_Fenced | Stream_Aborted

record append_stream_run_record =
  ar_ticket_id :: append_ticket_id
  ar_offset :: nat
  ar_len :: nat
  ar_run :: append_log_run

record append_stream_state =
  as_keyspace_id :: keyspace_id
  as_file_id :: file_id
  as_stream_id :: append_stream_id
  as_base_writer_epoch :: writer_epoch
  as_writer_epoch :: writer_epoch
  as_base_version :: file_version
  as_visible_base_size :: nat
  as_accepted_tail :: nat
  as_durable_through :: nat
  as_published_through :: nat
  as_status :: append_stream_status
  as_records :: "append_stream_run_record list"

record append_publish_in_flight =
  pf_ticket_id :: append_publish_ticket_id
  pf_stream_id :: append_stream_id
  pf_commit_seq :: commit_seq
  pf_writer_epoch :: writer_epoch
  pf_keyspace_id :: keyspace_id
  pf_file_id :: file_id
  pf_publish_through :: nat
  pf_old_root :: metadata_node_id
  pf_old_size :: nat

section \<open>The metadata state\<close>

record metadata_inner =
  mi_next_device_id :: nat
  mi_next_keyspace_id :: nat
  mi_next_file_id :: nat
  mi_next_metadata_node_id :: nat
  mi_next_keyspace_root_id :: nat
  mi_next_keyspace_catalog_shard_id :: nat
  mi_next_commit_group_id :: nat
  mi_next_commit_seq :: nat
  mi_next_checkpoint_id :: nat
  mi_next_gc_epoch :: nat
  mi_device_heads :: "(device_id, device_head) btree"
  mi_deleted_device_heads :: "(device_id, device_head) btree"
  mi_device_specs :: "(device_id, device_spec) btree"
  mi_keyspace_heads :: "(keyspace_id, keyspace_head) btree"
  mi_keyspace_roots :: "(keyspace_root_id, keyspace_root) btree"
  mi_keyspace_catalog_shards :: "(keyspace_catalog_shard_id, keyspace_catalog_shard) btree"
  mi_file_writer_epochs :: "(keyspace_id \<times> file_id, writer_epoch) btree"
  mi_append_streams :: "(append_stream_id, append_stream_state) btree"
  mi_append_publish_in_flight :: "(append_publish_ticket_id, append_publish_in_flight) btree"
  mi_metadata_nodes :: "(metadata_node_id, metadata_node) btree"
  mi_commit_groups :: "(commit_group_id, commit_group) btree"
  mi_shard_commits :: "shard_commit list"
  mi_keyspace_commits :: "keyspace_commit list"
  mi_file_commits :: "file_commit list"
  mi_fork_records :: "(commit_seq, fork_record) btree"
  mi_delete_records :: "(commit_seq, delete_record) btree"
  mi_checkpoints :: "(checkpoint_id, checkpoint) btree"
  mi_metadata_last_mark_epoch :: "(metadata_node_id, nat) btree"
  mi_segment_last_mark_epoch :: "(segment_id, nat) btree"

type_synonym 'a meta_op = "(metadata_inner, failure, 'a) op"

definition metadata_new :: metadata_inner where
  "metadata_new =
    \<lparr>mi_next_device_id = 1, mi_next_keyspace_id = 1, mi_next_file_id = 1, mi_next_metadata_node_id = 1,
     mi_next_keyspace_root_id = 1, mi_next_keyspace_catalog_shard_id = 1, mi_next_commit_group_id = 1,
     mi_next_commit_seq = 1, mi_next_checkpoint_id = 1, mi_next_gc_epoch = 1,
     mi_device_heads = [], mi_deleted_device_heads = [], mi_device_specs = [], mi_keyspace_heads = [],
     mi_keyspace_roots = [], mi_keyspace_catalog_shards = [], mi_file_writer_epochs = [],
     mi_append_streams = [], mi_append_publish_in_flight = [], mi_metadata_nodes = [],
     mi_commit_groups = [], mi_shard_commits = [], mi_keyspace_commits = [], mi_file_commits = [],
     mi_fork_records = [], mi_delete_records = [], mi_checkpoints = [],
     mi_metadata_last_mark_epoch = [], mi_segment_last_mark_epoch = []\<rparr>"

definition prune_append_streams_for_durable_export :: "metadata_inner \<Rightarrow> metadata_inner" where
  "prune_append_streams_for_durable_export m =
    m\<lparr>mi_append_publish_in_flight := [],
      mi_append_streams := map (\<lambda>(i, st). (i, st\<lparr>
        as_records := filter (\<lambda>r. case checked_add_u64 (ar_offset r) (ar_len r) of
            None \<Rightarrow> False | Some e \<Rightarrow> e \<le> as_durable_through st) (as_records st),
        as_accepted_tail := min (as_accepted_tail st) (as_durable_through st)\<rparr>)) (mi_append_streams m)\<rparr>"

definition append_publish_in_flight_for_file :: "metadata_inner \<Rightarrow> keyspace_id \<Rightarrow> file_id \<Rightarrow> bool" where
  "append_publish_in_flight_for_file m keyspace_id file_id =
    list_ex (\<lambda>p. pf_keyspace_id p = keyspace_id \<and> pf_file_id p = file_id)
      (bt_values (mi_append_publish_in_flight m))"

section \<open>Allocators\<close>

definition alloc_id ::
  "nat \<Rightarrow> failure \<Rightarrow> (metadata_inner \<Rightarrow> nat) \<Rightarrow> (nat \<Rightarrow> metadata_inner \<Rightarrow> metadata_inner) \<Rightarrow> nat meta_op" where
  "alloc_id limit overflow get put =
    seqM (getM get) (\<lambda>i.
    seqM (liftM (ensure (i + 1 < limit) overflow)) (\<lambda>_.
    seqM (modM (put (i + 1))) (\<lambda>_.
    returnM i)))"

definition alloc_device_id :: "device_id meta_op" where
  "alloc_device_id = alloc_id u128_limit Panic mi_next_device_id (\<lambda>i m. m\<lparr>mi_next_device_id := i\<rparr>)"

definition reserve_device_id_at_least_after :: "device_id \<Rightarrow> unit meta_op" where
  "reserve_device_id_at_least_after device_id =
    seqM (getM mi_next_device_id) (\<lambda>n.
    if n \<le> device_id then
      seqM (liftM (ok_or (checked_add_u128 device_id 1) conflict)) (\<lambda>i.
      modM (\<lambda>m. m\<lparr>mi_next_device_id := i\<rparr>))
    else returnM ())"

definition alloc_keyspace_id :: "keyspace_id meta_op" where
  "alloc_keyspace_id = alloc_id u128_limit Panic mi_next_keyspace_id (\<lambda>i m. m\<lparr>mi_next_keyspace_id := i\<rparr>)"

definition reserve_keyspace_id_at_least_after :: "keyspace_id \<Rightarrow> unit meta_op" where
  "reserve_keyspace_id_at_least_after keyspace_id =
    seqM (getM mi_next_keyspace_id) (\<lambda>n.
    if n \<le> keyspace_id then
      seqM (liftM (ok_or (checked_add_u128 keyspace_id 1) conflict)) (\<lambda>i.
      modM (\<lambda>m. m\<lparr>mi_next_keyspace_id := i\<rparr>))
    else returnM ())"

definition alloc_file_id :: "file_id meta_op" where
  "alloc_file_id = alloc_id u128_limit Panic mi_next_file_id (\<lambda>i m. m\<lparr>mi_next_file_id := i\<rparr>)"

definition alloc_metadata_node_id :: "metadata_node_id meta_op" where
  "alloc_metadata_node_id =
    alloc_id u128_limit Panic mi_next_metadata_node_id (\<lambda>i m. m\<lparr>mi_next_metadata_node_id := i\<rparr>)"

definition alloc_keyspace_root_id :: "keyspace_root_id meta_op" where
  "alloc_keyspace_root_id =
    alloc_id u128_limit Panic mi_next_keyspace_root_id (\<lambda>i m. m\<lparr>mi_next_keyspace_root_id := i\<rparr>)"

definition alloc_keyspace_catalog_shard_id :: "keyspace_catalog_shard_id meta_op" where
  "alloc_keyspace_catalog_shard_id =
    alloc_id u128_limit Panic mi_next_keyspace_catalog_shard_id
      (\<lambda>i m. m\<lparr>mi_next_keyspace_catalog_shard_id := i\<rparr>)"

definition alloc_commit_group_id :: "commit_group_id meta_op" where
  "alloc_commit_group_id =
    alloc_id u128_limit Panic mi_next_commit_group_id (\<lambda>i m. m\<lparr>mi_next_commit_group_id := i\<rparr>)"

definition alloc_commit_seq :: "commit_seq meta_op" where
  "alloc_commit_seq = alloc_id u64_limit conflict mi_next_commit_seq (\<lambda>i m. m\<lparr>mi_next_commit_seq := i\<rparr>)"

definition alloc_checkpoint_id :: "checkpoint_id meta_op" where
  "alloc_checkpoint_id =
    alloc_id u128_limit Panic mi_next_checkpoint_id (\<lambda>i m. m\<lparr>mi_next_checkpoint_id := i\<rparr>)"

definition alloc_gc_epoch :: "nat meta_op" where
  "alloc_gc_epoch = alloc_id u64_limit conflict mi_next_gc_epoch (\<lambda>i m. m\<lparr>mi_next_gc_epoch := i\<rparr>)"

definition insert_checkpoint :: "mapping_owner \<Rightarrow> commit_seq \<Rightarrow> checkpoint_roots \<Rightarrow> checkpoint_id meta_op" where
  "insert_checkpoint owner commit_seq roots =
    seqM alloc_checkpoint_id (\<lambda>checkpoint_id.
    seqM (modM (\<lambda>m. m\<lparr>mi_checkpoints := bt_insert checkpoint_id
      \<lparr>cp_checkpoint_id = checkpoint_id, cp_commit_seq = commit_seq, cp_time = commit_seq,
       cp_owner = owner, cp_roots = roots\<rparr> (mi_checkpoints m)\<rparr>)) (\<lambda>_.
    returnM checkpoint_id))"

lemma alloc_id_Inr [simp, state_rules]:
  "alloc_id limit e get put m = (Inr i, m') \<longleftrightarrow> i = get m \<and> i + 1 < limit \<and> m' = put (i + 1) m"
  by (auto simp: alloc_id_def)

lemma alloc_id_Inl [simp, state_rules]:
  "alloc_id limit e get put m = (Inl x, m') \<longleftrightarrow> limit \<le> get m + 1 \<and> x = e \<and> m' = m"
  by (auto simp: alloc_id_def seqM_Inl_iff)

lemmas alloc_defs = alloc_device_id_def alloc_keyspace_id_def alloc_file_id_def alloc_metadata_node_id_def
  alloc_keyspace_root_id_def alloc_keyspace_catalog_shard_id_def alloc_commit_group_id_def
  alloc_commit_seq_def alloc_checkpoint_id_def alloc_gc_epoch_def

section \<open>Empty trees\<close>

text \<open>
  The tree of a new device shard or file: leaves of at most \<^verbatim>\<open>metadata_leaf_blocks\<close> blocks under
  internal nodes that divide their range evenly among \<^verbatim>\<open>metadata_fanout\<close> children.  The recursion
  is given fuel; a validated configuration has a fanout of at least two, so each level covers
  strictly fewer blocks and \<open>Suc\<close> of the block count is enough.
\<close>

definition insert_new_node :: "block_range \<Rightarrow> metadata_node_kind \<Rightarrow> metadata_node meta_op" where
  "insert_new_node r kind =
    seqM alloc_metadata_node_id (\<lambda>node_id.
    let node = \<lparr>mn_node_id = node_id, mn_covered_range = r, mn_kind = kind\<rparr> in
    seqM (liftM (validate_node node [])) (\<lambda>_.
    seqM (modM (\<lambda>m. m\<lparr>mi_metadata_nodes := bt_insert node_id node (mi_metadata_nodes m)\<rparr>)) (\<lambda>_.
    returnM node)))"

primrec create_empty_tree_fuel :: "nat \<Rightarrow> local_store_config \<Rightarrow> block_range \<Rightarrow> metadata_node meta_op" where
  "create_empty_tree_fuel 0 cfg r = failM Diverge"
| "create_empty_tree_fuel (Suc fuel) cfg r =
    seqM (liftM (validate_non_empty r)) (\<lambda>_.
    if range_blocks r \<le> cfg_metadata_leaf_blocks cfg then
      insert_new_node r (Leaf [] [])
    else
      let child_count = min (cfg_metadata_fanout cfg) (range_blocks r) in
      seqM (foldM (\<lambda>children i.
          seqM (liftM (ok_or (checked_mul_u64 (range_blocks r) i) invalid_argument)) (\<lambda>a.
          seqM (liftM (ok_or (checked_mul_u64 (range_blocks r) (i + 1)) invalid_argument)) (\<lambda>b.
          let child_start_offset = a div child_count; child_end_offset = b div child_count in
          seqM (liftM (ok_or (checked_add_u64 (range_start r) child_start_offset) invalid_argument)) (\<lambda>child_start.
          let child_range = mk_range child_start (child_end_offset - child_start_offset) in
          seqM (create_empty_tree_fuel fuel cfg child_range) (\<lambda>child.
          returnM (children @ [\<lparr>mc_range = child_range, mc_node_id = mn_node_id child\<rparr>]))))))
        [] [0..<child_count]) (\<lambda>children.
      insert_new_node r (Internal children)))"

definition create_empty_tree :: "local_store_config \<Rightarrow> block_range \<Rightarrow> metadata_node meta_op" where
  "create_empty_tree cfg r = create_empty_tree_fuel (Suc (range_blocks r)) cfg r"

section \<open>Lookups\<close>

definition next_generation :: "device_generation \<Rightarrow> device_generation result" where
  "next_generation g = ok_or (checked_add_u64 g 1) conflict"

definition next_keyspace_generation :: "keyspace_generation \<Rightarrow> keyspace_generation result" where
  "next_keyspace_generation g = ok_or (checked_add_u64 g 1) conflict"

definition next_file_version :: "file_version \<Rightarrow> file_version result" where
  "next_file_version v = ok_or (checked_add_u64 v 1) conflict"

primrec checkpoint_roots_block :: "checkpoint_roots \<Rightarrow> metadata_node_id list result" where
  "checkpoint_roots_block (CP_BlockShard roots) = Inr roots"
| "checkpoint_roots_block (CP_NativeKeyspace root) = Inl invalid_argument"

definition checkpoint_block_roots :: "checkpoint \<Rightarrow> metadata_node_id list result" where
  "checkpoint_block_roots c = checkpoint_roots_block (cp_roots c)"

primrec checkpoint_roots_keyspace :: "checkpoint_roots \<Rightarrow> keyspace_root_id result" where
  "checkpoint_roots_keyspace (CP_BlockShard roots) = Inl invalid_argument"
| "checkpoint_roots_keyspace (CP_NativeKeyspace root) = Inr root"

definition checkpoint_keyspace_root :: "checkpoint \<Rightarrow> keyspace_root_id result" where
  "checkpoint_keyspace_root c = checkpoint_roots_keyspace (cp_roots c)"

definition keyspace_root_locked :: "metadata_inner \<Rightarrow> keyspace_root_id \<Rightarrow> keyspace_root result" where
  "keyspace_root_locked m root_id = ok_or (bt_get (mi_keyspace_roots m) root_id) (not_found K_keyspace_root)"

definition keyspace_catalog_shard_locked ::
  "metadata_inner \<Rightarrow> keyspace_catalog_shard_id \<Rightarrow> keyspace_catalog_shard result" where
  "keyspace_catalog_shard_locked m shard_id =
    ok_or (bt_get (mi_keyspace_catalog_shards m) shard_id) (not_found K_keyspace_catalog_shard)"

definition keyspace_catalog_shard_index_for_len :: "file_id \<Rightarrow> nat \<Rightarrow> nat result" where
  "keyspace_catalog_shard_index_for_len file_id shard_count =
    (if shard_count = 0 then Inl corrupt else Inr (file_id mod shard_count))"

definition keyspace_file_in_shards_locked ::
  "metadata_inner \<Rightarrow> keyspace_catalog_shard_id list \<Rightarrow> file_id \<Rightarrow> keyspace_file result" where
  "keyspace_file_in_shards_locked m shard_roots file_id =
    andThen (keyspace_catalog_shard_index_for_len file_id (length shard_roots)) (\<lambda>shard_index.
    andThen (keyspace_catalog_shard_locked m (shard_roots ! shard_index)) (\<lambda>shard.
    ok_or (bt_get (cs_files shard) file_id) (not_found K_file)))"

definition file_head_locked :: "metadata_inner \<Rightarrow> keyspace_id \<Rightarrow> file_id \<Rightarrow> file_head result" where
  "file_head_locked m keyspace_id file_id =
    andThen (ok_or (bt_get (mi_keyspace_heads m) keyspace_id) (not_found K_keyspace)) (\<lambda>head.
    andThen (keyspace_file_in_shards_locked m (kh_shard_roots head) file_id) (\<lambda>entry.
    Inr (kf_head entry)))"

definition insert_keyspace_catalog_shard_locked ::
  "(file_id, keyspace_file) btree \<Rightarrow> keyspace_catalog_shard meta_op" where
  "insert_keyspace_catalog_shard_locked files =
    seqM alloc_keyspace_catalog_shard_id (\<lambda>shard_id.
    let shard = \<lparr>cs_shard_id = shard_id, cs_files = files\<rparr> in
    seqM (liftM (validate_catalog_shard shard)) (\<lambda>_.
    seqM (modM (\<lambda>m. m\<lparr>mi_keyspace_catalog_shards := bt_insert shard_id shard (mi_keyspace_catalog_shards m)\<rparr>)) (\<lambda>_.
    returnM shard)))"

definition insert_keyspace_root_locked :: "keyspace_catalog_shard_id list \<Rightarrow> nat \<Rightarrow> keyspace_root meta_op" where
  "insert_keyspace_root_locked shard_roots file_count =
    seqM alloc_keyspace_root_id (\<lambda>root_id.
    let root = \<lparr>kr_root_id = root_id, kr_shard_roots = shard_roots, kr_file_count = file_count\<rparr> in
    seqM (liftM (validate_keyspace_root root)) (\<lambda>_.
    seqM (modM (\<lambda>m. m\<lparr>mi_keyspace_roots := bt_insert root_id root (mi_keyspace_roots m)\<rparr>)) (\<lambda>_.
    returnM root)))"

definition insert_empty_keyspace_root_locked :: "keyspace_root meta_op" where
  "insert_empty_keyspace_root_locked =
    seqM (mapM (\<lambda>_. insert_keyspace_catalog_shard_locked []) [0..<KEYSPACE_CATALOG_SHARD_COUNT]) (\<lambda>shards.
    insert_keyspace_root_locked (map cs_shard_id shards) 0)"

definition update_keyspace_file_locked ::
  "keyspace_catalog_shard_id list \<Rightarrow> nat \<Rightarrow> file_id \<Rightarrow> keyspace_file
    \<Rightarrow> (nat \<times> keyspace_catalog_shard_id \<times> keyspace_catalog_shard \<times> nat) meta_op" where
  "update_keyspace_file_locked shard_roots file_count file_id entry =
    seqM (liftM (keyspace_catalog_shard_index_for_len file_id (length shard_roots))) (\<lambda>shard_index.
    let shard_id = shard_roots ! shard_index in
    seqM (askM (\<lambda>m. keyspace_catalog_shard_locked m shard_id)) (\<lambda>shard.
    let replaced = bt_has (cs_files shard) file_id in
    seqM (insert_keyspace_catalog_shard_locked (bt_insert file_id entry (cs_files shard))) (\<lambda>new_shard.
    seqM (if replaced then returnM file_count
          else liftM (ok_or (checked_add_u64 file_count 1) conflict)) (\<lambda>new_file_count.
    returnM (shard_index, shard_id, new_shard, new_file_count)))))"

definition collect_keyspace_shard_metadata_roots_locked ::
  "metadata_inner \<Rightarrow> keyspace_catalog_shard_id \<Rightarrow> metadata_node_id list result" where
  "collect_keyspace_shard_metadata_roots_locked m shard_id =
    andThen (keyspace_catalog_shard_locked m shard_id) (\<lambda>shard.
    Inr (map (\<lambda>entry. fh_root (kf_head entry)) (bt_values (cs_files shard))))"

definition collect_keyspace_metadata_roots_locked ::
  "metadata_inner \<Rightarrow> keyspace_root_id \<Rightarrow> metadata_node_id list result" where
  "collect_keyspace_metadata_roots_locked m root_id =
    andThen (keyspace_root_locked m root_id) (\<lambda>root.
    andThen (mapR (collect_keyspace_shard_metadata_roots_locked m) (kr_shard_roots root)) (\<lambda>rootss.
    Inr (concat rootss)))"

end
