(* ===== verification/Timeline.thy ===== *)
theory Timeline
  imports Prelude "HOL-Library.Multiset" "HOL-Library.Product_Lexorder"
begin

text \<open>
  Timelines of commits, apart from what is committed.

  The metadata plane keeps, for every device and every keyspace, checkpoints and a log of commits;
  a past state is recomputed by starting from a checkpoint and applying the commits after it.  The
  locales below say what makes such a log trustworthy, and what appending to it and trimming it do
  to the states it yields.  \<open>H s\<close> is the state right after sequence number \<open>s\<close>.
\<close>

section \<open>Sorting an extended log\<close>

lemma sort_key_append_le:
  assumes "\<forall>x\<in>set xs. \<forall>y\<in>set ys. f x < f y"
  shows "sort_key f (xs @ ys) = sort_key f xs @ sort_key f ys"
proof (rule properties_for_sort_key)
  fix k
  show "filter (\<lambda>x. f k = f x) (sort_key f xs @ sort_key f ys) = filter (\<lambda>x. f k = f x) (xs @ ys)"
    using sort_key_stable [of f "f k" xs] sort_key_stable [of f "f k" ys] by (simp add: eq_commute)
  show "sorted (map f (sort_key f xs @ sort_key f ys))"
    using assms by (auto simp: sorted_append intro: less_imp_le)
qed simp

lemma sort_key_sorted_id: "sorted (map f xs) \<Longrightarrow> sort_key f xs = xs"
  by (rule properties_for_sort_key) auto

section \<open>Histories\<close>

locale timeline =
  fixes seq :: "'c \<Rightarrow> nat" and step :: "'s \<Rightarrow> 'c \<Rightarrow> 'e + 's"
begin

definition between :: "nat \<Rightarrow> nat \<Rightarrow> 'c list \<Rightarrow> 'c list" where
  "between a b cs = filter (\<lambda>c. a < seq c \<and> seq c \<le> b) cs"

text \<open>The log turns the state at every point not before \<open>lo\<close> into the state at every later point.\<close>

definition history :: "'c list \<Rightarrow> nat \<Rightarrow> (nat \<Rightarrow> 's) \<Rightarrow> bool" where
  "history cs lo H \<longleftrightarrow> (\<forall>a b. lo \<le> a \<longrightarrow> a \<le> b \<longrightarrow> foldR step (H a) (between a b cs) = Inr (H b))"

lemma history_D: "history cs lo H \<Longrightarrow> lo \<le> a \<Longrightarrow> a \<le> b \<Longrightarrow> foldR step (H a) (between a b cs) = Inr (H b)"
  by (simp add: history_def)

lemma history_const: "(\<And>c. c \<in> set cs \<Longrightarrow> seq c \<le> lo) \<Longrightarrow> (\<And>s. lo \<le> s \<Longrightarrow> H s = R) \<Longrightarrow> history cs lo H"
  unfolding history_def between_def
  by (intro allI impI) (subst filter_False, force, simp)

lemma history_append:
  assumes "history cs lo H" "\<forall>c\<in>set cs. seq c < n" "\<forall>c\<in>set new. seq c = n"
    and "t < n" "\<And>s. t \<le> s \<Longrightarrow> H s = R" "foldR step R new = Inr R'" "lo < n"
  shows "history (cs @ new) lo (\<lambda>s. if s < n then H s else R')"
  unfolding history_def
proof (intro allI impI)
  fix a b
  assume ab: "lo \<le> a" "a \<le> b"
  consider "b < n" | "a < n" "n \<le> b" | "n \<le> a"
    using ab by linarith
  then show "foldR step (if a < n then H a else R') (between a b (cs @ new)) = Inr (if b < n then H b else R')"
  proof cases
    case 1
    then have "between a b (cs @ new) = between a b cs"
      using assms(3) by (auto simp: between_def filter_empty_conv)
    with 1 ab history_D [OF assms(1) ab] show ?thesis
      by simp
  next
    case 2
    have "filter (\<lambda>c. a < seq c \<and> seq c \<le> b) cs = filter (\<lambda>c. a < seq c \<and> seq c \<le> n - 1) cs"
      by (rule filter_cong) (use assms(2) 2 in force)+
    moreover have "filter (\<lambda>c. a < seq c \<and> seq c \<le> b) new = new"
      using assms(3) 2 by (simp add: filter_id_conv)
    ultimately have "between a b (cs @ new) = between a (n - 1) cs @ new"
      by (simp add: between_def)
    moreover have "foldR step (H a) (between a (n - 1) cs) = Inr R"
      using history_D [OF assms(1) ab(1), of "n - 1"] assms(5) [of "n - 1"] assms(4) 2 by simp
    ultimately show ?thesis
      using 2 assms(6) by (simp add: foldR_append)
  next
    case 3
    then have "between a b (cs @ new) = []"
      using assms(2,3) by (fastforce simp: between_def filter_empty_conv)
    with 3 ab show ?thesis
      by simp
  qed
qed

text \<open>Forgetting the commits up to \<open>lo2\<close> keeps the states from \<open>lo2\<close> on.\<close>

lemma history_cut:
  assumes "history cs lo H" "lo \<le> lo2" "\<And>c. c \<in> set cs \<Longrightarrow> P c \<longleftrightarrow> lo2 < seq c"
  shows "history (filter P cs) lo2 H"
  unfolding history_def
proof (intro allI impI)
  fix a b
  assume ab: "lo2 \<le> a" "a \<le> b"
  have "between a b (filter P cs) = between a b cs"
    unfolding between_def filter_filter by (rule filter_cong) (use assms(3) ab in auto)
  then show "foldR step (H a) (between a b (filter P cs)) = Inr (H b)"
    using history_D [OF assms(1) _ ab(2)] assms(2) ab(1) by simp
qed

text \<open>
  What a trustworthy timeline is: the log \<open>cs\<close> and the checkpoints \<open>cps\<close> agree on the states from
  \<open>lo\<close> on, every sequence number is below the next one to be given out, and from its last commit on
  the state is that of the head \<open>top_st\<close>.
\<close>

definition consistent ::
  "'c list \<Rightarrow> (nat \<times> 's option) set \<Rightarrow> (nat \<times> 's) option \<Rightarrow> nat \<Rightarrow> nat \<Rightarrow> (nat \<Rightarrow> 's) \<Rightarrow> bool" where
  "consistent cs cps top_st n lo H \<longleftrightarrow>
    history cs lo H \<and> (\<forall>c\<in>set cs. seq c < n)
    \<and> (\<forall>(q, st)\<in>cps. lo \<le> q \<and> q < n \<and> st = Some (H q))
    \<and> (case top_st of None \<Rightarrow> True | Some (t, R) \<Rightarrow> lo \<le> t \<and> t < n \<and> (\<forall>s\<ge>t. H s = R) \<and> (\<forall>(q, st)\<in>cps. q \<le> t))"

lemma consistent_start: "q < n \<Longrightarrow> consistent [] {(q, Some R)} (Some (q, R)) n q (\<lambda>_. R)"
  using history_const [of "[]" q "\<lambda>_. R" R] by (simp add: consistent_def)

lemma consistent_later: "consistent cs cps top_st n lo H \<Longrightarrow> n \<le> n' \<Longrightarrow> consistent cs cps top_st n' lo H"
  by (fastforce simp: consistent_def split: option.splits)

lemma consistent_checkpoint:
  "consistent cs cps top_st n lo H \<Longrightarrow> lo \<le> q \<Longrightarrow> q < n \<Longrightarrow> (\<And>t R. top_st = Some (t, R) \<Longrightarrow> q \<le> t) \<Longrightarrow> consistent cs (insert (q, Some (H q)) cps) top_st n lo H"
  by (auto simp: consistent_def split: option.splits)

lemma consistent_head: "consistent cs cps (Some (t, R)) n lo H \<Longrightarrow> t \<le> s \<Longrightarrow> H s = R"
  by (simp add: consistent_def)

lemma consistent_close:
  "consistent cs cps (Some (t, R)) n lo H \<Longrightarrow> consistent cs cps (Some (n, R)) (Suc n) lo H"
  by (fastforce simp: consistent_def)

lemma consistent_append:
  assumes "consistent cs cps (Some (t, R)) n lo H" "\<forall>c\<in>set new. seq c = n" "foldR step R new = Inr R'"
  shows "consistent (cs @ new) cps (Some (n, R')) (Suc n) lo (\<lambda>s. if s < n then H s else R')"
proof -
  have "history (cs @ new) lo (\<lambda>s. if s < n then H s else R')"
    by (rule history_append [where t = t and R = R]) (use assms in \<open>auto simp: consistent_def\<close>)
  moreover have "lo \<le> q \<and> q < n \<and> q \<le> n \<and> st = Some (H q)" if "(q, st) \<in> cps" for q st
    using assms(1) that by (auto simp: consistent_def)
  moreover have "seq c < Suc n" if "c \<in> set (cs @ new)" for c
    using assms(1,2) that by (auto simp: consistent_def)
  moreover have "lo \<le> n"
    using assms(1) by (simp add: consistent_def)
  ultimately show ?thesis
    unfolding consistent_def by (auto simp: less_Suc_eq)
qed

lemma consistent_replay:
  assumes "consistent cs cps top_st n lo H" "(q, st) \<in> cps" "q \<le> s"
  shows "st = Some (H q) \<and> foldR step (H q) (between q s cs) = Inr (H s)"
  using assms history_D [of cs lo H q s] by (auto simp: consistent_def)

text \<open>Trimming: the anchor's predecessors go, the states from the anchor on stay.\<close>

lemma consistent_cut:
  assumes "consistent cs cps top_st n lo H" "lo \<le> a" "case top_st of None \<Rightarrow> True | Some (t, R) \<Rightarrow> a \<le> t"
    and "cps' \<subseteq> {(q, st) \<in> cps. a \<le> q}" "\<And>c. c \<in> set cs \<Longrightarrow> P c \<longleftrightarrow> a < seq c"
  shows "consistent (filter P cs) cps' top_st n a H"
proof -
  have "history (filter P cs) a H"
    by (rule history_cut [OF _ assms(2,5)]) (use assms(1) in \<open>simp add: consistent_def\<close>)
  then show ?thesis
    using assms(1,3,4) unfolding consistent_def by (auto split: option.splits)
qed

lemma consistent_forget:
  assumes "consistent cs cps (Some (t, R)) n lo H"
  shows "consistent [] {} (Some (t, R)) n t H"
  using assms by (auto simp: consistent_def intro: history_const)

end

section \<open>Logs of slot updates\<close>

text \<open>
  The state is a list of slots; a commit replaces the value of one slot and names the value it
  replaces.  Applying it fails when the slot does not exist or holds another value.
\<close>

locale slot_log =
  fixes slot :: "'c \<Rightarrow> nat" and old :: "'c \<Rightarrow> 'v" and new :: "'c \<Rightarrow> 'v"
    and step :: "'v list \<Rightarrow> 'c \<Rightarrow> 'e + 'v list"
  assumes step_Inr: "step rs c = Inr rs' \<longleftrightarrow> slot c < length rs \<and> rs ! slot c = old c \<and> rs' = rs[slot c := new c]"
begin

primrec chain :: "'v \<Rightarrow> 'c list \<Rightarrow> 'v \<Rightarrow> bool" where
  "chain x [] y \<longleftrightarrow> x = y"
| "chain x (c # cs) y \<longleftrightarrow> old c = x \<and> chain (new c) cs y"

lemma fold_Inr:
  "foldR step rs cs = Inr rs' \<longleftrightarrow>
    (\<forall>c\<in>set cs. slot c < length rs) \<and> length rs' = length rs
    \<and> (\<forall>k<length rs. chain (rs ! k) (filter (\<lambda>c. slot c = k) cs) (rs' ! k))"
proof (induction cs arbitrary: rs)
  case Nil
  then show ?case
    by (auto simp: list_eq_iff_nth_eq)
next
  case (Cons c cs)
  show ?case
  proof (cases "slot c < length rs \<and> rs ! slot c = old c")
    case True
    then have "step rs c = Inr (rs[slot c := new c])"
      by (simp add: step_Inr)
    then show ?thesis
      using Cons.IH [of "rs[slot c := new c]"] True by (auto simp: nth_list_update)
  next
    case False
    then have "\<And>rs1. step rs c \<noteq> Inr rs1"
      by (auto simp: step_Inr)
    moreover have "\<not> ((\<forall>d\<in>set (c # cs). slot d < length rs) \<and> length rs' = length rs
        \<and> (\<forall>k<length rs. chain (rs ! k) (filter (\<lambda>d. slot d = k) (c # cs)) (rs' ! k)))"
    proof
      assume "(\<forall>d\<in>set (c # cs). slot d < length rs) \<and> length rs' = length rs
        \<and> (\<forall>k<length rs. chain (rs ! k) (filter (\<lambda>d. slot d = k) (c # cs)) (rs' ! k))"
      then have "slot c < length rs"
        "chain (rs ! slot c) (filter (\<lambda>d. slot d = slot c) (c # cs)) (rs' ! slot c)"
        by auto
      with False show False
        by simp
    qed
    ultimately show ?thesis
      by auto
  qed
qed

lemma fold_slots: "foldR step rs cs = Inr rs' \<Longrightarrow> x \<in> set rs' \<Longrightarrow> x \<in> set rs \<or> (\<exists>c\<in>set cs. x = new c)"
proof (induction cs arbitrary: rs)
  case (Cons c cs)
  then obtain rs1 where "step rs c = Inr rs1" "foldR step rs1 cs = Inr rs'"
    by auto
  with Cons.IH [of rs1] Cons.prems(2) show ?case
    by (auto simp: step_Inr dest: set_update_subset_insert [THEN subsetD])
qed simp

text \<open>The order of updates to different slots does not matter.\<close>

lemma fold_sort:
  assumes "foldR step rs cs = Inr rs'" "\<And>c d. c \<in> set cs \<Longrightarrow> d \<in> set cs \<Longrightarrow> slot c = slot d \<Longrightarrow> key c = key d"
  shows "foldR step rs (sort_key key cs) = Inr rs'"
proof -
  have "filter (\<lambda>c. slot c = k) (sort_key key cs) = filter (\<lambda>c. slot c = k) cs" for k
  proof -
    have "sorted (map key (filter (\<lambda>c. slot c = k) cs))"
    proof (cases "filter (\<lambda>c. slot c = k) cs")
      case (Cons c rest)
      have "c \<in> set (filter (\<lambda>c. slot c = k) cs)"
        unfolding Cons by simp
      then have c: "c \<in> set cs" "slot c = k"
        by simp_all
      have same: "key d = key c" if "d \<in> set (filter (\<lambda>c. slot c = k) cs)" for d
        by (rule assms(2) [OF _ c(1)]) (use that c(2) in simp_all)
      have "map key (filter (\<lambda>c. slot c = k) cs) = map (\<lambda>_. key c) (filter (\<lambda>c. slot c = k) cs)"
        unfolding map_eq_conv using same by blast
      moreover have "sorted (map (\<lambda>_. key c) ds)" for ds :: "'c list"
        by (induction ds) auto
      ultimately show ?thesis
        by (simp only:)
    qed simp
    then show ?thesis
      by (simp add: filter_sort sort_key_sorted_id)
  qed
  with assms(1) show ?thesis
    by (simp add: fold_Inr)
qed

end

end
