(* ===== verification/Metadata_Plane.thy ===== *)
theory Metadata_Plane
  imports Metadata_State Timeline
begin

text \<open>
  The operations of the metadata plane (\<^verbatim>\<open>local/metadata_plane.rs\<close>, \<^verbatim>\<open>impl MetadataPlane\<close>):
  devices, keyspaces and files are created, roots are published, owners are forked, snapshotted,
  restored and deleted, and checkpoints are taken.  The plane's mutex makes each one a single step
  on \<open>metadata_inner\<close>; a step that fails leaves the changes made before the failure.  Publish
  profiling only counts and is left out.
\<close>

section \<open>Requests\<close>

datatype metadata_fence =
    DeviceGeneration device_generation
  | FileVersion file_version
  | AppendStream append_stream_id writer_epoch

record commit_group_intent =
  ci_owner :: mapping_owner
  ci_fence :: metadata_fence
  ci_updates :: "root_update list"

record metadata_create_file_request =
  mf_keyspace_id :: keyspace_id
  mf_name :: "string option"

record metadata_fork_request =
  mk_source :: device_id
  mk_target :: "device_id option"
  mk_name :: "string option"

record metadata_snapshot_keyspace_request =
  ms_source :: keyspace_id
  ms_target :: "keyspace_id option"
  ms_name :: "string option"

record metadata_node_write =
  mw_node :: metadata_node
  mw_segment_receipts :: "verified_segment_receipt list"

definition segment_descriptors :: "metadata_node_write \<Rightarrow> segment_descriptor list" where
  "segment_descriptors w = map vr_descriptor (mw_segment_receipts w)"

section \<open>Timelines of devices\<close>

definition shard_commits_for_device_locked :: "metadata_inner \<Rightarrow> device_id \<Rightarrow> shard_commit list" where
  "shard_commits_for_device_locked m device_id =
    sort_key (\<lambda>c. (sc_commit_seq c, sc_shard_id c)) (filter (\<lambda>c. sc_device_id c = device_id) (mi_shard_commits m))"

definition latest_device_checkpoint_at_or_before_locked ::
  "metadata_inner \<Rightarrow> device_id \<Rightarrow> commit_seq \<Rightarrow> checkpoint_id option \<Rightarrow> checkpoint option" where
  "latest_device_checkpoint_at_or_before_locked m device_id commit_seq excluded =
    max_by_key cp_commit_seq
      (filter (\<lambda>c. cp_owner c = BlockDevice device_id \<and> cp_commit_seq c \<le> commit_seq
          \<and> Some (cp_checkpoint_id c) \<noteq> excluded) (bt_values (mi_checkpoints m)))"

definition replay_shard_commit :: "metadata_node_id list \<Rightarrow> shard_commit \<Rightarrow> metadata_node_id list result" where
  "replay_shard_commit roots c =
    andThen (ensure (sc_shard_id c < length roots) corrupt) (\<lambda>_.
    andThen (ensure (roots ! sc_shard_id c = sc_old_root c) corrupt) (\<lambda>_.
    Inr (roots[sc_shard_id c := sc_new_root c])))"

definition replay_device_roots_locked ::
  "metadata_inner \<Rightarrow> device_id \<Rightarrow> commit_seq \<Rightarrow> checkpoint_id option \<Rightarrow> metadata_node_id list result" where
  "replay_device_roots_locked m device_id commit_seq excluded =
    andThen (ok_or (latest_device_checkpoint_at_or_before_locked m device_id commit_seq excluded)
      (not_found K_checkpoint)) (\<lambda>checkpoint.
    andThen (checkpoint_block_roots checkpoint) (\<lambda>roots.
    foldR replay_shard_commit roots
      (filter (\<lambda>c. cp_commit_seq checkpoint < sc_commit_seq c \<and> sc_commit_seq c \<le> commit_seq)
        (shard_commits_for_device_locked m device_id))))"

section \<open>Timelines of keyspaces\<close>

definition keyspace_commits_for_keyspace_locked :: "metadata_inner \<Rightarrow> keyspace_id \<Rightarrow> keyspace_commit list" where
  "keyspace_commits_for_keyspace_locked m keyspace_id =
    sort_key kc_commit_seq (filter (\<lambda>c. kc_keyspace_id c = keyspace_id) (mi_keyspace_commits m))"

definition latest_keyspace_checkpoint_at_or_before_locked ::
  "metadata_inner \<Rightarrow> keyspace_id \<Rightarrow> commit_seq \<Rightarrow> checkpoint_id option \<Rightarrow> checkpoint option" where
  "latest_keyspace_checkpoint_at_or_before_locked m keyspace_id commit_seq excluded =
    max_by_key cp_commit_seq
      (filter (\<lambda>c. cp_owner c = NativeKeyspace keyspace_id \<and> cp_commit_seq c \<le> commit_seq
          \<and> Some (cp_checkpoint_id c) \<noteq> excluded) (bt_values (mi_checkpoints m)))"

definition replay_keyspace_commit ::
  "keyspace_catalog_shard_id list \<times> nat \<Rightarrow> keyspace_commit \<Rightarrow> (keyspace_catalog_shard_id list \<times> nat) result" where
  "replay_keyspace_commit st c =
    andThen (ensure (kc_shard_index c < length (fst st)) corrupt) (\<lambda>_.
    andThen (ensure (fst st ! kc_shard_index c = kc_old_shard c \<and> snd st = kc_old_file_count c) corrupt) (\<lambda>_.
    Inr ((fst st)[kc_shard_index c := kc_new_shard c], kc_new_file_count c)))"

definition replay_keyspace_root_locked ::
  "metadata_inner \<Rightarrow> keyspace_id \<Rightarrow> commit_seq \<Rightarrow> checkpoint_id option \<Rightarrow> keyspace_root result" where
  "replay_keyspace_root_locked m keyspace_id commit_seq excluded =
    andThen (ok_or (latest_keyspace_checkpoint_at_or_before_locked m keyspace_id commit_seq excluded)
      (not_found K_checkpoint)) (\<lambda>checkpoint.
    andThen (checkpoint_keyspace_root checkpoint) (\<lambda>checkpoint_root_id.
    andThen (keyspace_root_locked m checkpoint_root_id) (\<lambda>checkpoint_root.
    andThen (foldR replay_keyspace_commit (kr_shard_roots checkpoint_root, kr_file_count checkpoint_root)
      (filter (\<lambda>c. cp_commit_seq checkpoint < kc_commit_seq c \<and> kc_commit_seq c \<le> commit_seq)
        (keyspace_commits_for_keyspace_locked m keyspace_id))) (\<lambda>st.
    Inr \<lparr>kr_root_id = checkpoint_root_id, kr_shard_roots = fst st, kr_file_count = snd st\<rparr>))))"

section \<open>Restore points\<close>

definition validate_checkpoint_root_shape_locked ::
  "metadata_inner \<Rightarrow> device_id \<Rightarrow> metadata_node_id list \<Rightarrow> nat \<Rightarrow> unit result" where
  "validate_checkpoint_root_shape_locked m device_id shard_roots expected_shard_count =
    andThen (ensure (bt_has (mi_device_specs m) device_id) (not_found K_device)) (\<lambda>_.
    andThen (ensure (length shard_roots = expected_shard_count) corrupt) (\<lambda>_.
    forR (\<lambda>root. ensure (bt_has (mi_metadata_nodes m) root) (not_found K_metadata_node)) shard_roots))"

definition device_timeline_contains_commit_locked :: "metadata_inner \<Rightarrow> device_id \<Rightarrow> commit_seq \<Rightarrow> bool" where
  "device_timeline_contains_commit_locked m device_id commit_seq =
    (list_ex (\<lambda>c. cp_owner c = BlockDevice device_id \<and> cp_commit_seq c = commit_seq) (bt_values (mi_checkpoints m))
    \<or> list_ex (\<lambda>c. sc_device_id c = device_id \<and> sc_commit_seq c = commit_seq) (mi_shard_commits m))"

definition restore_time_candidates :: "metadata_inner \<Rightarrow> device_id \<Rightarrow> logical_time \<Rightarrow> (commit_seq \<times> bool) list" where
  "restore_time_candidates m device_id time =
    map (\<lambda>c. (cp_commit_seq c, False))
      (filter (\<lambda>c. cp_owner c = BlockDevice device_id \<and> cp_time c \<le> time) (bt_values (mi_checkpoints m)))
    @ map (\<lambda>c. (sc_commit_seq c, False))
      (filter (\<lambda>c. sc_device_id c = device_id \<and> sc_time c \<le> time) (mi_shard_commits m))
    @ map (\<lambda>r. (dr_commit_seq r, True))
      (filter (\<lambda>r. dr_device_id r = device_id \<and> dr_time r \<le> time) (bt_values (mi_delete_records m)))"

primrec target_commit_for_restore_locked ::
  "metadata_inner \<Rightarrow> device_id \<Rightarrow> restore_point \<Rightarrow> commit_seq result" where
  "target_commit_for_restore_locked m device_id (At_Commit commit_seq) =
    andThen (ensure (device_timeline_contains_commit_locked m device_id commit_seq) (not_found K_commit)) (\<lambda>_.
    Inr commit_seq)"
| "target_commit_for_restore_locked m device_id (At_Checkpoint checkpoint_id) =
    andThen (ok_or (bt_get (mi_checkpoints m) checkpoint_id) (not_found K_checkpoint)) (\<lambda>checkpoint.
    andThen (ensure (cp_owner checkpoint = BlockDevice device_id) invalid_argument) (\<lambda>_.
    Inr (cp_commit_seq checkpoint)))"
| "target_commit_for_restore_locked m device_id (At_Time time) =
    andThen (ok_or (max_by_key (\<lambda>c. c) (restore_time_candidates m device_id time)) (not_found K_restore_time)) (\<lambda>best.
    andThen (ensure (\<not> snd best) (not_found K_restore_time)) (\<lambda>_.
    Inr (fst best)))"

definition keyspace_timeline_contains_commit_locked :: "metadata_inner \<Rightarrow> keyspace_id \<Rightarrow> commit_seq \<Rightarrow> bool" where
  "keyspace_timeline_contains_commit_locked m keyspace_id commit_seq =
    (list_ex (\<lambda>c. cp_owner c = NativeKeyspace keyspace_id \<and> cp_commit_seq c = commit_seq)
      (bt_values (mi_checkpoints m))
    \<or> list_ex (\<lambda>c. kc_keyspace_id c = keyspace_id \<and> kc_commit_seq c = commit_seq) (mi_keyspace_commits m))"

primrec target_commit_for_keyspace_restore_locked ::
  "metadata_inner \<Rightarrow> keyspace_id \<Rightarrow> restore_point \<Rightarrow> commit_seq result" where
  "target_commit_for_keyspace_restore_locked m keyspace_id (At_Commit commit_seq) =
    andThen (ensure (keyspace_timeline_contains_commit_locked m keyspace_id commit_seq) (not_found K_commit)) (\<lambda>_.
    Inr commit_seq)"
| "target_commit_for_keyspace_restore_locked m keyspace_id (At_Checkpoint checkpoint_id) =
    andThen (ok_or (bt_get (mi_checkpoints m) checkpoint_id) (not_found K_checkpoint)) (\<lambda>checkpoint.
    andThen (ensure (cp_owner checkpoint = NativeKeyspace keyspace_id) invalid_argument) (\<lambda>_.
    Inr (cp_commit_seq checkpoint)))"
| "target_commit_for_keyspace_restore_locked m keyspace_id (At_Time time) =
    ok_or (max_by_key (\<lambda>c. c)
      (map cp_commit_seq (filter (\<lambda>c. cp_owner c = NativeKeyspace keyspace_id \<and> cp_time c \<le> time)
          (bt_values (mi_checkpoints m)))
       @ map kc_commit_seq (filter (\<lambda>c. kc_keyspace_id c = keyspace_id \<and> kc_time c \<le> time)
          (mi_keyspace_commits m)))) (not_found K_restore_time)"

section \<open>Creating owners\<close>

definition create_shard_root ::
  "local_store_config \<Rightarrow> device_spec \<Rightarrow> metadata_node_id list \<Rightarrow> nat \<Rightarrow> metadata_node_id list meta_op" where
  "create_shard_root cfg spec shard_roots shard =
    seqM (liftM (ok_or (checked_mul_u64 (logical_blocks spec) shard) invalid_argument)) (\<lambda>a.
    seqM (liftM (ok_or (checked_mul_u64 (logical_blocks spec) (shard + 1)) invalid_argument)) (\<lambda>b.
    let start = a div cfg_shard_count cfg; stop = b div cfg_shard_count cfg in
    seqM (create_empty_tree cfg (mk_range start (stop - start))) (\<lambda>node.
    returnM (shard_roots @ [mn_node_id node]))))"

definition create_device :: "local_store_config \<Rightarrow> device_spec \<Rightarrow> device_head meta_op" where
  "create_device cfg spec =
    seqM (liftM (validate_config cfg)) (\<lambda>_.
    seqM (liftM (validate_spec spec)) (\<lambda>_.
    let shard_count = cfg_shard_count cfg in
    seqM (liftM (ensure (\<not> logical_blocks spec < shard_count) invalid_argument)) (\<lambda>_.
    seqM alloc_device_id (\<lambda>device_id.
    seqM (foldM (create_shard_root cfg spec) [] [0..<shard_count]) (\<lambda>shard_roots.
    let head = \<lparr>dh_device_id = device_id, dh_generation = 0, dh_shard_roots = shard_roots, dh_latest_commit = 0\<rparr> in
    seqM (liftM (validate_device_head head shard_count)) (\<lambda>_.
    seqM (modM (\<lambda>m. m\<lparr>mi_device_specs := bt_insert device_id spec (mi_device_specs m)\<rparr>)) (\<lambda>_.
    seqM (modM (\<lambda>m. m\<lparr>mi_device_heads := bt_insert device_id head (mi_device_heads m)\<rparr>)) (\<lambda>_.
    seqM (insert_checkpoint (BlockDevice device_id) 0 (CP_BlockShard shard_roots)) (\<lambda>_.
    returnM head)))))))))"

definition create_keyspace :: "local_store_config \<Rightarrow> keyspace_head meta_op" where
  "create_keyspace cfg =
    seqM (liftM (validate_config cfg)) (\<lambda>_.
    seqM alloc_keyspace_id (\<lambda>keyspace_id.
    seqM insert_empty_keyspace_root_locked (\<lambda>root.
    let head = \<lparr>kh_keyspace_id = keyspace_id, kh_generation = 0, kh_shard_roots = kr_shard_roots root,
                kh_file_count = kr_file_count root, kh_latest_commit = 0\<rparr> in
    seqM (modM (\<lambda>m. m\<lparr>mi_keyspace_heads := bt_insert keyspace_id head (mi_keyspace_heads m)\<rparr>)) (\<lambda>_.
    seqM (insert_checkpoint (NativeKeyspace keyspace_id) 0 (CP_NativeKeyspace (kr_root_id root))) (\<lambda>_.
    returnM head)))))"

definition get_keyspace_head :: "metadata_inner \<Rightarrow> keyspace_id \<Rightarrow> keyspace_head result" where
  "get_keyspace_head m keyspace_id = ok_or (bt_get (mi_keyspace_heads m) keyspace_id) (not_found K_keyspace)"

text \<open>
  The tail shared by creating a file and publishing one: the catalog shard of the file is rewritten
  and the keyspace head moves to it, together with the commit records.
\<close>

definition advance_keyspace ::
  "keyspace_id \<Rightarrow> keyspace_head \<Rightarrow> commit_seq \<Rightarrow> commit_group_id \<Rightarrow> file_id \<Rightarrow> keyspace_file
    \<Rightarrow> (metadata_inner \<Rightarrow> metadata_inner) \<Rightarrow> file_commit \<Rightarrow> unit meta_op" where
  "advance_keyspace keyspace_id current commit_seq commit_group_id file_id entry with_head file_commit =
    seqM (update_keyspace_file_locked (kh_shard_roots current) (kh_file_count current) file_id entry)
      (\<lambda>(shard_index, old_shard, new_shard, new_file_count).
    seqM (liftM (next_keyspace_generation (kh_generation current))) (\<lambda>generation.
    let next = current\<lparr>kh_generation := generation, kh_latest_commit := commit_seq,
      kh_shard_roots := (kh_shard_roots current)[shard_index := cs_shard_id new_shard],
      kh_file_count := new_file_count\<rparr> in
    seqM (modM with_head) (\<lambda>_.
    seqM (modM (\<lambda>m. m\<lparr>mi_keyspace_heads := bt_insert keyspace_id next (mi_keyspace_heads m)\<rparr>)) (\<lambda>_.
    seqM (liftM (ensure (shard_index < 2 ^ 32) invalid_argument)) (\<lambda>_.
    modM (\<lambda>m. m\<lparr>
      mi_keyspace_commits := mi_keyspace_commits m @
        [\<lparr>kc_commit_seq = commit_seq, kc_commit_group = commit_group_id, kc_time = commit_seq,
          kc_keyspace_id = keyspace_id, kc_shard_index = shard_index, kc_old_shard = old_shard,
          kc_new_shard = cs_shard_id new_shard, kc_old_file_count = kh_file_count current,
          kc_new_file_count = new_file_count\<rparr>],
      mi_file_commits := mi_file_commits m @ [file_commit]\<rparr>))))))"

definition create_file :: "local_store_config \<Rightarrow> metadata_create_file_request \<Rightarrow> file_head meta_op" where
  "create_file cfg request =
    seqM (liftM (validate_config cfg)) (\<lambda>_.
    seqM (askM (\<lambda>m. get_keyspace_head m (mf_keyspace_id request))) (\<lambda>keyspace_head.
    seqM alloc_file_id (\<lambda>file_id.
    seqM (create_empty_tree cfg (mk_range 0 (cfg_file_root_blocks cfg))) (\<lambda>root.
    seqM alloc_commit_seq (\<lambda>commit_seq.
    seqM alloc_commit_group_id (\<lambda>commit_group_id.
    let file_head = \<lparr>fh_file_id = file_id, fh_version = 0, fh_root = mn_node_id root, fh_size = 0,
                     fh_latest_commit = commit_seq\<rparr> in
    seqM (liftM (validate_current file_head (mn_covered_range root) (cfg_block_size cfg))) (\<lambda>_.
    seqM (advance_keyspace (mf_keyspace_id request) keyspace_head commit_seq commit_group_id file_id
      \<lparr>kf_name = mf_name request, kf_head = file_head\<rparr>
      (\<lambda>m. m\<lparr>mi_file_writer_epochs := bt_insert (mf_keyspace_id request, file_id) 0 (mi_file_writer_epochs m)\<rparr>)
      \<lparr>fc_commit_seq = commit_seq, fc_commit_group = commit_group_id, fc_time = commit_seq,
       fc_keyspace_id = mf_keyspace_id request, fc_file_id = file_id, fc_old_root = None,
       fc_new_root = mn_node_id root, fc_old_version = None, fc_new_version = 0,
       fc_old_size = 0, fc_new_size = 0\<rparr>) (\<lambda>_.
    seqM (modM (\<lambda>m. m\<lparr>mi_commit_groups := bt_insert commit_group_id
      \<lparr>cg_commit_group = commit_group_id, cg_commit_seq = commit_seq, cg_owner = NativeKeyspace (mf_keyspace_id request),
       cg_updates = [FileCreated file_id (mn_node_id root) 0]\<rparr> (mi_commit_groups m)\<rparr>)) (\<lambda>_.
    returnM file_head)))))))))"

section \<open>Metadata nodes\<close>

definition allocate_metadata_node :: "block_range \<Rightarrow> metadata_node_kind \<Rightarrow> metadata_node meta_op" where
  "allocate_metadata_node covered_range kind =
    seqM alloc_metadata_node_id (\<lambda>node_id.
    returnM \<lparr>mn_node_id = node_id, mn_covered_range = covered_range, mn_kind = kind\<rparr>)"

definition persist_metadata_node :: "metadata_node_write \<Rightarrow> unit meta_op" where
  "persist_metadata_node write =
    seqM (liftM (validate_node (mw_node write) (segment_descriptors write))) (\<lambda>_.
    let node = mw_node write in
    seqM (getM (\<lambda>m. bt_get (mi_metadata_nodes m) (mn_node_id node))) (\<lambda>existing.
    case existing of
      Some e \<Rightarrow> liftM (ensure (e = node) conflict)
    | None \<Rightarrow> modM (\<lambda>m. m\<lparr>mi_metadata_nodes := bt_insert (mn_node_id node) node (mi_metadata_nodes m)\<rparr>)))"

definition get_metadata_node :: "metadata_inner \<Rightarrow> metadata_node_id \<Rightarrow> metadata_node result" where
  "get_metadata_node m node_id = ok_or (bt_get (mi_metadata_nodes m) node_id) (not_found K_metadata_node)"

definition get_head :: "metadata_inner \<Rightarrow> device_id \<Rightarrow> device_head result" where
  "get_head m device_id = ok_or (bt_get (mi_device_heads m) device_id) (not_found K_device)"

section \<open>Publishing\<close>

text \<open>One update of a block commit: the roots after it and the commits it adds.\<close>

definition publish_block_step ::
  "metadata_inner \<Rightarrow> metadata_node_id list \<times> (shard_id \<times> metadata_node_id \<times> metadata_node_id) list \<Rightarrow> root_update
    \<Rightarrow> (metadata_node_id list \<times> (shard_id \<times> metadata_node_id \<times> metadata_node_id) list) result" where
  "publish_block_step m st update =
    (case update of
      BlockShard u \<Rightarrow>
        andThen (ensure (su_shard_id u < length (fst st)) invalid_argument) (\<lambda>_.
        andThen (ensure (fst st ! su_shard_id u = su_old_root u) conflict) (\<lambda>_.
        andThen (ensure (bt_has (mi_metadata_nodes m) (su_new_root u)) (not_found K_metadata_node)) (\<lambda>_.
        Inr ((fst st)[su_shard_id u := su_new_root u],
             snd st @ [(su_shard_id u, su_old_root u, su_new_root u)]))))
    | _ \<Rightarrow> Inl invalid_argument)"

definition publish_block_commit ::
  "device_id \<Rightarrow> metadata_fence \<Rightarrow> root_update list \<Rightarrow> commit_group meta_op" where
  "publish_block_commit device_id fence updates =
    seqM (askM (\<lambda>m. get_head m device_id)) (\<lambda>current.
    seqM (liftM (ensure (case fence of DeviceGeneration g \<Rightarrow> True | _ \<Rightarrow> False) invalid_argument)) (\<lambda>_.
    seqM (liftM (ensure (updates \<noteq> []) invalid_argument)) (\<lambda>_.
    seqM (askM (\<lambda>m. foldR (publish_block_step m) (dh_shard_roots current, []) updates)) (\<lambda>(next_roots, shard_commits).
    seqM alloc_commit_seq (\<lambda>commit_seq.
    seqM alloc_commit_group_id (\<lambda>commit_group_id.
    let commit_group = \<lparr>cg_commit_group = commit_group_id, cg_commit_seq = commit_seq,
                        cg_owner = BlockDevice device_id, cg_updates = updates\<rparr> in
    seqM (modM (\<lambda>m. m\<lparr>mi_shard_commits := mi_shard_commits m @ map (\<lambda>(shard_id, old_root, new_root).
      \<lparr>sc_commit_seq = commit_seq, sc_commit_group = commit_group_id, sc_time = commit_seq,
       sc_device_id = device_id, sc_shard_id = shard_id, sc_old_root = old_root, sc_new_root = new_root\<rparr>)
      shard_commits\<rparr>)) (\<lambda>_.
    seqM (liftM (next_generation (dh_generation current))) (\<lambda>generation.
    seqM (modM (\<lambda>m. m\<lparr>mi_device_heads := bt_insert device_id
      (current\<lparr>dh_generation := generation, dh_latest_commit := commit_seq, dh_shard_roots := next_roots\<rparr>)
      (mi_device_heads m)\<rparr>)) (\<lambda>_.
    seqM (modM (\<lambda>m. m\<lparr>mi_commit_groups := bt_insert commit_group_id commit_group (mi_commit_groups m)\<rparr>)) (\<lambda>_.
    returnM commit_group))))))))))"

text \<open>
  The fence of a native commit: the version it was computed from, or the append stream it closes
  (then the result names the stream).
\<close>

primrec check_native_fence ::
  "metadata_inner \<Rightarrow> keyspace_id \<Rightarrow> file_id \<Rightarrow> file_head \<Rightarrow> metadata_fence
    \<Rightarrow> (append_stream_id \<times> writer_epoch) option result" where
  "check_native_fence m keyspace_id file_id current (DeviceGeneration g) = Inl invalid_argument"
| "check_native_fence m keyspace_id file_id current (FileVersion version) =
    andThen (ensure (version = fh_version current) conflict) (\<lambda>_. Inr None)"
| "check_native_fence m keyspace_id file_id current (AppendStream stream_id writer_epoch) =
    andThen (ok_or (bt_get (mi_append_streams m) stream_id) conflict) (\<lambda>stream.
    andThen (ensure (as_keyspace_id stream = keyspace_id \<and> as_file_id stream = file_id
      \<and> as_writer_epoch stream = writer_epoch \<and> as_published_through stream = fh_size current
      \<and> as_status stream = Stream_Active) conflict) (\<lambda>_.
    Inr (Some (stream_id, writer_epoch))))"

definition publish_stream_progress ::
  "keyspace_id \<Rightarrow> file_id \<Rightarrow> nat \<Rightarrow> (append_stream_id \<times> writer_epoch) option \<Rightarrow> metadata_inner \<Rightarrow> metadata_inner" where
  "publish_stream_progress keyspace_id file_id new_size stream m =
    (case stream of
      None \<Rightarrow> m
    | Some (stream_id, writer_epoch) \<Rightarrow>
        let m' = m\<lparr>mi_file_writer_epochs := bt_insert (keyspace_id, file_id) writer_epoch (mi_file_writer_epochs m)\<rparr> in
        (case bt_get (mi_append_streams m) stream_id of
          None \<Rightarrow> m'
        | Some st \<Rightarrow>
            if as_writer_epoch st = writer_epoch then
              m'\<lparr>mi_append_streams := bt_insert stream_id (st\<lparr>as_published_through := new_size\<rparr>) (mi_append_streams m)\<rparr>
            else m'))"

definition native_update :: "root_update list \<Rightarrow> (file_id \<times> metadata_node_id \<times> metadata_node_id \<times> nat) result" where
  "native_update updates =
    (case updates of
      [FileRoot file_id old_root new_root new_size] \<Rightarrow> Inr (file_id, old_root, new_root, new_size)
    | _ \<Rightarrow> Inl invalid_argument)"

definition publish_keyspace_commit ::
  "local_store_config \<Rightarrow> keyspace_id \<Rightarrow> metadata_fence \<Rightarrow> root_update list \<Rightarrow> commit_group meta_op" where
  "publish_keyspace_commit cfg keyspace_id fence updates =
    seqM (askM (\<lambda>m. get_keyspace_head m keyspace_id)) (\<lambda>current_keyspace.
    seqM (liftM (native_update updates)) (\<lambda>(file_id, old_root, new_root, new_size).
    seqM (askM (\<lambda>m. keyspace_file_in_shards_locked m (kh_shard_roots current_keyspace) file_id)) (\<lambda>current_entry.
    let current = kf_head current_entry in
    seqM (askM (\<lambda>m. ensure (\<not> append_publish_in_flight_for_file m keyspace_id file_id) conflict)) (\<lambda>_.
    seqM (askM (\<lambda>m. check_native_fence m keyspace_id file_id current fence)) (\<lambda>append_stream_commit.
    seqM (liftM (ensure (fh_root current = old_root) conflict)) (\<lambda>_.
    seqM (askM (\<lambda>m. get_metadata_node m new_root)) (\<lambda>new_root_node.
    seqM alloc_commit_seq (\<lambda>commit_seq.
    seqM alloc_commit_group_id (\<lambda>commit_group_id.
    let commit_group = \<lparr>cg_commit_group = commit_group_id, cg_commit_seq = commit_seq,
                        cg_owner = NativeKeyspace keyspace_id,
                        cg_updates = [FileRoot file_id old_root new_root new_size]\<rparr> in
    seqM (liftM (next_file_version (fh_version current))) (\<lambda>version.
    let next_head = current\<lparr>fh_version := version, fh_latest_commit := commit_seq, fh_root := new_root,
                            fh_size := new_size\<rparr> in
    seqM (liftM (validate_transition_from next_head current (mn_covered_range new_root_node) (cfg_block_size cfg))) (\<lambda>_.
    seqM (advance_keyspace keyspace_id current_keyspace commit_seq commit_group_id file_id
      (current_entry\<lparr>kf_head := next_head\<rparr>) (\<lambda>m. m)
      \<lparr>fc_commit_seq = commit_seq, fc_commit_group = commit_group_id, fc_time = commit_seq,
       fc_keyspace_id = keyspace_id, fc_file_id = file_id, fc_old_root = Some (fh_root current),
       fc_new_root = new_root, fc_old_version = Some (fh_version current), fc_new_version = version,
       fc_old_size = fh_size current, fc_new_size = new_size\<rparr>) (\<lambda>_.
    seqM (modM (\<lambda>m. m\<lparr>mi_commit_groups := bt_insert commit_group_id commit_group (mi_commit_groups m)\<rparr>)) (\<lambda>_.
    seqM (modM (publish_stream_progress keyspace_id file_id new_size append_stream_commit)) (\<lambda>_.
    returnM commit_group))))))))))))))"

definition publish_commit_group :: "local_store_config \<Rightarrow> commit_group_intent \<Rightarrow> commit_group meta_op" where
  "publish_commit_group cfg intent =
    (case ci_owner intent of
      BlockDevice device_id \<Rightarrow> publish_block_commit device_id (ci_fence intent) (ci_updates intent)
    | NativeKeyspace keyspace_id \<Rightarrow> publish_keyspace_commit cfg keyspace_id (ci_fence intent) (ci_updates intent))"

section \<open>Forks, restores, snapshots\<close>

text \<open>A device that starts out with the roots of another: forks and restores end this way.\<close>

definition install_device :: "local_store_config \<Rightarrow> device_id \<Rightarrow> device_spec \<Rightarrow> metadata_node_id list
    \<Rightarrow> (commit_seq \<Rightarrow> metadata_inner \<Rightarrow> metadata_inner) \<Rightarrow> device_head meta_op" where
  "install_device cfg target spec shard_roots record_it =
    seqM alloc_commit_seq (\<lambda>latest_commit.
    let head = \<lparr>dh_device_id = target, dh_generation = 0, dh_shard_roots = shard_roots,
                dh_latest_commit = latest_commit\<rparr> in
    seqM (liftM (validate_device_head head (cfg_shard_count cfg))) (\<lambda>_.
    seqM (modM (\<lambda>m. m\<lparr>mi_device_specs := bt_insert target spec (mi_device_specs m)\<rparr>)) (\<lambda>_.
    seqM (modM (\<lambda>m. m\<lparr>mi_device_heads := bt_insert target head (mi_device_heads m)\<rparr>)) (\<lambda>_.
    seqM (modM (record_it latest_commit)) (\<lambda>_.
    seqM (insert_checkpoint (BlockDevice target) latest_commit (CP_BlockShard shard_roots)) (\<lambda>_.
    returnM head))))))"

definition fork_device :: "local_store_config \<Rightarrow> metadata_fork_request \<Rightarrow> device_head meta_op" where
  "fork_device cfg request =
    seqM (askM (\<lambda>m. get_head m (mk_source request))) (\<lambda>source_head.
    seqM (askM (\<lambda>m. ok_or (bt_get (mi_device_specs m) (mk_source request)) corrupt)) (\<lambda>source_spec.
    seqM (case mk_target request of
        Some target \<Rightarrow>
          seqM (askM (\<lambda>m. ensure (\<not> (bt_has (mi_device_heads m) target \<or> bt_has (mi_deleted_device_heads m) target))
            conflict)) (\<lambda>_.
          seqM (reserve_device_id_at_least_after target) (\<lambda>_.
          returnM target))
      | None \<Rightarrow> alloc_device_id) (\<lambda>target.
    install_device cfg target source_spec (dh_shard_roots source_head) (\<lambda>latest_commit m.
      m\<lparr>mi_fork_records := bt_insert latest_commit
        \<lparr>fr_commit_seq = latest_commit, fr_source = mk_source request, fr_target = target,
         fr_shard_roots = dh_shard_roots source_head\<rparr> (mi_fork_records m)\<rparr>))))"

definition restore_device :: "local_store_config \<Rightarrow> device_id \<Rightarrow> restore_point \<Rightarrow> device_head meta_op" where
  "restore_device cfg source point =
    seqM (askM (\<lambda>m. ok_or (bt_get (mi_device_specs m) source) (not_found K_device))) (\<lambda>source_spec.
    seqM (askM (\<lambda>m. target_commit_for_restore_locked m source point)) (\<lambda>target_commit.
    seqM (askM (\<lambda>m. replay_device_roots_locked m source target_commit None)) (\<lambda>shard_roots.
    seqM (askM (\<lambda>m. forR (\<lambda>root. ensure (bt_has (mi_metadata_nodes m) root) (not_found K_metadata_node)) shard_roots)) (\<lambda>_.
    seqM alloc_device_id (\<lambda>target.
    install_device cfg target source_spec shard_roots (\<lambda>_ m. m))))))"

definition install_keyspace :: "keyspace_id \<Rightarrow> keyspace_catalog_shard_id list \<Rightarrow> nat \<Rightarrow> keyspace_head meta_op" where
  "install_keyspace target shard_roots file_count =
    seqM alloc_commit_seq (\<lambda>latest_commit.
    let head = \<lparr>kh_keyspace_id = target, kh_generation = 0, kh_shard_roots = shard_roots,
                kh_file_count = file_count, kh_latest_commit = latest_commit\<rparr> in
    seqM (insert_keyspace_root_locked shard_roots file_count) (\<lambda>checkpoint_root.
    seqM (modM (\<lambda>m. m\<lparr>mi_keyspace_heads := bt_insert target head (mi_keyspace_heads m)\<rparr>)) (\<lambda>_.
    seqM (insert_checkpoint (NativeKeyspace target) latest_commit (CP_NativeKeyspace (kr_root_id checkpoint_root))) (\<lambda>_.
    returnM head))))"

definition snapshot_keyspace :: "metadata_snapshot_keyspace_request \<Rightarrow> keyspace_head meta_op" where
  "snapshot_keyspace request =
    seqM (askM (\<lambda>m. get_keyspace_head m (ms_source request))) (\<lambda>source_head.
    seqM (case ms_target request of
        Some target \<Rightarrow>
          seqM (askM (\<lambda>m. ensure (\<not> bt_has (mi_keyspace_heads m) target) conflict)) (\<lambda>_.
          seqM (reserve_keyspace_id_at_least_after target) (\<lambda>_.
          returnM target))
      | None \<Rightarrow> alloc_keyspace_id) (\<lambda>target.
    install_keyspace target (kh_shard_roots source_head) (kh_file_count source_head)))"

definition keyspace_restore_state ::
  "metadata_inner \<Rightarrow> keyspace_id \<Rightarrow> restore_point \<Rightarrow> keyspace_root result" where
  "keyspace_restore_state m source point =
    (case point of
      At_Checkpoint checkpoint_id \<Rightarrow>
        andThen (ok_or (bt_get (mi_checkpoints m) checkpoint_id) (not_found K_checkpoint)) (\<lambda>checkpoint.
        andThen (ensure (cp_owner checkpoint = NativeKeyspace source) invalid_argument) (\<lambda>_.
        andThen (checkpoint_keyspace_root checkpoint) (\<lambda>root_id.
        keyspace_root_locked m root_id)))
    | _ \<Rightarrow>
        andThen (target_commit_for_keyspace_restore_locked m source point) (\<lambda>target_commit.
        replay_keyspace_root_locked m source target_commit None))"

definition restore_keyspace :: "keyspace_id \<Rightarrow> restore_point \<Rightarrow> keyspace_head meta_op" where
  "restore_keyspace source point =
    seqM (askM (\<lambda>m. ensure (bt_has (mi_keyspace_heads m) source) (not_found K_keyspace))) (\<lambda>_.
    seqM (askM (\<lambda>m. keyspace_restore_state m source point)) (\<lambda>root.
    seqM alloc_keyspace_id (\<lambda>target.
    install_keyspace target (kr_shard_roots root) (kr_file_count root))))"

section \<open>Deletion and checkpoints\<close>

definition delete_device :: "device_id \<Rightarrow> (device_id \<times> commit_seq) meta_op" where
  "delete_device device_id =
    seqM (askM (\<lambda>m. get_head m device_id)) (\<lambda>head.
    seqM alloc_commit_seq (\<lambda>commit_seq.
    seqM (modM (\<lambda>m. m\<lparr>mi_device_heads := bt_remove device_id (mi_device_heads m)\<rparr>)) (\<lambda>_.
    seqM (modM (\<lambda>m. m\<lparr>mi_deleted_device_heads :=
      bt_insert device_id (head\<lparr>dh_latest_commit := commit_seq\<rparr>) (mi_deleted_device_heads m)\<rparr>)) (\<lambda>_.
    seqM (modM (\<lambda>m. m\<lparr>mi_delete_records := bt_insert commit_seq
      \<lparr>dr_commit_seq = commit_seq, dr_time = commit_seq, dr_device_id = device_id,
       dr_shard_roots = dh_shard_roots head\<rparr> (mi_delete_records m)\<rparr>)) (\<lambda>_.
    returnM (device_id, commit_seq))))))"

definition checkpoint_device :: "device_id \<Rightarrow> checkpoint_id meta_op" where
  "checkpoint_device device_id =
    seqM (askM (\<lambda>m. get_head m device_id)) (\<lambda>head.
    insert_checkpoint (BlockDevice device_id) (dh_latest_commit head) (CP_BlockShard (dh_shard_roots head)))"

definition checkpoint_keyspace :: "keyspace_id \<Rightarrow> checkpoint_id meta_op" where
  "checkpoint_keyspace keyspace_id =
    seqM (askM (\<lambda>m. get_keyspace_head m keyspace_id)) (\<lambda>head.
    seqM (insert_keyspace_root_locked (kh_shard_roots head) (kh_file_count head)) (\<lambda>checkpoint_root.
    insert_checkpoint (NativeKeyspace keyspace_id) (kh_latest_commit head)
      (CP_NativeKeyspace (kr_root_id checkpoint_root))))"

definition get_checkpoint :: "metadata_inner \<Rightarrow> checkpoint_id \<Rightarrow> checkpoint result" where
  "get_checkpoint m checkpoint_id = ok_or (bt_get (mi_checkpoints m) checkpoint_id) (not_found K_checkpoint)"

text \<open>A checkpoint is checked by replaying the timeline without it.\<close>

definition validate_checkpoint :: "local_store_config \<Rightarrow> metadata_inner \<Rightarrow> checkpoint \<Rightarrow> unit result" where
  "validate_checkpoint cfg m checkpoint =
    (case cp_owner checkpoint of
      BlockDevice device_id \<Rightarrow>
        andThen (checkpoint_block_roots checkpoint) (\<lambda>checkpoint_roots.
        case replay_device_roots_locked m device_id (cp_commit_seq checkpoint) (Some (cp_checkpoint_id checkpoint)) of
          Inr replayed \<Rightarrow> ensure (replayed = checkpoint_roots) corrupt
        | Inl error \<Rightarrow>
            if cp_commit_seq checkpoint = 0 then
              validate_checkpoint_root_shape_locked m device_id checkpoint_roots (cfg_shard_count cfg)
            else Inl error)
    | NativeKeyspace keyspace_id \<Rightarrow>
        andThen (checkpoint_keyspace_root checkpoint) (\<lambda>checkpoint_root.
        case replay_keyspace_root_locked m keyspace_id (cp_commit_seq checkpoint) (Some (cp_checkpoint_id checkpoint)) of
          Inr replayed \<Rightarrow>
            andThen (keyspace_root_locked m checkpoint_root) (\<lambda>root.
            ensure (kr_shard_roots replayed = kr_shard_roots root \<and> kr_file_count replayed = kr_file_count root) corrupt)
        | Inl error \<Rightarrow>
            if cp_commit_seq checkpoint = 0 then
              ensure (bt_has (mi_keyspace_roots m) checkpoint_root) (not_found K_keyspace_root)
            else Inl error))"

end
