(* ===== verification/Metadata_Timeline.thy ===== *)
theory Metadata_Timeline
  imports Metadata_Plane
begin

text \<open>
  What the metadata plane keeps true of its timelines.  The device and the keyspace timelines are
  instances of the same two locales; the invariant \<open>plane_ok\<close> says that every owner's log,
  checkpoints and head tell one story, and the rules below say what each kind of change does to it.
\<close>

section \<open>The two timelines\<close>

interpretation shard_log: slot_log sc_shard_id sc_old_root sc_new_root replay_shard_commit
  by unfold_locales (auto simp: replay_shard_commit_def)

interpretation dev: timeline sc_commit_seq replay_shard_commit .

interpretation ks: timeline kc_commit_seq replay_keyspace_commit .

definition block_roots_of :: "checkpoint_roots \<Rightarrow> metadata_node_id list option" where
  "block_roots_of r = (case r of CP_BlockShard rs \<Rightarrow> Some rs | CP_NativeKeyspace _ \<Rightarrow> None)"

definition keyspace_state_of :: "(keyspace_root_id, keyspace_root) btree \<Rightarrow> checkpoint_roots
    \<Rightarrow> (keyspace_catalog_shard_id list \<times> nat) option" where
  "keyspace_state_of roots r =
    (case r of CP_BlockShard rs \<Rightarrow> None
     | CP_NativeKeyspace i \<Rightarrow> map_option (\<lambda>k. (kr_shard_roots k, kr_file_count k)) (bt_get roots i))"

definition owner_checkpoints :: "metadata_inner \<Rightarrow> mapping_owner \<Rightarrow> checkpoint set" where
  "owner_checkpoints m o' = {c. (\<exists>i. bt_get (mi_checkpoints m) i = Some c) \<and> cp_owner c = o'}"

definition device_any_head :: "metadata_inner \<Rightarrow> device_id \<Rightarrow> device_head option" where
  "device_any_head m d =
    (case bt_get (mi_device_heads m) d of Some h \<Rightarrow> Some h | None \<Rightarrow> bt_get (mi_deleted_device_heads m) d)"

definition device_timeline :: "metadata_inner \<Rightarrow> device_id \<Rightarrow> nat \<Rightarrow> (nat \<Rightarrow> metadata_node_id list) \<Rightarrow> bool" where
  "device_timeline m d lo H \<longleftrightarrow>
    dev.consistent (shard_commits_for_device_locked m d)
      ((\<lambda>c. (cp_commit_seq c, block_roots_of (cp_roots c))) ` owner_checkpoints m (BlockDevice d))
      (map_option (\<lambda>h. (dh_latest_commit h, dh_shard_roots h)) (device_any_head m d))
      (mi_next_commit_seq m) lo H"

definition keyspace_timeline ::
  "metadata_inner \<Rightarrow> keyspace_id \<Rightarrow> nat \<Rightarrow> (nat \<Rightarrow> keyspace_catalog_shard_id list \<times> nat) \<Rightarrow> bool" where
  "keyspace_timeline m k lo H \<longleftrightarrow>
    ks.consistent (keyspace_commits_for_keyspace_locked m k)
      ((\<lambda>c. (cp_commit_seq c, keyspace_state_of (mi_keyspace_roots m) (cp_roots c)))
        ` owner_checkpoints m (NativeKeyspace k))
      (map_option (\<lambda>h. (kh_latest_commit h, (kh_shard_roots h, kh_file_count h))) (bt_get (mi_keyspace_heads m) k))
      (mi_next_commit_seq m) lo H"

text \<open>Replay computes the state the timeline describes, whenever it finds a checkpoint to start from.\<close>

lemma latest_device_checkpoint:
  assumes "bt_ok (mi_checkpoints m)" "latest_device_checkpoint_at_or_before_locked m d s ex = Some c"
  shows "c \<in> owner_checkpoints m (BlockDevice d) \<and> cp_commit_seq c \<le> s \<and> Some (cp_checkpoint_id c) \<noteq> ex"
  using max_by_key_Some [OF assms(2) [unfolded latest_device_checkpoint_at_or_before_locked_def]] assms(1)
  by (auto simp: owner_checkpoints_def bt_values_def bt_get_iff_mem)

lemma latest_device_checkpoint_None:
  assumes "bt_ok (mi_checkpoints m)"
  shows "latest_device_checkpoint_at_or_before_locked m d s None = None
    \<longleftrightarrow> (\<forall>c\<in>owner_checkpoints m (BlockDevice d). s < cp_commit_seq c)"
  using assms
  by (force simp: latest_device_checkpoint_at_or_before_locked_def owner_checkpoints_def bt_values_def
      bt_get_iff_mem filter_empty_conv)

lemma replay_device:
  assumes "bt_ok (mi_checkpoints m)" "device_timeline m d lo H"
    and "latest_device_checkpoint_at_or_before_locked m d s ex = Some c"
  shows "replay_device_roots_locked m d s ex = Inr (H s)"
proof -
  have c: "c \<in> owner_checkpoints m (BlockDevice d)" "cp_commit_seq c \<le> s"
    using latest_device_checkpoint [OF assms(1,3)] by simp_all
  have "block_roots_of (cp_roots c) = Some (H (cp_commit_seq c))
      \<and> foldR replay_shard_commit (H (cp_commit_seq c))
        (dev.between (cp_commit_seq c) s (shard_commits_for_device_locked m d)) = Inr (H s)"
    by (rule dev.consistent_replay [OF assms(2) [unfolded device_timeline_def] imageI [OF c(1)] c(2)])
  then show ?thesis
    using assms(3)
    by (auto simp: replay_device_roots_locked_def checkpoint_block_roots_def block_roots_of_def dev.between_def
        split: checkpoint_roots.splits)
qed

lemma latest_keyspace_checkpoint:
  assumes "bt_ok (mi_checkpoints m)" "latest_keyspace_checkpoint_at_or_before_locked m k s ex = Some c"
  shows "c \<in> owner_checkpoints m (NativeKeyspace k) \<and> cp_commit_seq c \<le> s \<and> Some (cp_checkpoint_id c) \<noteq> ex"
  using max_by_key_Some [OF assms(2) [unfolded latest_keyspace_checkpoint_at_or_before_locked_def]] assms(1)
  by (auto simp: owner_checkpoints_def bt_values_def bt_get_iff_mem)

lemma latest_keyspace_checkpoint_None:
  assumes "bt_ok (mi_checkpoints m)"
  shows "latest_keyspace_checkpoint_at_or_before_locked m k s None = None
    \<longleftrightarrow> (\<forall>c\<in>owner_checkpoints m (NativeKeyspace k). s < cp_commit_seq c)"
  using assms
  by (force simp: latest_keyspace_checkpoint_at_or_before_locked_def owner_checkpoints_def bt_values_def
      bt_get_iff_mem filter_empty_conv)

lemma replay_keyspace:
  assumes "bt_ok (mi_checkpoints m)" "keyspace_timeline m k lo H"
    and "latest_keyspace_checkpoint_at_or_before_locked m k s ex = Some c"
  shows "\<exists>i. replay_keyspace_root_locked m k s ex
    = Inr \<lparr>kr_root_id = i, kr_shard_roots = fst (H s), kr_file_count = snd (H s)\<rparr>"
proof -
  have c: "c \<in> owner_checkpoints m (NativeKeyspace k)" "cp_commit_seq c \<le> s"
    using latest_keyspace_checkpoint [OF assms(1,3)] by simp_all
  have "keyspace_state_of (mi_keyspace_roots m) (cp_roots c) = Some (H (cp_commit_seq c))
      \<and> foldR replay_keyspace_commit (H (cp_commit_seq c))
        (ks.between (cp_commit_seq c) s (keyspace_commits_for_keyspace_locked m k)) = Inr (H s)"
    by (rule ks.consistent_replay [OF assms(2) [unfolded keyspace_timeline_def] imageI [OF c(1)] c(2)])
  then show ?thesis
    using assms(3)
    by (auto simp: replay_keyspace_root_locked_def checkpoint_keyspace_root_def keyspace_state_of_def
        keyspace_root_locked_def ks.between_def split: checkpoint_roots.splits)
qed

section \<open>The invariant\<close>

abbreviation node_present :: "metadata_inner \<Rightarrow> metadata_node_id \<Rightarrow> bool" where
  "node_present m r \<equiv> bt_has (mi_metadata_nodes m) r"

definition shard_present :: "metadata_inner \<Rightarrow> keyspace_catalog_shard_id \<Rightarrow> bool" where
  "shard_present m i \<longleftrightarrow>
    (\<exists>shard. bt_get (mi_keyspace_catalog_shards m) i = Some shard
      \<and> (\<forall>f\<in>set (bt_values (cs_files shard)). node_present m (fh_root (kf_head f))))"

text \<open>A catalog state that can be read: all its shards, and the roots of all files in them, are there.\<close>

definition catalog_present :: "metadata_inner \<Rightarrow> keyspace_catalog_shard_id list \<Rightarrow> bool" where
  "catalog_present m roots \<longleftrightarrow> length roots = KEYSPACE_CATALOG_SHARD_COUNT \<and> (\<forall>i\<in>set roots. shard_present m i)"

definition objects_ok :: "metadata_inner \<Rightarrow> bool" where
  "objects_ok m \<longleftrightarrow>
    bt_ok (mi_metadata_nodes m)
    \<and> (\<forall>i. node_present m i \<longrightarrow> i < mi_next_metadata_node_id m)
    \<and> (\<forall>i. bt_has (mi_keyspace_catalog_shards m) i \<longrightarrow> i < mi_next_keyspace_catalog_shard_id m)
    \<and> (\<forall>i. bt_has (mi_keyspace_roots m) i \<longrightarrow> i < mi_next_keyspace_root_id m)"

definition devices_ok :: "metadata_inner \<Rightarrow> bool" where
  "devices_ok m \<longleftrightarrow>
    bt_ok (mi_device_heads m) \<and> bt_ok (mi_deleted_device_heads m)
    \<and> (\<forall>d. bt_has (mi_device_heads m) d \<longrightarrow> \<not> bt_has (mi_deleted_device_heads m) d)
    \<and> (\<forall>d h. device_any_head m d = Some h \<longrightarrow>
        d < mi_next_device_id m \<and> dh_generation h < mi_next_commit_seq m \<and> bt_has (mi_device_specs m) d
        \<and> (\<forall>r\<in>set (dh_shard_roots h). node_present m r) \<and> (\<exists>lo H. device_timeline m d lo H))
    \<and> (\<forall>c\<in>set (mi_shard_commits m). device_any_head m (sc_device_id c) \<noteq> None \<and> node_present m (sc_new_root c))"

definition keyspaces_ok :: "metadata_inner \<Rightarrow> bool" where
  "keyspaces_ok m \<longleftrightarrow>
    bt_ok (mi_keyspace_heads m)
    \<and> (\<forall>k h. bt_get (mi_keyspace_heads m) k = Some h \<longrightarrow>
        k < mi_next_keyspace_id m \<and> kh_generation h < mi_next_commit_seq m
        \<and> catalog_present m (kh_shard_roots h) \<and> (\<exists>lo H. keyspace_timeline m k lo H))
    \<and> (\<forall>c\<in>set (mi_keyspace_commits m). bt_has (mi_keyspace_heads m) (kc_keyspace_id c) \<and> shard_present m (kc_new_shard c))"

definition checkpoint_present :: "metadata_inner \<Rightarrow> checkpoint \<Rightarrow> bool" where
  "checkpoint_present m c \<longleftrightarrow>
    (case cp_owner c of
      BlockDevice d \<Rightarrow>
        device_any_head m d \<noteq> None \<and> (\<exists>rs. cp_roots c = CP_BlockShard rs \<and> (\<forall>r\<in>set rs. node_present m r))
    | NativeKeyspace k \<Rightarrow>
        bt_has (mi_keyspace_heads m) k
        \<and> (\<exists>i root. cp_roots c = CP_NativeKeyspace i \<and> bt_get (mi_keyspace_roots m) i = Some root
            \<and> catalog_present m (kr_shard_roots root)))"

definition checkpoints_ok :: "metadata_inner \<Rightarrow> bool" where
  "checkpoints_ok m \<longleftrightarrow>
    bt_ok (mi_checkpoints m)
    \<and> (\<forall>i c. bt_get (mi_checkpoints m) i = Some c \<longrightarrow>
        i < mi_next_checkpoint_id m \<and> cp_checkpoint_id c = i \<and> cp_time c = cp_commit_seq c \<and> checkpoint_present m c)"

definition plane_ok :: "metadata_inner \<Rightarrow> bool" where
  "plane_ok m \<longleftrightarrow> 0 < mi_next_commit_seq m \<and> objects_ok m \<and> devices_ok m \<and> keyspaces_ok m \<and> checkpoints_ok m"

lemma plane_ok_new: "plane_ok metadata_new"
  by (simp add: plane_ok_def objects_ok_def devices_ok_def keyspaces_ok_def checkpoints_ok_def metadata_new_def
      device_any_head_def bt_has_iff)

section \<open>Growth\<close>

text \<open>
  Stored objects are immutable: what was there stays there, under the same identifier, unchanged.
\<close>

definition objects_grow :: "metadata_inner \<Rightarrow> metadata_inner \<Rightarrow> bool" where
  "objects_grow m m' \<longleftrightarrow>
    (\<forall>i x. bt_get (mi_metadata_nodes m) i = Some x \<longrightarrow> bt_get (mi_metadata_nodes m') i = Some x)
    \<and> (\<forall>i x. bt_get (mi_keyspace_catalog_shards m) i = Some x \<longrightarrow> bt_get (mi_keyspace_catalog_shards m') i = Some x)
    \<and> (\<forall>i x. bt_get (mi_keyspace_roots m) i = Some x \<longrightarrow> bt_get (mi_keyspace_roots m') i = Some x)"

definition counters_grow :: "metadata_inner \<Rightarrow> metadata_inner \<Rightarrow> bool" where
  "counters_grow m m' \<longleftrightarrow>
    mi_next_device_id m \<le> mi_next_device_id m' \<and> mi_next_keyspace_id m \<le> mi_next_keyspace_id m'
    \<and> mi_next_commit_seq m \<le> mi_next_commit_seq m' \<and> mi_next_checkpoint_id m \<le> mi_next_checkpoint_id m'
    \<and> mi_next_metadata_node_id m \<le> mi_next_metadata_node_id m'"

text \<open>Every owner's past stays what it was.\<close>

definition history_kept :: "metadata_inner \<Rightarrow> metadata_inner \<Rightarrow> bool" where
  "history_kept m m' \<longleftrightarrow>
    (\<forall>d lo H. device_any_head m d \<noteq> None \<longrightarrow> device_timeline m d lo H \<longrightarrow>
      (\<exists>H'. device_timeline m' d lo H' \<and> (\<forall>s<mi_next_commit_seq m. H' s = H s)))
    \<and> (\<forall>k lo H. bt_has (mi_keyspace_heads m) k \<longrightarrow> keyspace_timeline m k lo H \<longrightarrow>
      (\<exists>H'. keyspace_timeline m' k lo H' \<and> (\<forall>s<mi_next_commit_seq m. H' s = H s)))"

definition records_grow :: "metadata_inner \<Rightarrow> metadata_inner \<Rightarrow> bool" where
  "records_grow m m' \<longleftrightarrow>
    (\<forall>i x. bt_get (mi_checkpoints m) i = Some x \<longrightarrow> bt_get (mi_checkpoints m') i = Some x)
    \<and> set (mi_shard_commits m) \<subseteq> set (mi_shard_commits m') \<and> set (mi_keyspace_commits m) \<subseteq> set (mi_keyspace_commits m')
    \<and> (\<forall>d. bt_has (mi_device_specs m) d \<longrightarrow> bt_has (mi_device_specs m') d)
    \<and> (\<forall>d. device_any_head m d \<noteq> None \<longrightarrow> device_any_head m' d \<noteq> None)
    \<and> (\<forall>k. bt_has (mi_keyspace_heads m) k \<longrightarrow> bt_has (mi_keyspace_heads m') k)"

definition grows :: "metadata_inner \<Rightarrow> metadata_inner \<Rightarrow> bool" where
  "grows m m' \<longleftrightarrow> objects_grow m m' \<and> counters_grow m m' \<and> records_grow m m' \<and> history_kept m m'"

lemma objects_grow_refl [simp]: "objects_grow m m"
  by (simp add: objects_grow_def)

lemma grows_refl [simp]: "grows m m"
  by (auto simp: grows_def counters_grow_def records_grow_def history_kept_def)

lemma history_kept_trans:
  assumes "history_kept m m1" "history_kept m1 m2" "records_grow m m1" "mi_next_commit_seq m \<le> mi_next_commit_seq m1"
  shows "history_kept m m2"
  unfolding history_kept_def
proof (intro conjI allI impI)
  fix d lo H
  assume d: "device_any_head m d \<noteq> None" and t: "device_timeline m d lo H"
  then obtain H1 where H1: "device_timeline m1 d lo H1" "\<forall>s<mi_next_commit_seq m. H1 s = H s"
    using assms(1) unfolding history_kept_def by blast
  moreover have "device_any_head m1 d \<noteq> None"
    using assms(3) d unfolding records_grow_def by blast
  ultimately obtain H2 where "device_timeline m2 d lo H2" "\<forall>s<mi_next_commit_seq m1. H2 s = H1 s"
    using assms(2) unfolding history_kept_def by blast
  with H1 assms(4) show "\<exists>H'. device_timeline m2 d lo H' \<and> (\<forall>s<mi_next_commit_seq m. H' s = H s)"
    by (metis order_less_le_trans)
next
  fix k lo H
  assume k: "bt_has (mi_keyspace_heads m) k" and t: "keyspace_timeline m k lo H"
  then obtain H1 where H1: "keyspace_timeline m1 k lo H1" "\<forall>s<mi_next_commit_seq m. H1 s = H s"
    using assms(1) unfolding history_kept_def by blast
  moreover have "bt_has (mi_keyspace_heads m1) k"
    using assms(3) k unfolding records_grow_def by blast
  ultimately obtain H2 where "keyspace_timeline m2 k lo H2" "\<forall>s<mi_next_commit_seq m1. H2 s = H1 s"
    using assms(2) unfolding history_kept_def by blast
  with H1 assms(4) show "\<exists>H'. keyspace_timeline m2 k lo H' \<and> (\<forall>s<mi_next_commit_seq m. H' s = H s)"
    by (metis order_less_le_trans)
qed

lemma grows_trans: "grows m m1 \<Longrightarrow> grows m1 m2 \<Longrightarrow> grows m m2"
  unfolding grows_def
  using history_kept_trans [of m m1 m2]
  by (auto simp: objects_grow_def counters_grow_def records_grow_def)

text \<open>What is present stays present.\<close>

lemma node_present_mono: "objects_grow m m' \<Longrightarrow> node_present m i \<Longrightarrow> node_present m' i"
  by (auto simp: objects_grow_def bt_has_iff)

lemma shard_present_mono: "objects_grow m m' \<Longrightarrow> shard_present m i \<Longrightarrow> shard_present m' i"
  unfolding shard_present_def using node_present_mono [of m m'] by (auto simp: objects_grow_def)

lemma catalog_present_mono: "objects_grow m m' \<Longrightarrow> catalog_present m rs \<Longrightarrow> catalog_present m' rs"
  unfolding catalog_present_def using shard_present_mono [of m m'] by auto

lemmas present_mono = node_present_mono shard_present_mono catalog_present_mono

text \<open>The state a keyspace checkpoint names does not change.\<close>

lemma keyspace_states_mono:
  assumes "objects_grow m m'" "checkpoints_ok m"
  shows "(\<lambda>c. (cp_commit_seq c, keyspace_state_of (mi_keyspace_roots m') (cp_roots c))) ` owner_checkpoints m (NativeKeyspace k)
    = (\<lambda>c. (cp_commit_seq c, keyspace_state_of (mi_keyspace_roots m) (cp_roots c))) ` owner_checkpoints m (NativeKeyspace k)"
proof (rule image_cong)
  fix c
  assume "c \<in> owner_checkpoints m (NativeKeyspace k)"
  then have "checkpoint_present m c" "cp_owner c = NativeKeyspace k"
    using assms(2) by (auto simp: owner_checkpoints_def checkpoints_ok_def)
  then obtain i root where "cp_roots c = CP_NativeKeyspace i" "bt_get (mi_keyspace_roots m) i = Some root"
    by (auto simp: checkpoint_present_def)
  with assms(1) show "(cp_commit_seq c, keyspace_state_of (mi_keyspace_roots m') (cp_roots c))
      = (cp_commit_seq c, keyspace_state_of (mi_keyspace_roots m) (cp_roots c))"
    by (auto simp: keyspace_state_of_def objects_grow_def)
qed simp

section \<open>Rules for changes\<close>

lemma devices_ok_step:
  assumes "devices_ok m" "grows m m'"
    and "bt_ok (mi_device_heads m')" "bt_ok (mi_deleted_device_heads m')"
    and "\<And>d. bt_has (mi_device_heads m') d \<Longrightarrow> \<not> bt_has (mi_deleted_device_heads m') d"
    and heads: "\<And>d h. device_any_head m' d = Some h \<Longrightarrow> device_any_head m d = Some h
      \<or> d < mi_next_device_id m' \<and> dh_generation h < mi_next_commit_seq m' \<and> bt_has (mi_device_specs m') d
        \<and> (\<forall>r\<in>set (dh_shard_roots h). node_present m' r)
        \<and> (device_any_head m d = None \<longrightarrow> (\<exists>lo H. device_timeline m' d lo H))"
    and commits: "\<And>c. c \<in> set (mi_shard_commits m') \<Longrightarrow> c \<in> set (mi_shard_commits m)
      \<or> device_any_head m' (sc_device_id c) \<noteq> None \<and> node_present m' (sc_new_root c)"
  shows "devices_ok m'"
proof -
  have og: "objects_grow m m'" and cg: "counters_grow m m'" and rg: "records_grow m m'" and hk: "history_kept m m'"
    using assms(2) by (simp_all add: grows_def)
  have "d < mi_next_device_id m' \<and> dh_generation h < mi_next_commit_seq m' \<and> bt_has (mi_device_specs m') d
      \<and> (\<forall>r\<in>set (dh_shard_roots h). node_present m' r) \<and> (\<exists>lo H. device_timeline m' d lo H)"
    if h: "device_any_head m' d = Some h" for d h
  proof -
    have tl: "\<exists>lo H. device_timeline m' d lo H" if "device_any_head m d \<noteq> None"
    proof -
      obtain lo H where "device_timeline m d lo H"
        using \<open>device_any_head m d \<noteq> None\<close> assms(1) unfolding devices_ok_def by blast
      with that hk show ?thesis
        unfolding history_kept_def by blast
    qed
    from heads [OF h] show ?thesis
    proof (elim disjE)
      assume old: "device_any_head m d = Some h"
      then have "d < mi_next_device_id m" "dh_generation h < mi_next_commit_seq m" "bt_has (mi_device_specs m) d"
        "\<forall>r\<in>set (dh_shard_roots h). node_present m r"
        using assms(1) unfolding devices_ok_def by blast+
      with old tl og cg rg show ?thesis
        by (auto simp: counters_grow_def records_grow_def dest: node_present_mono)
    qed (use tl in blast)
  qed
  moreover have "device_any_head m' (sc_device_id c) \<noteq> None \<and> node_present m' (sc_new_root c)"
    if "c \<in> set (mi_shard_commits m')" for c
    using commits [OF that]
  proof
    assume "c \<in> set (mi_shard_commits m)"
    then have "device_any_head m (sc_device_id c) \<noteq> None" "node_present m (sc_new_root c)"
      using assms(1) unfolding devices_ok_def by blast+
    with rg node_present_mono [OF og] show ?thesis
      unfolding records_grow_def by blast
  qed
  ultimately show ?thesis
    using assms(3-5) unfolding devices_ok_def by blast
qed

lemma keyspaces_ok_step:
  assumes "keyspaces_ok m" "grows m m'" "bt_ok (mi_keyspace_heads m')"
    and heads: "\<And>k h. bt_get (mi_keyspace_heads m') k = Some h \<Longrightarrow> bt_get (mi_keyspace_heads m) k = Some h
      \<or> k < mi_next_keyspace_id m' \<and> kh_generation h < mi_next_commit_seq m' \<and> catalog_present m' (kh_shard_roots h)
        \<and> (\<not> bt_has (mi_keyspace_heads m) k \<longrightarrow> (\<exists>lo H. keyspace_timeline m' k lo H))"
    and commits: "\<And>c. c \<in> set (mi_keyspace_commits m') \<Longrightarrow> c \<in> set (mi_keyspace_commits m)
      \<or> bt_has (mi_keyspace_heads m') (kc_keyspace_id c) \<and> shard_present m' (kc_new_shard c)"
  shows "keyspaces_ok m'"
proof -
  have og: "objects_grow m m'" and cg: "counters_grow m m'" and rg: "records_grow m m'" and hk: "history_kept m m'"
    using assms(2) by (simp_all add: grows_def)
  have "k < mi_next_keyspace_id m' \<and> kh_generation h < mi_next_commit_seq m' \<and> catalog_present m' (kh_shard_roots h)
      \<and> (\<exists>lo H. keyspace_timeline m' k lo H)"
    if h: "bt_get (mi_keyspace_heads m') k = Some h" for k h
  proof -
    have tl: "\<exists>lo H. keyspace_timeline m' k lo H" if has: "bt_has (mi_keyspace_heads m) k"
    proof -
      obtain lo H where "keyspace_timeline m k lo H"
        using has assms(1) unfolding keyspaces_ok_def bt_has_iff by blast
      with has hk show ?thesis
        unfolding history_kept_def by blast
    qed
    from heads [OF h] show ?thesis
    proof (elim disjE)
      assume old: "bt_get (mi_keyspace_heads m) k = Some h"
      then have "k < mi_next_keyspace_id m" "kh_generation h < mi_next_commit_seq m"
        "catalog_present m (kh_shard_roots h)" "bt_has (mi_keyspace_heads m) k"
        using assms(1) unfolding keyspaces_ok_def by (blast, blast, blast, simp add: bt_has_iff)
      with tl og cg show ?thesis
        by (auto simp: counters_grow_def dest: catalog_present_mono)
    qed (use tl in blast)
  qed
  moreover have "bt_has (mi_keyspace_heads m') (kc_keyspace_id c) \<and> shard_present m' (kc_new_shard c)"
    if "c \<in> set (mi_keyspace_commits m')" for c
    using commits [OF that]
  proof
    assume "c \<in> set (mi_keyspace_commits m)"
    then have "bt_has (mi_keyspace_heads m) (kc_keyspace_id c)" "shard_present m (kc_new_shard c)"
      using assms(1) unfolding keyspaces_ok_def by blast+
    with rg shard_present_mono [OF og] show ?thesis
      unfolding records_grow_def by blast
  qed
  ultimately show ?thesis
    using assms(3) unfolding keyspaces_ok_def by blast
qed

lemma checkpoint_present_grows:
  assumes "grows m m'" "checkpoint_present m c"
  shows "checkpoint_present m' c"
proof (cases "cp_owner c")
  case (BlockDevice d)
  with assms show ?thesis
    using node_present_mono [of m m'] by (auto simp: checkpoint_present_def grows_def records_grow_def)
next
  case (NativeKeyspace k)
  with assms(2) obtain i root where i: "bt_has (mi_keyspace_heads m) k" "cp_roots c = CP_NativeKeyspace i"
    "bt_get (mi_keyspace_roots m) i = Some root" "catalog_present m (kr_shard_roots root)"
    by (auto simp: checkpoint_present_def)
  have "bt_has (mi_keyspace_heads m') k" "bt_get (mi_keyspace_roots m') i = Some root"
    "catalog_present m' (kr_shard_roots root)"
    using assms(1) i catalog_present_mono [OF _ i(4), of m']
    unfolding grows_def records_grow_def objects_grow_def by blast+
  with NativeKeyspace i(2) show ?thesis
    by (simp add: checkpoint_present_def)
qed

lemma checkpoints_ok_step:
  assumes "checkpoints_ok m" "grows m m'" "bt_ok (mi_checkpoints m')"
    and "\<And>i c. bt_get (mi_checkpoints m') i = Some c \<Longrightarrow> bt_get (mi_checkpoints m) i = Some c
      \<or> i < mi_next_checkpoint_id m' \<and> cp_checkpoint_id c = i \<and> cp_time c = cp_commit_seq c \<and> checkpoint_present m' c"
  shows "checkpoints_ok m'"
  unfolding checkpoints_ok_def
proof (intro conjI allI impI assms(3))
  fix i c
  assume c: "bt_get (mi_checkpoints m') i = Some c"
  have "mi_next_checkpoint_id m \<le> mi_next_checkpoint_id m'"
    using assms(2) by (simp add: grows_def counters_grow_def)
  then have "i < mi_next_checkpoint_id m' \<and> cp_checkpoint_id c = i \<and> cp_time c = cp_commit_seq c \<and> checkpoint_present m' c"
    using assms(1) assms(4) [OF c] checkpoint_present_grows [OF assms(2)] unfolding checkpoints_ok_def by fastforce
  then show "i < mi_next_checkpoint_id m'" "cp_checkpoint_id c = i" "cp_time c = cp_commit_seq c" "checkpoint_present m' c"
    by simp_all
qed

subsection \<open>Timelines that a change does not touch\<close>

lemma device_timeline_same:
  assumes "shard_commits_for_device_locked m' d = shard_commits_for_device_locked m d"
    and "owner_checkpoints m' (BlockDevice d) = owner_checkpoints m (BlockDevice d)"
    and "device_any_head m' d = device_any_head m d" "mi_next_commit_seq m \<le> mi_next_commit_seq m'"
    and "device_timeline m d lo H"
  shows "device_timeline m' d lo H"
  using dev.consistent_later assms unfolding device_timeline_def by simp

lemma keyspace_timeline_same:
  assumes "keyspace_commits_for_keyspace_locked m' k = keyspace_commits_for_keyspace_locked m k"
    and "owner_checkpoints m' (NativeKeyspace k) = owner_checkpoints m (NativeKeyspace k)"
    and "bt_get (mi_keyspace_heads m') k = bt_get (mi_keyspace_heads m) k" "mi_next_commit_seq m \<le> mi_next_commit_seq m'"
    and "objects_grow m m'" "checkpoints_ok m" "keyspace_timeline m k lo H"
  shows "keyspace_timeline m' k lo H"
  using ks.consistent_later assms(4,7) keyspace_states_mono [OF assms(5,6)]
  unfolding keyspace_timeline_def assms(1-3) by simp

lemma owner_checkpoints_insert:
  assumes "bt_get (mi_checkpoints m) i = None" "mi_checkpoints m' = bt_insert i c (mi_checkpoints m)"
  shows "owner_checkpoints m' o' = (if cp_owner c = o' then insert c (owner_checkpoints m o') else owner_checkpoints m o')"
proof -
  have "(\<exists>j. bt_get (mi_checkpoints m') j = Some x) \<longleftrightarrow> x = c \<or> (\<exists>j. bt_get (mi_checkpoints m) j = Some x)" for x
    using assms by (auto split: if_splits) (metis option.distinct(1))
  then show ?thesis
    by (auto simp: owner_checkpoints_def)
qed

lemma fresh_checkpoint: "checkpoints_ok m \<Longrightarrow> bt_get (mi_checkpoints m) (mi_next_checkpoint_id m) = None"
  unfolding checkpoints_ok_def by (metis less_irrefl not_Some_eq)

lemma keyspace_history_frame:
  assumes "mi_keyspace_commits m' = mi_keyspace_commits m" "mi_keyspace_heads m' = mi_keyspace_heads m"
    and "\<And>k. owner_checkpoints m' (NativeKeyspace k) = owner_checkpoints m (NativeKeyspace k)"
    and "mi_next_commit_seq m \<le> mi_next_commit_seq m'" "objects_grow m m'" "checkpoints_ok m"
    and "keyspace_timeline m k lo H"
  shows "\<exists>H'. keyspace_timeline m' k lo H' \<and> (\<forall>s<mi_next_commit_seq m. H' s = H s)"
  using keyspace_timeline_same [OF _ assms(3) _ assms(4-7)]
  by (auto simp: keyspace_commits_for_keyspace_locked_def assms(1,2))

lemma device_history_frame:
  assumes "mi_shard_commits m' = mi_shard_commits m" "device_any_head m' d = device_any_head m d"
    and "owner_checkpoints m' (BlockDevice d) = owner_checkpoints m (BlockDevice d)"
    and "mi_next_commit_seq m \<le> mi_next_commit_seq m'" "device_timeline m d lo H"
  shows "\<exists>H'. device_timeline m' d lo H' \<and> (\<forall>s<mi_next_commit_seq m. H' s = H s)"
  using device_timeline_same [OF _ assms(3,2,4,5)]
  by (auto simp: shard_commits_for_device_locked_def assms(1))

subsection \<open>Changes outside the timelines\<close>

lemma frame_step:
  assumes "plane_ok m" "objects_ok m'" "objects_grow m m'" "counters_grow m m'"
    and same: "mi_device_heads m' = mi_device_heads m" "mi_deleted_device_heads m' = mi_deleted_device_heads m"
      "mi_device_specs m' = mi_device_specs m" "mi_keyspace_heads m' = mi_keyspace_heads m"
      "mi_checkpoints m' = mi_checkpoints m" "mi_shard_commits m' = mi_shard_commits m"
      "mi_keyspace_commits m' = mi_keyspace_commits m"
  shows "plane_ok m' \<and> grows m m'"
proof -
  have ok: "objects_ok m" "devices_ok m" "keyspaces_ok m" "checkpoints_ok m" "0 < mi_next_commit_seq m"
    using assms(1) by (simp_all add: plane_ok_def)
  have le: "mi_next_commit_seq m \<le> mi_next_commit_seq m'"
    using assms(4) by (simp add: counters_grow_def)
  have any: "device_any_head m' d = device_any_head m d" for d
    by (simp add: device_any_head_def same cong: option.case_cong)
  have cps: "owner_checkpoints m' o' = owner_checkpoints m o'" for o'
    by (simp add: owner_checkpoints_def same)
  have "history_kept m m'"
    unfolding history_kept_def
    using device_history_frame [OF same(6) any cps le] keyspace_history_frame [OF same(7,4) cps le assms(3) ok(4)]
    by blast
  then have g: "grows m m'"
    using assms(3,4) any by (simp add: grows_def records_grow_def same)
  have "devices_ok m'"
    by (rule devices_ok_step [OF ok(2) g]) (use ok(2) in \<open>auto simp: any same devices_ok_def\<close>)
  moreover have "keyspaces_ok m'"
    by (rule keyspaces_ok_step [OF ok(3) g]) (use ok(3) in \<open>auto simp: same keyspaces_ok_def\<close>)
  moreover have "checkpoints_ok m'"
    by (rule checkpoints_ok_step [OF ok(4) g]) (use ok(4) in \<open>auto simp: same checkpoints_ok_def\<close>)
  ultimately show ?thesis
    using g assms(2) le ok(5) by (simp add: plane_ok_def)
qed

subsection \<open>Installing an owner\<close>

text \<open>A device that was not known before, with its head; its first checkpoint follows separately.\<close>

definition add_device :: "device_id \<Rightarrow> device_spec \<Rightarrow> device_head \<Rightarrow> metadata_inner \<Rightarrow> metadata_inner" where
  "add_device d spec h m = m\<lparr>
    mi_device_specs := bt_insert d spec (mi_device_specs m), mi_device_heads := bt_insert d h (mi_device_heads m)\<rparr>"

lemma add_device_ok:
  assumes "plane_ok m" "device_any_head m d = None" "d < mi_next_device_id m"
    and "dh_latest_commit h < mi_next_commit_seq m" "dh_generation h < mi_next_commit_seq m"
    and "\<forall>r\<in>set (dh_shard_roots h). node_present m r"
  shows "plane_ok (add_device d spec h m) \<and> grows m (add_device d spec h m)"
proof -
  let ?m = "add_device d spec h m"
  have ok: "objects_ok m" "devices_ok m" "keyspaces_ok m" "checkpoints_ok m" "0 < mi_next_commit_seq m"
    using assms(1) by (simp_all add: plane_ok_def)
  have none: "bt_get (mi_device_heads m) d = None" "bt_get (mi_deleted_device_heads m) d = None"
    using assms(2) by (auto simp: device_any_head_def split: option.splits)
  have any: "device_any_head ?m e = (if e = d then Some h else device_any_head m e)" for e
    using none by (simp add: device_any_head_def add_device_def cong: option.case_cong)
  have og: "objects_grow m ?m"
    by (simp add: objects_grow_def add_device_def)
  have seq: "mi_next_commit_seq ?m = mi_next_commit_seq m" and cps: "owner_checkpoints ?m = owner_checkpoints m"
    and log: "mi_shard_commits ?m = mi_shard_commits m" and klog: "mi_keyspace_commits ?m = mi_keyspace_commits m"
    and kh: "mi_keyspace_heads ?m = mi_keyspace_heads m"
    by (auto simp: add_device_def owner_checkpoints_def)
  have "owner_checkpoints m (BlockDevice d) = {}"
    using ok(4) assms(2) by (force simp: owner_checkpoints_def checkpoints_ok_def checkpoint_present_def)
  moreover have "filter (\<lambda>c. sc_device_id c = d) (mi_shard_commits m) = []"
    using ok(2) assms(2) by (fastforce simp: devices_ok_def filter_empty_conv)
  ultimately have new: "device_timeline ?m d (dh_latest_commit h) (\<lambda>_. dh_shard_roots h)"
    using dev.consistent_forget [OF dev.consistent_start [OF assms(4), of "dh_shard_roots h"]]
    by (simp add: device_timeline_def shard_commits_for_device_locked_def log cps any seq)
  have "history_kept m ?m"
    unfolding history_kept_def
  proof (intro conjI allI impI)
    fix e lo H
    assume "device_any_head m e \<noteq> None" and t: "device_timeline m e lo H"
    then have "e \<noteq> d"
      using assms(2) by auto
    then show "\<exists>H'. device_timeline ?m e lo H' \<and> (\<forall>s<mi_next_commit_seq m. H' s = H s)"
      by (intro device_history_frame [OF log _ _ _ t]) (simp_all add: any cps seq)
  next
    fix k lo H
    assume t: "keyspace_timeline m k lo H"
    show "\<exists>H'. keyspace_timeline ?m k lo H' \<and> (\<forall>s<mi_next_commit_seq m. H' s = H s)"
      by (rule keyspace_history_frame [OF klog kh _ _ og ok(4) t]) (simp_all add: cps seq)
  qed
  moreover have "records_grow m ?m"
    using any by (auto simp: records_grow_def add_device_def bt_has_iff)
  ultimately have g: "grows m ?m"
    using og by (simp add: grows_def counters_grow_def add_device_def)
  have "devices_ok ?m"
  proof (rule devices_ok_step [OF ok(2) g])
    fix e h'
    assume "device_any_head ?m e = Some h'"
    then show "device_any_head m e = Some h' \<or> e < mi_next_device_id ?m \<and> dh_generation h' < mi_next_commit_seq ?m
        \<and> bt_has (mi_device_specs ?m) e \<and> (\<forall>r\<in>set (dh_shard_roots h'). node_present ?m r)
        \<and> (device_any_head m e = None \<longrightarrow> (\<exists>lo H. device_timeline ?m e lo H))"
      using any new assms(3,5,6) by (auto simp: add_device_def bt_has_iff split: if_splits)
  qed (use ok(2) none in \<open>auto simp: add_device_def devices_ok_def bt_has_iff split: if_splits\<close>)
  moreover have "keyspaces_ok ?m"
    by (rule keyspaces_ok_step [OF ok(3) g]) (use ok(3) in \<open>auto simp: add_device_def keyspaces_ok_def\<close>)
  moreover have "checkpoints_ok ?m"
    by (rule checkpoints_ok_step [OF ok(4) g]) (use ok(4) in \<open>auto simp: add_device_def checkpoints_ok_def\<close>)
  moreover have "objects_ok ?m"
    using ok(1) by (simp add: objects_ok_def add_device_def)
  ultimately show ?thesis
    using g ok(5) by (simp add: plane_ok_def seq)
qed

definition add_keyspace :: "keyspace_id \<Rightarrow> keyspace_head \<Rightarrow> metadata_inner \<Rightarrow> metadata_inner" where
  "add_keyspace k h m = m\<lparr>mi_keyspace_heads := bt_insert k h (mi_keyspace_heads m)\<rparr>"

lemma add_keyspace_ok:
  assumes "plane_ok m" "\<not> bt_has (mi_keyspace_heads m) k" "k < mi_next_keyspace_id m"
    and "kh_latest_commit h < mi_next_commit_seq m" "kh_generation h < mi_next_commit_seq m"
    and "catalog_present m (kh_shard_roots h)"
  shows "plane_ok (add_keyspace k h m) \<and> grows m (add_keyspace k h m)"
proof -
  let ?m = "add_keyspace k h m"
  have ok: "objects_ok m" "devices_ok m" "keyspaces_ok m" "checkpoints_ok m" "0 < mi_next_commit_seq m"
    using assms(1) by (simp_all add: plane_ok_def)
  have kh: "bt_get (mi_keyspace_heads ?m) j = (if j = k then Some h else bt_get (mi_keyspace_heads m) j)" for j
    by (simp add: add_keyspace_def)
  have og: "objects_grow m ?m"
    by (simp add: objects_grow_def add_keyspace_def)
  have seq: "mi_next_commit_seq ?m = mi_next_commit_seq m" and cps: "owner_checkpoints ?m = owner_checkpoints m"
    and log: "mi_shard_commits ?m = mi_shard_commits m" and klog: "mi_keyspace_commits ?m = mi_keyspace_commits m"
    and any: "device_any_head ?m = device_any_head m"
    by (auto simp: add_keyspace_def owner_checkpoints_def device_any_head_def cong: option.case_cong)
  have no_cps: "owner_checkpoints m (NativeKeyspace k) = {}"
    using ok(4) assms(2) by (force simp: owner_checkpoints_def checkpoints_ok_def checkpoint_present_def)
  moreover have "filter (\<lambda>c. kc_keyspace_id c = k) (mi_keyspace_commits m) = []"
    using ok(3) assms(2) by (fastforce simp: keyspaces_ok_def filter_empty_conv)
  ultimately have new: "keyspace_timeline ?m k (kh_latest_commit h) (\<lambda>_. (kh_shard_roots h, kh_file_count h))"
    using ks.consistent_forget [OF ks.consistent_start [OF assms(4), of "(kh_shard_roots h, kh_file_count h)"]]
    by (simp add: keyspace_timeline_def keyspace_commits_for_keyspace_locked_def klog cps kh seq)
  have "history_kept m ?m"
    unfolding history_kept_def
  proof (intro conjI allI impI)
    fix d lo H
    assume t: "device_timeline m d lo H"
    show "\<exists>H'. device_timeline ?m d lo H' \<and> (\<forall>s<mi_next_commit_seq m. H' s = H s)"
      by (rule device_history_frame [OF log _ _ _ t]) (simp_all add: any cps seq)
  next
    fix j lo H
    assume "bt_has (mi_keyspace_heads m) j" and t: "keyspace_timeline m j lo H"
    then have "j \<noteq> k"
      using assms(2) by auto
    then have "keyspace_timeline ?m j lo H"
      by (intro keyspace_timeline_same [OF _ _ _ _ og ok(4) t])
        (simp_all add: keyspace_commits_for_keyspace_locked_def klog cps seq kh)
    then show "\<exists>H'. keyspace_timeline ?m j lo H' \<and> (\<forall>s<mi_next_commit_seq m. H' s = H s)"
      by blast
  qed
  moreover have "records_grow m ?m"
    using any kh by (auto simp: records_grow_def add_keyspace_def bt_has_iff)
  ultimately have g: "grows m ?m"
    using og by (simp add: grows_def counters_grow_def add_keyspace_def)
  have "devices_ok ?m"
    by (rule devices_ok_step [OF ok(2) g]) (use ok(2) in \<open>auto simp: add_keyspace_def any [unfolded add_keyspace_def] devices_ok_def\<close>)
  moreover have "keyspaces_ok ?m"
  proof (rule keyspaces_ok_step [OF ok(3) g])
    fix j h'
    assume "bt_get (mi_keyspace_heads ?m) j = Some h'"
    then show "bt_get (mi_keyspace_heads m) j = Some h' \<or> j < mi_next_keyspace_id ?m
        \<and> kh_generation h' < mi_next_commit_seq ?m \<and> catalog_present ?m (kh_shard_roots h')
        \<and> (\<not> bt_has (mi_keyspace_heads m) j \<longrightarrow> (\<exists>lo H. keyspace_timeline ?m j lo H))"
      using kh new assms(3,5) catalog_present_mono [OF og assms(6)]
      by (auto simp: add_keyspace_def split: if_splits)
  qed (use ok(3) in \<open>auto simp: add_keyspace_def keyspaces_ok_def\<close>)
  moreover have "checkpoints_ok ?m"
    by (rule checkpoints_ok_step [OF ok(4) g]) (use ok(4) in \<open>auto simp: add_keyspace_def checkpoints_ok_def\<close>)
  moreover have "objects_ok ?m"
    using ok(1) by (simp add: objects_ok_def add_keyspace_def)
  ultimately show ?thesis
    using g ok(5) by (simp add: plane_ok_def seq)
qed

subsection \<open>Adding a checkpoint\<close>

definition new_checkpoint :: "mapping_owner \<Rightarrow> commit_seq \<Rightarrow> checkpoint_roots \<Rightarrow> metadata_inner \<Rightarrow> checkpoint" where
  "new_checkpoint o' q roots m =
    \<lparr>cp_checkpoint_id = mi_next_checkpoint_id m, cp_commit_seq = q, cp_time = q, cp_owner = o', cp_roots = roots\<rparr>"

definition with_checkpoint :: "mapping_owner \<Rightarrow> commit_seq \<Rightarrow> checkpoint_roots \<Rightarrow> metadata_inner \<Rightarrow> metadata_inner" where
  "with_checkpoint o' q roots m = m\<lparr>
    mi_next_checkpoint_id := mi_next_checkpoint_id m + 1,
    mi_checkpoints := bt_insert (mi_next_checkpoint_id m) (new_checkpoint o' q roots m) (mi_checkpoints m)\<rparr>"

lemma insert_checkpoint_run:
  "insert_checkpoint o' q roots m =
    (if mi_next_checkpoint_id m + 1 < u128_limit then (Inr (mi_next_checkpoint_id m), with_checkpoint o' q roots m)
     else (Inl Panic, m))"
  by (simp add: insert_checkpoint_def alloc_checkpoint_id_def alloc_id_def run_defs ensure_def
      with_checkpoint_def new_checkpoint_def)

lemma with_checkpoint_ok:
  assumes "plane_ok m" "checkpoint_present m (new_checkpoint o' q roots m)"
    and dev: "\<And>d lo H. o' = BlockDevice d \<Longrightarrow> device_timeline m d lo H \<Longrightarrow>
      lo \<le> q \<and> q < mi_next_commit_seq m \<and> block_roots_of roots = Some (H q)
      \<and> (\<forall>h. device_any_head m d = Some h \<longrightarrow> q \<le> dh_latest_commit h)"
    and ks: "\<And>k lo H. o' = NativeKeyspace k \<Longrightarrow> keyspace_timeline m k lo H \<Longrightarrow>
      lo \<le> q \<and> q < mi_next_commit_seq m \<and> keyspace_state_of (mi_keyspace_roots m) roots = Some (H q)
      \<and> (\<forall>h. bt_get (mi_keyspace_heads m) k = Some h \<longrightarrow> q \<le> kh_latest_commit h)"
  shows "plane_ok (with_checkpoint o' q roots m) \<and> grows m (with_checkpoint o' q roots m)"
proof -
  let ?m = "with_checkpoint o' q roots m" and ?c = "new_checkpoint o' q roots m"
  have ok: "objects_ok m" "devices_ok m" "keyspaces_ok m" "checkpoints_ok m" "0 < mi_next_commit_seq m"
    using assms(1) by (simp_all add: plane_ok_def)
  have og: "objects_grow m ?m"
    by (simp add: objects_grow_def with_checkpoint_def)
  have seq: "mi_next_commit_seq ?m = mi_next_commit_seq m"
    and log: "mi_shard_commits ?m = mi_shard_commits m" and klog: "mi_keyspace_commits ?m = mi_keyspace_commits m"
    and kh: "mi_keyspace_heads ?m = mi_keyspace_heads m" and any: "device_any_head ?m = device_any_head m"
    and kr: "mi_keyspace_roots ?m = mi_keyspace_roots m"
    and dh: "mi_device_heads ?m = mi_device_heads m" "mi_deleted_device_heads ?m = mi_deleted_device_heads m"
      "mi_device_specs ?m = mi_device_specs m"
    by (auto simp: with_checkpoint_def device_any_head_def cong: option.case_cong)
  have cps: "owner_checkpoints ?m x = (if o' = x then insert ?c (owner_checkpoints m x) else owner_checkpoints m x)" for x
    using owner_checkpoints_insert [OF fresh_checkpoint [OF ok(4)], of ?m ?c x]
    by (simp add: with_checkpoint_def new_checkpoint_def)
  have "device_timeline ?m d lo H" if t: "device_timeline m d lo H" for d lo H
  proof (cases "o' = BlockDevice d")
    case True
    have "owner_checkpoints ?m (BlockDevice d) = insert ?c (owner_checkpoints m (BlockDevice d))"
      using cps True by simp
    moreover note dev.consistent_checkpoint [OF t [unfolded device_timeline_def], of q]
    moreover have "q \<le> t" if "map_option (\<lambda>h. (dh_latest_commit h, dh_shard_roots h)) (device_any_head m d) = Some (t, R)" for t R
      using that dev [OF True t] by auto
    ultimately show ?thesis
      using dev [OF True t]
      by (simp add: device_timeline_def shard_commits_for_device_locked_def log any seq new_checkpoint_def)
  next
    case False
    then show ?thesis
      by (intro device_timeline_same [OF _ _ _ _ t]) (simp_all add: shard_commits_for_device_locked_def log cps any seq)
  qed
  moreover have "keyspace_timeline ?m k lo H" if t: "keyspace_timeline m k lo H" for k lo H
  proof (cases "o' = NativeKeyspace k")
    case True
    have "owner_checkpoints ?m (NativeKeyspace k) = insert ?c (owner_checkpoints m (NativeKeyspace k))"
      using cps True by simp
    moreover note ks.consistent_checkpoint [OF t [unfolded keyspace_timeline_def], of q]
    moreover have "q \<le> t" if "map_option (\<lambda>h. (kh_latest_commit h, (kh_shard_roots h, kh_file_count h)))
        (bt_get (mi_keyspace_heads m) k) = Some (t, R)" for t R
      using that ks [OF True t] by auto
    ultimately show ?thesis
      using ks [OF True t]
      by (simp add: keyspace_timeline_def keyspace_commits_for_keyspace_locked_def klog kh seq kr new_checkpoint_def)
  next
    case False
    then show ?thesis
      by (intro keyspace_timeline_same [OF _ _ _ _ og ok(4) t])
        (simp_all add: keyspace_commits_for_keyspace_locked_def klog cps kh seq)
  qed
  ultimately have "history_kept m ?m"
    unfolding history_kept_def by blast
  moreover have "records_grow m ?m"
    using fresh_checkpoint [OF ok(4)]
    by (simp add: records_grow_def any log klog kh dh) (auto simp: with_checkpoint_def)
  ultimately have g: "grows m ?m"
    using og by (simp add: grows_def counters_grow_def with_checkpoint_def)
  have "devices_ok ?m"
    by (rule devices_ok_step [OF ok(2) g]) (use ok(2) in \<open>auto simp: any log dh devices_ok_def\<close>)
  moreover have "keyspaces_ok ?m"
    by (rule keyspaces_ok_step [OF ok(3) g]) (use ok(3) in \<open>auto simp: with_checkpoint_def keyspaces_ok_def\<close>)
  moreover have "checkpoints_ok ?m"
  proof (rule checkpoints_ok_step [OF ok(4) g])
    fix i c
    assume "bt_get (mi_checkpoints ?m) i = Some c"
    then show "bt_get (mi_checkpoints m) i = Some c \<or> i < mi_next_checkpoint_id ?m \<and> cp_checkpoint_id c = i
        \<and> cp_time c = cp_commit_seq c \<and> checkpoint_present ?m c"
      using checkpoint_present_grows [OF g assms(2)]
      by (auto simp: with_checkpoint_def new_checkpoint_def split: if_splits)
  qed (use ok(4) in \<open>auto simp: with_checkpoint_def checkpoints_ok_def\<close>)
  moreover have "objects_ok ?m"
    using ok(1) by (simp add: objects_ok_def with_checkpoint_def)
  ultimately show ?thesis
    using g ok(5) by (simp add: plane_ok_def seq)
qed

subsection \<open>Advancing and closing an owner\<close>

text \<open>A device takes one more commit.\<close>

definition push_shard_commits :: "device_id \<Rightarrow> shard_commit list \<Rightarrow> device_head \<Rightarrow> metadata_inner \<Rightarrow> metadata_inner" where
  "push_shard_commits d new h m = m\<lparr>
    mi_next_commit_seq := mi_next_commit_seq m + 1,
    mi_shard_commits := mi_shard_commits m @ new,
    mi_device_heads := bt_insert d h (mi_device_heads m)\<rparr>"

lemma shard_commits_push:
  assumes "\<forall>c\<in>set (mi_shard_commits m). sc_device_id c = d \<longrightarrow> sc_commit_seq c < n"
    and "\<forall>c\<in>set new. sc_device_id c = d \<and> sc_commit_seq c = n"
    and "mi_shard_commits m' = mi_shard_commits m @ new"
  shows "shard_commits_for_device_locked m' d = shard_commits_for_device_locked m d
    @ sort_key (\<lambda>c. (sc_commit_seq c, sc_shard_id c)) new"
proof -
  have "filter (\<lambda>c. sc_device_id c = d) new = new"
    using assms(2) by (simp add: filter_id_conv)
  then show ?thesis
    unfolding shard_commits_for_device_locked_def assms(3) filter_append
    by (simp add: sort_key_append_le assms(1,2))
qed

lemma push_shard_commits_ok:
  assumes "plane_ok m" "bt_get (mi_device_heads m) d = Some h"
    and "\<forall>c\<in>set new. sc_device_id c = d \<and> sc_commit_seq c = mi_next_commit_seq m \<and> node_present m (sc_new_root c)"
    and "foldR replay_shard_commit (dh_shard_roots h) new = Inr (dh_shard_roots h')"
    and "dh_latest_commit h' = mi_next_commit_seq m" "dh_generation h' = dh_generation h + 1"
  shows "plane_ok (push_shard_commits d new h' m) \<and> grows m (push_shard_commits d new h' m)"
proof -
  let ?m = "push_shard_commits d new h' m" and ?n = "mi_next_commit_seq m"
  have ok: "objects_ok m" "devices_ok m" "keyspaces_ok m" "checkpoints_ok m" "0 < mi_next_commit_seq m"
    using assms(1) by (simp_all add: plane_ok_def)
  have h: "device_any_head m d = Some h"
    by (simp add: device_any_head_def assms(2))
  have any: "device_any_head ?m e = (if e = d then Some h' else device_any_head m e)" for e
    by (simp add: device_any_head_def push_shard_commits_def cong: option.case_cong)
  have og: "objects_grow m ?m"
    by (simp add: objects_grow_def push_shard_commits_def)
  have seq: "mi_next_commit_seq ?m = Suc ?n" and log: "mi_shard_commits ?m = mi_shard_commits m @ new"
    and klog: "mi_keyspace_commits ?m = mi_keyspace_commits m" and kh: "mi_keyspace_heads ?m = mi_keyspace_heads m"
    and cps: "owner_checkpoints ?m = owner_checkpoints m"
    by (auto simp: push_shard_commits_def owner_checkpoints_def)
  have other: "shard_commits_for_device_locked ?m e = shard_commits_for_device_locked m e" if "e \<noteq> d" for e
  proof -
    have "filter (\<lambda>c. sc_device_id c = e) new = []"
      using assms(3) that by (auto simp: filter_empty_conv)
    then show ?thesis
      by (simp add: shard_commits_for_device_locked_def log)
  qed
  have advanced: "device_timeline ?m d lo (\<lambda>s. if s < ?n then H s else dh_shard_roots h')"
    if t: "device_timeline m d lo H" for lo H
  proof -
    have cons: "dev.consistent (shard_commits_for_device_locked m d)
        ((\<lambda>c. (cp_commit_seq c, block_roots_of (cp_roots c))) ` owner_checkpoints m (BlockDevice d))
        (Some (dh_latest_commit h, dh_shard_roots h)) ?n lo H"
      using t by (simp add: device_timeline_def h)
    then have "\<forall>c\<in>set (mi_shard_commits m). sc_device_id c = d \<longrightarrow> sc_commit_seq c < ?n"
      by (auto simp: dev.consistent_def shard_commits_for_device_locked_def)
    then have split: "shard_commits_for_device_locked ?m d = shard_commits_for_device_locked m d
        @ sort_key (\<lambda>c. (sc_commit_seq c, sc_shard_id c)) new"
      by (rule shard_commits_push) (use assms(3) in \<open>simp_all add: log\<close>)
    have "foldR replay_shard_commit (dh_shard_roots h) (sort_key (\<lambda>c. (sc_commit_seq c, sc_shard_id c)) new)
        = Inr (dh_shard_roots h')"
      by (rule shard_log.fold_sort [OF assms(4)]) (use assms(3) in simp)
    from dev.consistent_append [OF cons _ this] show ?thesis
      using assms(3,5) by (simp add: device_timeline_def split cps any seq)
  qed
  have "history_kept m ?m"
    unfolding history_kept_def
  proof (intro conjI allI impI)
    fix e lo H
    assume t: "device_timeline m e lo H"
    show "\<exists>H'. device_timeline ?m e lo H' \<and> (\<forall>s<?n. H' s = H s)"
    proof (cases "e = d")
      case True
      with advanced [of lo H] t show ?thesis
        by (intro exI [of _ "\<lambda>s. if s < ?n then H s else dh_shard_roots h'"]) simp
    next
      case False
      then have "device_timeline ?m e lo H"
        by (intro device_timeline_same [OF other _ _ _ t]) (simp_all add: cps any seq)
      then show ?thesis
        by blast
    qed
  next
    fix k lo H
    assume t: "keyspace_timeline m k lo H"
    show "\<exists>H'. keyspace_timeline ?m k lo H' \<and> (\<forall>s<?n. H' s = H s)"
      by (rule keyspace_history_frame [OF klog kh _ _ og ok(4) t]) (simp_all add: cps seq)
  qed
  moreover have "records_grow m ?m"
    using any by (auto simp: records_grow_def push_shard_commits_def)
  ultimately have g: "grows m ?m"
    using og by (simp add: grows_def counters_grow_def push_shard_commits_def)
  have h_ok: "d < mi_next_device_id m" "dh_generation h < ?n" "bt_has (mi_device_specs m) d"
    "\<forall>r\<in>set (dh_shard_roots h). node_present m r" "bt_get (mi_deleted_device_heads m) d = None"
    using ok(2) h assms(2) unfolding devices_ok_def bt_has_iff by (blast, blast, blast, blast, fastforce)
  have roots: "node_present m r" if "r \<in> set (dh_shard_roots h')" for r
    using shard_log.fold_slots [OF assms(4) that] h_ok(4) assms(3) by auto
  have "devices_ok ?m"
  proof (rule devices_ok_step [OF ok(2) g])
    fix e g
    assume "device_any_head ?m e = Some g"
    then show "device_any_head m e = Some g \<or> e < mi_next_device_id ?m \<and> dh_generation g < mi_next_commit_seq ?m
        \<and> bt_has (mi_device_specs ?m) e \<and> (\<forall>r\<in>set (dh_shard_roots g). node_present ?m r)
        \<and> (device_any_head m e = None \<longrightarrow> (\<exists>lo H. device_timeline ?m e lo H))"
      using any h h_ok roots assms(6) by (auto simp: push_shard_commits_def split: if_splits)
  next
    fix c
    assume "c \<in> set (mi_shard_commits ?m)"
    then show "c \<in> set (mi_shard_commits m) \<or> device_any_head ?m (sc_device_id c) \<noteq> None \<and> node_present ?m (sc_new_root c)"
      using assms(3) any by (auto simp: push_shard_commits_def)
  qed (use ok(2) h_ok(5) in \<open>auto simp: push_shard_commits_def devices_ok_def bt_has_iff split: if_splits\<close>)
  moreover have "keyspaces_ok ?m"
    by (rule keyspaces_ok_step [OF ok(3) g]) (use ok(3) in \<open>auto simp: push_shard_commits_def keyspaces_ok_def\<close>)
  moreover have "checkpoints_ok ?m"
    by (rule checkpoints_ok_step [OF ok(4) g]) (use ok(4) in \<open>auto simp: push_shard_commits_def checkpoints_ok_def\<close>)
  moreover have "objects_ok ?m"
    using ok(1) by (simp add: objects_ok_def push_shard_commits_def)
  ultimately show ?thesis
    using g by (simp add: plane_ok_def seq)
qed

text \<open>A keyspace takes one more commit.\<close>

definition push_keyspace_commit :: "keyspace_id \<Rightarrow> keyspace_commit \<Rightarrow> keyspace_head \<Rightarrow> metadata_inner \<Rightarrow> metadata_inner" where
  "push_keyspace_commit k c h m = m\<lparr>
    mi_next_commit_seq := mi_next_commit_seq m + 1,
    mi_keyspace_commits := mi_keyspace_commits m @ [c],
    mi_keyspace_heads := bt_insert k h (mi_keyspace_heads m)\<rparr>"

lemma push_keyspace_commit_ok:
  assumes "plane_ok m" "bt_get (mi_keyspace_heads m) k = Some h"
    and "kc_keyspace_id c = k" "kc_commit_seq c = mi_next_commit_seq m" "shard_present m (kc_new_shard c)"
    and "replay_keyspace_commit (kh_shard_roots h, kh_file_count h) c = Inr (kh_shard_roots h', kh_file_count h')"
    and "kh_latest_commit h' = mi_next_commit_seq m" "kh_generation h' = kh_generation h + 1"
  shows "plane_ok (push_keyspace_commit k c h' m) \<and> grows m (push_keyspace_commit k c h' m)"
proof -
  let ?m = "push_keyspace_commit k c h' m" and ?n = "mi_next_commit_seq m"
  let ?new = "\<lambda>H s. if s < ?n then H s else (kh_shard_roots h', kh_file_count h')"
  have ok: "objects_ok m" "devices_ok m" "keyspaces_ok m" "checkpoints_ok m" "0 < mi_next_commit_seq m"
    using assms(1) by (simp_all add: plane_ok_def)
  have kh: "bt_get (mi_keyspace_heads ?m) j = (if j = k then Some h' else bt_get (mi_keyspace_heads m) j)" for j
    by (simp add: push_keyspace_commit_def)
  have og: "objects_grow m ?m"
    by (simp add: objects_grow_def push_keyspace_commit_def)
  have seq: "mi_next_commit_seq ?m = Suc ?n" and log: "mi_shard_commits ?m = mi_shard_commits m"
    and klog: "mi_keyspace_commits ?m = mi_keyspace_commits m @ [c]" and any: "device_any_head ?m = device_any_head m"
    and cps: "owner_checkpoints ?m = owner_checkpoints m" and kr: "mi_keyspace_roots ?m = mi_keyspace_roots m"
    and dh: "mi_device_heads ?m = mi_device_heads m" "mi_deleted_device_heads ?m = mi_deleted_device_heads m"
      "mi_device_specs ?m = mi_device_specs m"
    by (auto simp: push_keyspace_commit_def owner_checkpoints_def device_any_head_def cong: option.case_cong)
  have other: "keyspace_commits_for_keyspace_locked ?m j = keyspace_commits_for_keyspace_locked m j" if "j \<noteq> k" for j
    using that assms(3) by (simp add: keyspace_commits_for_keyspace_locked_def klog)
  have advanced: "keyspace_timeline ?m k lo (?new H)" if t: "keyspace_timeline m k lo H" for lo H
  proof -
    have cons: "ks.consistent (keyspace_commits_for_keyspace_locked m k)
        ((\<lambda>c. (cp_commit_seq c, keyspace_state_of (mi_keyspace_roots m) (cp_roots c))) ` owner_checkpoints m (NativeKeyspace k))
        (Some (kh_latest_commit h, kh_shard_roots h, kh_file_count h)) ?n lo H"
      using t by (simp add: keyspace_timeline_def assms(2))
    then have "\<forall>x\<in>set (filter (\<lambda>x. kc_keyspace_id x = k) (mi_keyspace_commits m)). \<forall>y\<in>set [c]. kc_commit_seq x < kc_commit_seq y"
      by (auto simp: ks.consistent_def keyspace_commits_for_keyspace_locked_def assms(4))
    then have split: "keyspace_commits_for_keyspace_locked ?m k = keyspace_commits_for_keyspace_locked m k @ [c]"
      using assms(3) sort_key_append_le [of _ "[c]" kc_commit_seq]
      by (simp add: keyspace_commits_for_keyspace_locked_def klog)
    have "foldR replay_keyspace_commit (kh_shard_roots h, kh_file_count h) [c] = Inr (kh_shard_roots h', kh_file_count h')"
      using assms(6) by simp
    from ks.consistent_append [OF cons _ this] show ?thesis
      using assms(4,7) by (simp add: keyspace_timeline_def split cps kh seq kr)
  qed
  have "history_kept m ?m"
    unfolding history_kept_def
  proof (intro conjI allI impI)
    fix d lo H
    assume t: "device_timeline m d lo H"
    show "\<exists>H'. device_timeline ?m d lo H' \<and> (\<forall>s<?n. H' s = H s)"
      by (rule device_history_frame [OF log _ _ _ t]) (simp_all add: any cps seq)
  next
    fix j lo H
    assume t: "keyspace_timeline m j lo H"
    show "\<exists>H'. keyspace_timeline ?m j lo H' \<and> (\<forall>s<?n. H' s = H s)"
    proof (cases "j = k")
      case True
      with advanced [of lo H] t show ?thesis
        by (intro exI [of _ "?new H"]) simp
    next
      case False
      then have "keyspace_timeline ?m j lo H"
        by (intro keyspace_timeline_same [OF other _ _ _ og ok(4) t]) (simp_all add: cps kh seq)
      then show ?thesis
        by blast
    qed
  qed
  moreover have "records_grow m ?m"
    by (simp add: records_grow_def any dh log klog kh bt_has_iff) (auto simp: push_keyspace_commit_def)
  ultimately have g: "grows m ?m"
    using og by (simp add: grows_def counters_grow_def push_keyspace_commit_def)
  have h_ok: "k < mi_next_keyspace_id m" "kh_generation h < ?n" "catalog_present m (kh_shard_roots h)"
    using ok(3) assms(2) unfolding keyspaces_ok_def by blast+
  have next_roots: "(kh_shard_roots h)[kc_shard_index c := kc_new_shard c] = kh_shard_roots h'"
    using assms(6) by (simp add: replay_keyspace_commit_def)
  have "catalog_present m (kh_shard_roots h')"
    using h_ok(3) assms(5) set_update_subset_insert [of "kh_shard_roots h" "kc_shard_index c" "kc_new_shard c"]
      arg_cong [of _ _ length, OF next_roots]
    by (auto simp: catalog_present_def next_roots [symmetric])
  then have present: "catalog_present ?m (kh_shard_roots h')"
    by (rule catalog_present_mono [OF og])
  have "devices_ok ?m"
    by (rule devices_ok_step [OF ok(2) g]) (use ok(2) in \<open>auto simp: any log dh devices_ok_def\<close>)
  moreover have "keyspaces_ok ?m"
  proof (rule keyspaces_ok_step [OF ok(3) g])
    fix j g
    assume "bt_get (mi_keyspace_heads ?m) j = Some g"
    then show "bt_get (mi_keyspace_heads m) j = Some g \<or> j < mi_next_keyspace_id ?m
        \<and> kh_generation g < mi_next_commit_seq ?m \<and> catalog_present ?m (kh_shard_roots g)
        \<and> (\<not> bt_has (mi_keyspace_heads m) j \<longrightarrow> (\<exists>lo H. keyspace_timeline ?m j lo H))"
      using kh h_ok present assms(2,8) by (auto simp: seq push_keyspace_commit_def bt_has_iff split: if_splits)
  next
    fix x
    assume "x \<in> set (mi_keyspace_commits ?m)"
    then show "x \<in> set (mi_keyspace_commits m)
        \<or> bt_has (mi_keyspace_heads ?m) (kc_keyspace_id x) \<and> shard_present ?m (kc_new_shard x)"
      using assms(3) shard_present_mono [OF og assms(5)] by (auto simp: klog kh bt_has_iff)
  qed (use ok(3) in \<open>auto simp: push_keyspace_commit_def keyspaces_ok_def\<close>)
  moreover have "checkpoints_ok ?m"
    by (rule checkpoints_ok_step [OF ok(4) g]) (use ok(4) in \<open>auto simp: push_keyspace_commit_def checkpoints_ok_def\<close>)
  moreover have "objects_ok ?m"
    using ok(1) by (simp add: objects_ok_def push_keyspace_commit_def)
  ultimately show ?thesis
    using g by (simp add: plane_ok_def seq)
qed

text \<open>A device is deleted: its head moves aside and its timeline ends.\<close>

definition close_device :: "device_id \<Rightarrow> device_head \<Rightarrow> metadata_inner \<Rightarrow> metadata_inner" where
  "close_device d h m = m\<lparr>
    mi_next_commit_seq := mi_next_commit_seq m + 1,
    mi_device_heads := bt_remove d (mi_device_heads m),
    mi_deleted_device_heads := bt_insert d (h\<lparr>dh_latest_commit := mi_next_commit_seq m\<rparr>) (mi_deleted_device_heads m)\<rparr>"

lemma close_device_ok:
  assumes "plane_ok m" "bt_get (mi_device_heads m) d = Some h"
  shows "plane_ok (close_device d h m) \<and> grows m (close_device d h m)"
proof -
  let ?m = "close_device d h m" and ?n = "mi_next_commit_seq m"
  let ?h = "h\<lparr>dh_latest_commit := mi_next_commit_seq m\<rparr>"
  have ok: "objects_ok m" "devices_ok m" "keyspaces_ok m" "checkpoints_ok m" "0 < mi_next_commit_seq m"
    using assms(1) by (simp_all add: plane_ok_def)
  have h: "device_any_head m d = Some h"
    by (simp add: device_any_head_def assms(2))
  have any: "device_any_head ?m e = (if e = d then Some ?h else device_any_head m e)" for e
    by (simp add: device_any_head_def close_device_def cong: option.case_cong)
  have og: "objects_grow m ?m"
    by (simp add: objects_grow_def close_device_def)
  have seq: "mi_next_commit_seq ?m = Suc ?n" and log: "mi_shard_commits ?m = mi_shard_commits m"
    and klog: "mi_keyspace_commits ?m = mi_keyspace_commits m" and kh: "mi_keyspace_heads ?m = mi_keyspace_heads m"
    and cps: "owner_checkpoints ?m = owner_checkpoints m"
    by (auto simp: close_device_def owner_checkpoints_def)
  have closed: "device_timeline ?m d lo H" if t: "device_timeline m d lo H" for lo H
    using dev.consistent_close [OF t [unfolded device_timeline_def h option.map]]
    by (simp add: device_timeline_def shard_commits_for_device_locked_def log cps any seq)
  have "history_kept m ?m"
    unfolding history_kept_def
  proof (intro conjI allI impI)
    fix e lo H
    assume t: "device_timeline m e lo H"
    show "\<exists>H'. device_timeline ?m e lo H' \<and> (\<forall>s<?n. H' s = H s)"
    proof (cases "e = d")
      case True
      with closed t show ?thesis
        by blast
    next
      case False
      then show ?thesis
        by (intro device_history_frame [OF log _ _ _ t]) (simp_all add: any cps seq)
    qed
  next
    fix k lo H
    assume t: "keyspace_timeline m k lo H"
    show "\<exists>H'. keyspace_timeline ?m k lo H' \<and> (\<forall>s<?n. H' s = H s)"
      by (rule keyspace_history_frame [OF klog kh _ _ og ok(4) t]) (simp_all add: cps seq)
  qed
  moreover have "records_grow m ?m"
    using any by (auto simp: records_grow_def close_device_def)
  ultimately have g: "grows m ?m"
    using og by (simp add: grows_def counters_grow_def close_device_def)
  have "devices_ok ?m"
  proof (rule devices_ok_step [OF ok(2) g])
    fix e g
    assume "device_any_head ?m e = Some g"
    moreover have "d < mi_next_device_id m \<and> dh_generation h < ?n \<and> bt_has (mi_device_specs m) d
        \<and> (\<forall>r\<in>set (dh_shard_roots h). node_present m r)"
      using ok(2) h unfolding devices_ok_def by blast
    ultimately show "device_any_head m e = Some g \<or> e < mi_next_device_id ?m \<and> dh_generation g < mi_next_commit_seq ?m
        \<and> bt_has (mi_device_specs ?m) e \<and> (\<forall>r\<in>set (dh_shard_roots g). node_present ?m r)
        \<and> (device_any_head m e = None \<longrightarrow> (\<exists>lo H. device_timeline ?m e lo H))"
      using any h by (auto simp: close_device_def split: if_splits)
  qed (use ok(2) in \<open>auto simp: close_device_def devices_ok_def bt_has_iff split: if_splits\<close>)
  moreover have "keyspaces_ok ?m"
    by (rule keyspaces_ok_step [OF ok(3) g]) (use ok(3) in \<open>auto simp: close_device_def keyspaces_ok_def\<close>)
  moreover have "checkpoints_ok ?m"
    by (rule checkpoints_ok_step [OF ok(4) g]) (use ok(4) in \<open>auto simp: close_device_def checkpoints_ok_def\<close>)
  moreover have "objects_ok ?m"
    using ok(1) by (simp add: objects_ok_def close_device_def)
  ultimately show ?thesis
    using g by (simp add: plane_ok_def seq)
qed

end
