(* ===== verification/Metadata_Steps.thy ===== *)
theory Metadata_Steps
  imports Metadata_Timeline
begin

text \<open>
  Every operation of the metadata plane keeps the invariant and every owner's past, whatever its
  outcome.  Each operation is unfolded once into a case distinction over its outcomes; the changes
  they make are those of \<^verbatim>\<open>Metadata_Timeline\<close>.
\<close>

section \<open>Changes that touch no timeline\<close>

lemma alloc_id_run:
  "alloc_id limit e get put m = (if get m + 1 < limit then (Inr (get m), put (get m + 1) m) else (Inl e, m))"
  by (simp add: alloc_id_def run_defs ensure_def)

lemmas alloc_runs = alloc_defs alloc_id_run

text \<open>One step of a run.\<close>

lemma seqM_steps:
  "seqM (liftM r) f m = (case r of Inl e \<Rightarrow> (Inl e, m) | Inr x \<Rightarrow> f x m)"
  "seqM (askM g) f m = (case g m of Inl e \<Rightarrow> (Inl e, m) | Inr x \<Rightarrow> f x m)"
  "seqM (getM h) f m = f (h m) m"
  "seqM (modM k) f' m = f' () (k m)"
  by (simp_all add: run_defs)

lemma seqM_alloc:
  "seqM (alloc_id limit e get put) f m = (if get m + 1 < limit then f (get m) (put (get m + 1) m) else (Inl e, m))"
  by (simp add: alloc_id_run seqM_def)

lemma seqM_known: "g m = (q, m1) \<Longrightarrow> seqM g f m = (case q of Inl e \<Rightarrow> (Inl e, m1) | Inr x \<Rightarrow> f x m1)"
  by (simp add: seqM_def)

lemma seqM_return: "seqM g (\<lambda>_. returnM y) m = (case g m of (Inl e, m1) \<Rightarrow> (Inl e, m1) | (Inr _, m1) \<Rightarrow> (Inr y, m1))"
  by (simp add: seqM_def returnM_def split: prod.splits sum.splits)

definition same_core :: "metadata_inner \<Rightarrow> metadata_inner \<Rightarrow> bool" where
  "same_core m m' \<longleftrightarrow>
    mi_device_heads m' = mi_device_heads m \<and> mi_deleted_device_heads m' = mi_deleted_device_heads m
    \<and> mi_device_specs m' = mi_device_specs m \<and> mi_keyspace_heads m' = mi_keyspace_heads m
    \<and> mi_checkpoints m' = mi_checkpoints m \<and> mi_shard_commits m' = mi_shard_commits m
    \<and> mi_keyspace_commits m' = mi_keyspace_commits m \<and> mi_metadata_nodes m' = mi_metadata_nodes m
    \<and> mi_keyspace_catalog_shards m' = mi_keyspace_catalog_shards m \<and> mi_keyspace_roots m' = mi_keyspace_roots m
    \<and> mi_next_metadata_node_id m' = mi_next_metadata_node_id m
    \<and> mi_next_keyspace_catalog_shard_id m' = mi_next_keyspace_catalog_shard_id m
    \<and> mi_next_keyspace_root_id m' = mi_next_keyspace_root_id m
    \<and> mi_next_device_id m \<le> mi_next_device_id m' \<and> mi_next_keyspace_id m \<le> mi_next_keyspace_id m'
    \<and> mi_next_commit_seq m \<le> mi_next_commit_seq m' \<and> mi_next_checkpoint_id m \<le> mi_next_checkpoint_id m'"

lemma same_core_ok:
  assumes "plane_ok m" "same_core m m'"
  shows "plane_ok m' \<and> grows m m'"
  by (rule frame_step)
    (use assms in \<open>auto simp: same_core_def plane_ok_def objects_ok_def objects_grow_def counters_grow_def\<close>)

lemma same_core_refl [simp]: "same_core m m"
  by (simp add: same_core_def)

text \<open>The shape of every result below.\<close>

definition keeps :: "metadata_inner \<Rightarrow> metadata_inner \<Rightarrow> bool" where
  "keeps m m' \<longleftrightarrow> plane_ok m' \<and> grows m m'"

lemma keeps_trans: "keeps m m1 \<Longrightarrow> keeps m1 m2 \<Longrightarrow> keeps m m2"
  using grows_trans by (auto simp: keeps_def)

lemma keeps_refl: "plane_ok m \<Longrightarrow> keeps m m"
  by (simp add: keeps_def)

lemma keeps_core: "keeps m m1 \<Longrightarrow> same_core m1 m2 \<Longrightarrow> keeps m m2"
  using same_core_ok grows_trans by (auto simp: keeps_def)

lemma core_keeps: "plane_ok m \<Longrightarrow> same_core m m' \<Longrightarrow> keeps m m'"
  using same_core_ok by (auto simp: keeps_def)

section \<open>New tree nodes\<close>

text \<open>Nodes, catalog shards and keyspace roots are added under identifiers nobody uses yet.\<close>

definition with_objects :: "metadata_inner \<Rightarrow> metadata_inner \<Rightarrow> metadata_inner" where
  "with_objects m x = m\<lparr>
    mi_next_metadata_node_id := mi_next_metadata_node_id x, mi_metadata_nodes := mi_metadata_nodes x,
    mi_next_keyspace_catalog_shard_id := mi_next_keyspace_catalog_shard_id x,
    mi_keyspace_catalog_shards := mi_keyspace_catalog_shards x,
    mi_next_keyspace_root_id := mi_next_keyspace_root_id x, mi_keyspace_roots := mi_keyspace_roots x\<rparr>"

definition objects_added :: "metadata_inner \<Rightarrow> metadata_inner \<Rightarrow> bool" where
  "objects_added m m' \<longleftrightarrow>
    m' = with_objects m m' \<and> mi_next_metadata_node_id m \<le> mi_next_metadata_node_id m'
    \<and> objects_grow m m' \<and> objects_ok m'"

lemma objects_added_refl: "objects_ok m \<Longrightarrow> objects_added m m"
  by (simp add: objects_added_def with_objects_def)

lemma objects_added_trans:
  assumes "objects_added m m1" "objects_added m1 m2"
  shows "objects_added m m2"
proof -
  have eq: "m1 = with_objects m m1" "m2 = with_objects m1 m2"
    using assms unfolding objects_added_def by blast+
  have "with_objects m1 m2 = with_objects m m2"
    by (subst eq(1)) (simp add: with_objects_def)
  with eq(2) have "m2 = with_objects m m2"
    by simp
  moreover have "objects_grow m m2"
    using assms unfolding objects_added_def objects_grow_def by blast
  ultimately show ?thesis
    using assms unfolding objects_added_def by (blast intro: order_trans)
qed

lemma objects_added_same:
  assumes "objects_added m m'"
  shows "mi_device_heads m' = mi_device_heads m" "mi_deleted_device_heads m' = mi_deleted_device_heads m"
    "mi_device_specs m' = mi_device_specs m" "mi_keyspace_heads m' = mi_keyspace_heads m"
    "mi_checkpoints m' = mi_checkpoints m" "mi_shard_commits m' = mi_shard_commits m"
    "mi_keyspace_commits m' = mi_keyspace_commits m" "mi_next_commit_seq m' = mi_next_commit_seq m"
    "mi_next_device_id m' = mi_next_device_id m" "mi_next_keyspace_id m' = mi_next_keyspace_id m"
    "mi_next_checkpoint_id m' = mi_next_checkpoint_id m" "device_any_head m' = device_any_head m"
proof -
  have eq: "m' = with_objects m m'"
    using assms unfolding objects_added_def by blast
  show "mi_device_heads m' = mi_device_heads m" "mi_deleted_device_heads m' = mi_deleted_device_heads m"
    "mi_device_specs m' = mi_device_specs m" "mi_keyspace_heads m' = mi_keyspace_heads m"
    "mi_checkpoints m' = mi_checkpoints m" "mi_shard_commits m' = mi_shard_commits m"
    "mi_keyspace_commits m' = mi_keyspace_commits m" "mi_next_commit_seq m' = mi_next_commit_seq m"
    "mi_next_device_id m' = mi_next_device_id m" "mi_next_keyspace_id m' = mi_next_keyspace_id m"
    "mi_next_checkpoint_id m' = mi_next_checkpoint_id m"
    by (subst eq; simp add: with_objects_def)+
  then show "device_any_head m' = device_any_head m"
    by (intro ext) (simp add: device_any_head_def cong: option.case_cong)
qed

lemma objects_added_keeps:
  assumes "plane_ok m" "objects_added m m'"
  shows "keeps m m'"
  unfolding keeps_def
  by (rule frame_step [OF assms(1)])
    (use assms(2) objects_added_same [OF assms(2)] in \<open>auto simp: objects_added_def counters_grow_def\<close>)

lemma insert_new_node_added:
  assumes "objects_ok m" "insert_new_node r kind m = (res, m')"
  shows "objects_added m m' \<and> (\<forall>node. res = Inr node \<longrightarrow>
    bt_get (mi_metadata_nodes m') (mn_node_id node) = Some node \<and> mn_covered_range node = r \<and> mn_kind node = kind
    \<and> validate_node node [] = Inr () \<and> mn_node_id node = mi_next_metadata_node_id m)"
proof -
  let ?i = "mi_next_metadata_node_id m"
  have fresh: "bt_get (mi_metadata_nodes m) ?i = None"
    using assms(1) unfolding objects_ok_def bt_has_iff by (metis less_irrefl not_Some_eq)
  have bump: "objects_added m (m\<lparr>mi_next_metadata_node_id := ?i + 1\<rparr>)"
    using assms(1) unfolding objects_added_def
    by (auto simp: objects_ok_def objects_grow_def with_objects_def intro: less_SucI)
  have ins: "objects_added m (m\<lparr>mi_next_metadata_node_id := ?i + 1,
      mi_metadata_nodes := bt_insert ?i node (mi_metadata_nodes m)\<rparr>)" for node
    using assms(1) fresh unfolding objects_added_def
    by (auto simp: objects_ok_def objects_grow_def with_objects_def bt_has_iff intro: less_SucI split: if_splits)
  show ?thesis
    using assms(2) bump ins objects_added_refl [OF assms(1)]
    by (auto simp: insert_new_node_def alloc_runs run_defs Let_def split: if_splits sum.splits)
qed

lemma foldM_invariant:
  assumes "foldM f b xs m = (res, m')" "I b m"
    and "\<And>b x m r m'. I b m \<Longrightarrow> x \<in> set xs \<Longrightarrow> f b x m = (r, m') \<Longrightarrow>
      (case r of Inl e \<Rightarrow> E e m' | Inr b' \<Rightarrow> I b' m')"
  shows "case res of Inl e \<Rightarrow> E e m' | Inr b' \<Rightarrow> I b' m'"
  using assms
proof (induction xs arbitrary: b m)
  case (Cons x xs)
  obtain r m1 where r: "f b x m = (r, m1)"
    by fastforce
  with Cons.prems(2) have step: "case r of Inl e \<Rightarrow> E e m1 | Inr b' \<Rightarrow> I b' m1"
    by (intro Cons.prems(3)) simp_all
  show ?case
  proof (cases r)
    case (Inl e)
    with Cons.prems(1) r step show ?thesis
      by (auto simp: seqM_def)
  next
    case (Inr b')
    with Cons.prems(1) r have "foldM f b' xs m1 = (res, m')"
      by (simp add: seqM_def)
    moreover have "I b' m1"
      using step Inr by simp
    ultimately show ?thesis
      by (rule Cons.IH) (rule Cons.prems(3); simp)
  qed
qed simp

lemma create_empty_tree_fuel_added:
  "objects_ok m \<Longrightarrow> create_empty_tree_fuel fuel cfg r m = (res, m') \<Longrightarrow>
    objects_added m m' \<and> (\<forall>node. res = Inr node \<longrightarrow> node_present m' (mn_node_id node) \<and> mn_covered_range node = r)"
proof (induction fuel arbitrary: r m res m')
  case 0
  then show ?case
    by (auto intro: objects_added_refl)
next
  case (Suc fuel)
  have stored: "objects_added m0 m' \<and> (\<forall>node. res = Inr node \<longrightarrow> node_present m' (mn_node_id node) \<and> mn_covered_range node = r)"
    if "objects_ok m1" "objects_added m0 m1" "insert_new_node r kind m1 = (res, m')" for m0 m1 kind
    using insert_new_node_added [OF that(1,3)] objects_added_trans [OF that(2)] by (auto simp: bt_has_iff)
  let ?body = "\<lambda>children i.
      seqM (liftM (ok_or (checked_mul_u64 (range_blocks r) i) invalid_argument)) (\<lambda>a.
      seqM (liftM (ok_or (checked_mul_u64 (range_blocks r) (i + 1)) invalid_argument)) (\<lambda>b.
      let child_start_offset = a div min (cfg_metadata_fanout cfg) (range_blocks r);
          child_end_offset = b div min (cfg_metadata_fanout cfg) (range_blocks r) in
      seqM (liftM (ok_or (checked_add_u64 (range_start r) child_start_offset) invalid_argument)) (\<lambda>child_start.
      let child_range = mk_range child_start (child_end_offset - child_start_offset) in
      seqM (create_empty_tree_fuel fuel cfg child_range) (\<lambda>child.
      returnM (children @ [\<lparr>mc_range = child_range, mc_node_id = mn_node_id child\<rparr>])))))"
  have step: "case q of Inl e \<Rightarrow> objects_added m m2 | Inr cs' \<Rightarrow> objects_added m m2"
    if "objects_added m m1" "?body cs i m1 = (q, m2)" for cs i m1 q m2
  proof -
    have "objects_ok m1"
      using that(1) by (simp add: objects_added_def)
    then have sub: "objects_added m m2'" if "create_empty_tree_fuel fuel cfg cr m1 = (q', m2')" for cr q' m2'
      using Suc.IH [OF _ that] objects_added_trans [OF \<open>objects_added m m1\<close>] by blast
    show ?thesis
      using that(1,2) sub
      by (auto simp: run_defs Let_def split: if_splits sum.splits prod.splits)
  qed
  consider (invalid) "\<exists>e. validate_non_empty r = Inl e"
    | (leaf) "validate_non_empty r = Inr ()" "range_blocks r \<le> cfg_metadata_leaf_blocks cfg"
    | (internal) "validate_non_empty r = Inr ()" "\<not> range_blocks r \<le> cfg_metadata_leaf_blocks cfg"
    by (cases "validate_non_empty r") auto
  moreover have valid: "seqM (liftM (validate_non_empty r)) f = f ()" if "validate_non_empty r = Inr ()"
    for f :: "unit \<Rightarrow> metadata_node meta_op"
    by (rule ext) (simp only: seqM_def liftM_def that prod.case sum.case)
  ultimately show ?case
  proof cases
    case invalid
    with Suc.prems show ?thesis
      by (auto simp: run_defs intro: objects_added_refl)
  next
    case leaf
    then have "insert_new_node r (Leaf [] []) m = (res, m')"
      using Suc.prems(2) valid by simp
    with stored [OF Suc.prems(1) objects_added_refl [OF Suc.prems(1)]] show ?thesis
      by blast
  next
    case internal
    let ?n = "min (cfg_metadata_fanout cfg) (range_blocks r)"
    obtain q m1 where q: "foldM ?body [] [0..<?n] m = (q, m1)"
      by fastforce
    have inv: "case q of Inl e \<Rightarrow> objects_added m m1 | Inr cs \<Rightarrow> objects_added m m1"
      by (rule foldM_invariant [OF q, where I = "\<lambda>_. objects_added m" and E = "\<lambda>_. objects_added m"])
        (use step objects_added_refl [OF Suc.prems(1)] in blast)+
    have run: "create_empty_tree_fuel (Suc fuel) cfg r m =
        (case q of Inl e \<Rightarrow> (Inl e, m1) | Inr cs \<Rightarrow> insert_new_node r (Internal cs) m1)"
      using internal(2) q
      by (simp only: create_empty_tree_fuel.simps valid [OF internal(1)] if_False Let_def
          seqM_def [of "foldM _ _ _"] prod.case)
    show ?thesis
    proof (cases q)
      case (Inl e)
      have "(Inl e, m1) = (res, m')"
        using run Suc.prems(2) unfolding Inl by (simp only: sum.case)
      with inv Inl show ?thesis
        by auto
    next
      case (Inr cs)
      have ins: "insert_new_node r (Internal cs) m1 = (res, m')"
        using run Suc.prems(2) unfolding Inr by (simp only: sum.case)
      have added: "objects_added m m1"
        using inv unfolding Inr by (simp only: sum.case)
      then have "objects_ok m1"
        unfolding objects_added_def by blast
      from stored [OF this added ins] show ?thesis .
    qed
  qed
qed

lemma create_empty_tree_added:
  "objects_ok m \<Longrightarrow> create_empty_tree cfg r m = (res, m') \<Longrightarrow>
    objects_added m m' \<and> (\<forall>node. res = Inr node \<longrightarrow> node_present m' (mn_node_id node) \<and> mn_covered_range node = r)"
  unfolding create_empty_tree_def by (rule create_empty_tree_fuel_added)

section \<open>Devices\<close>

text \<open>The first checkpoint of an owner, and any later one of its current state.\<close>

lemma device_timeline_head:
  assumes "device_timeline m d lo H" "device_any_head m d = Some h"
  shows "lo \<le> dh_latest_commit h \<and> dh_latest_commit h < mi_next_commit_seq m
    \<and> (\<forall>s\<ge>dh_latest_commit h. H s = dh_shard_roots h)"
  using assms by (simp add: device_timeline_def dev.consistent_def)

lemma keyspace_timeline_head:
  assumes "keyspace_timeline m k lo H" "bt_get (mi_keyspace_heads m) k = Some h"
  shows "lo \<le> kh_latest_commit h \<and> kh_latest_commit h < mi_next_commit_seq m
    \<and> (\<forall>s\<ge>kh_latest_commit h. H s = (kh_shard_roots h, kh_file_count h))"
  using assms by (simp add: keyspace_timeline_def ks.consistent_def)

lemma device_checkpoint_keeps:
  assumes "plane_ok m" "device_any_head m d = Some h"
  shows "keeps m (with_checkpoint (BlockDevice d) (dh_latest_commit h) (CP_BlockShard (dh_shard_roots h)) m)"
  unfolding keeps_def
proof (rule with_checkpoint_ok [OF assms(1)])
  have "\<forall>r\<in>set (dh_shard_roots h). node_present m r"
    using assms unfolding plane_ok_def devices_ok_def by blast
  with assms(2) show "checkpoint_present m (new_checkpoint (BlockDevice d) (dh_latest_commit h) (CP_BlockShard (dh_shard_roots h)) m)"
    by (simp add: checkpoint_present_def new_checkpoint_def)
next
  fix e lo H
  assume "BlockDevice d = BlockDevice e" "device_timeline m e lo H"
  then have "device_timeline m d lo H"
    by simp
  from device_timeline_head [OF this assms(2)]
  show "lo \<le> dh_latest_commit h \<and> dh_latest_commit h < mi_next_commit_seq m
      \<and> block_roots_of (CP_BlockShard (dh_shard_roots h)) = Some (H (dh_latest_commit h))
      \<and> (\<forall>h'. device_any_head m e = Some h' \<longrightarrow> dh_latest_commit h \<le> dh_latest_commit h')"
    using assms(2) \<open>BlockDevice d = BlockDevice e\<close> by (simp add: block_roots_of_def)
qed simp

lemma with_checkpoint_same:
  "mi_device_heads (with_checkpoint o' q r m) = mi_device_heads m"
  "mi_keyspace_heads (with_checkpoint o' q r m) = mi_keyspace_heads m"
  "mi_deleted_device_heads (with_checkpoint o' q r m) = mi_deleted_device_heads m"
  "mi_device_specs (with_checkpoint o' q r m) = mi_device_specs m"
  "mi_shard_commits (with_checkpoint o' q r m) = mi_shard_commits m"
  "mi_keyspace_commits (with_checkpoint o' q r m) = mi_keyspace_commits m"
  "mi_metadata_nodes (with_checkpoint o' q r m) = mi_metadata_nodes m"
  "mi_next_commit_seq (with_checkpoint o' q r m) = mi_next_commit_seq m"
  by (simp_all add: with_checkpoint_def)

lemma checkpoint_device_keeps:
  assumes "plane_ok m" "checkpoint_device d m = (res, m')"
  shows "keeps m m'"
proof (cases "bt_get (mi_device_heads m) d")
  case (Some h)
  then have "device_any_head m d = Some h"
    by (simp add: device_any_head_def)
  with assms Some device_checkpoint_keeps [of m d h] show ?thesis
    by (auto simp: checkpoint_device_def get_head_def run_defs insert_checkpoint_run keeps_refl split: if_splits)
qed (use assms in \<open>auto simp: checkpoint_device_def get_head_def run_defs keeps_refl\<close>)

definition fresh_head :: "device_id \<Rightarrow> metadata_node_id list \<Rightarrow> commit_seq \<Rightarrow> device_head" where
  "fresh_head d roots q = \<lparr>dh_device_id = d, dh_generation = 0, dh_shard_roots = roots, dh_latest_commit = q\<rparr>"

lemma install_device_run:
  "install_device cfg d spec roots rec m =
    (let n = mi_next_commit_seq m; m1 = m\<lparr>mi_next_commit_seq := n + 1\<rparr>; h = fresh_head d roots n in
     if \<not> n + 1 < u64_limit then (Inl conflict, m)
     else case validate_device_head h (cfg_shard_count cfg) of
       Inl e \<Rightarrow> (Inl e, m1)
     | Inr _ \<Rightarrow> (case insert_checkpoint (BlockDevice d) n (CP_BlockShard roots) (rec n (add_device d spec h m1)) of
         (Inl e, m2) \<Rightarrow> (Inl e, m2) | (Inr _, m2) \<Rightarrow> (Inr h, m2)))"
  by (simp add: install_device_def alloc_runs run_defs Let_def add_device_def fresh_head_def
      split: sum.splits prod.splits)

lemma added_device_keeps:
  assumes "plane_ok m" "device_any_head m d = None" "d < mi_next_device_id m" "dh_generation h = 0"
    and "dh_latest_commit h < mi_next_commit_seq m" "\<forall>r\<in>set (dh_shard_roots h). node_present m r"
    and "same_core (add_device d spec h m) x"
    and "insert_checkpoint (BlockDevice d) (dh_latest_commit h) (CP_BlockShard (dh_shard_roots h)) x = (r, y)"
  shows "keeps m y"
proof -
  have "keeps m (add_device d spec h m)"
    unfolding keeps_def by (rule add_device_ok) (use assms in simp_all)
  then have k1: "keeps m x"
    by (rule keeps_core [OF _ assms(7)])
  moreover have "device_any_head x d = Some h"
    using assms(7) by (simp add: same_core_def add_device_def device_any_head_def)
  ultimately have "keeps x (with_checkpoint (BlockDevice d) (dh_latest_commit h) (CP_BlockShard (dh_shard_roots h)) x)"
    by (intro device_checkpoint_keeps) (simp_all add: keeps_def)
  with k1 keeps_trans assms(8) show ?thesis
    by (auto simp: insert_checkpoint_run split: if_splits)
qed

lemma install_device_keeps:
  assumes "plane_ok m" "device_any_head m d = None" "d < mi_next_device_id m"
    and "\<forall>r\<in>set roots. node_present m r" "\<And>n m. same_core m (rec n m)"
    and "install_device cfg d spec roots rec m = (res, m')"
  shows "keeps m m'"
proof -
  let ?n = "mi_next_commit_seq m"
  let ?m1 = "m\<lparr>mi_next_commit_seq := ?n + 1\<rparr>" and ?h = "fresh_head d roots ?n"
  have k1: "keeps m ?m1"
    by (rule core_keeps [OF assms(1)]) (simp add: same_core_def)
  have any: "device_any_head ?m1 d = None"
    using assms(2) by (simp add: device_any_head_def split: option.splits)
  have k2: "keeps ?m1 m2" if "insert_checkpoint (BlockDevice d) ?n (CP_BlockShard roots) (rec ?n (add_device d spec ?h ?m1)) = (r, m2)" for r m2
    by (rule added_device_keeps [where h = ?h and r = r and spec = spec and x = "rec ?n (add_device d spec ?h ?m1)"])
      (use k1 any assms(3-5) that in \<open>simp_all add: fresh_head_def keeps_def\<close>)
  show ?thesis
    using assms(6) k1 keeps_trans [OF k1 k2] keeps_refl [OF assms(1)]
    by (auto simp: install_device_run Let_def split: if_splits sum.splits prod.splits)
qed

lemma alloc_device_fresh:
  assumes "plane_ok m"
  shows "device_any_head m (mi_next_device_id m) = None"
  using assms unfolding plane_ok_def devices_ok_def by (metis less_irrefl not_Some_eq)

lemma with_next_device:
  assumes "plane_ok m" "mi_next_device_id m \<le> n"
  shows "keeps m (m\<lparr>mi_next_device_id := n\<rparr>)" "device_any_head (m\<lparr>mi_next_device_id := n\<rparr>) = device_any_head m"
  by (rule core_keeps [OF assms(1)]) (auto simp: same_core_def assms(2) device_any_head_def cong: option.case_cong)

lemma fork_device_keeps:
  assumes "plane_ok m" "fork_device cfg request m = (res, m')"
  shows "keeps m m'"
proof -
  have install: "keeps m m'" if "bt_get (mi_device_heads m) (mk_source request) = Some h" "mi_next_device_id m \<le> n"
    "device_any_head m d = None" "d < n"
    "install_device cfg d spec (dh_shard_roots h) (\<lambda>q x. x\<lparr>mi_fork_records := f q x\<rparr>) (m\<lparr>mi_next_device_id := n\<rparr>) = (res, m')"
    for h n d spec f
  proof -
    have "device_any_head m (mk_source request) = Some h"
      using that(1) by (simp add: device_any_head_def)
    then have roots: "\<forall>r\<in>set (dh_shard_roots h). node_present m r"
      using assms(1) unfolding plane_ok_def devices_ok_def by blast
    note bumped = with_next_device [OF assms(1) that(2)]
    have "keeps (m\<lparr>mi_next_device_id := n\<rparr>) m'"
      by (rule install_device_keeps [OF _ _ _ _ _ that(5)])
        (use bumped that(3,4) roots in \<open>simp_all add: keeps_def same_core_def\<close>)
    with bumped(1) show ?thesis
      by (rule keeps_trans)
  qed
  have none: "device_any_head m d = None" if "\<not> bt_has (mi_device_heads m) d" "\<not> bt_has (mi_deleted_device_heads m) d" for d
    using that by (simp add: device_any_head_def bt_has_not_iff)
  have self: "m\<lparr>mi_next_device_id := mi_next_device_id m\<rparr> = m"
    by simp
  show ?thesis
  proof (cases "mk_target request")
    case None
    then show ?thesis
      using assms(2) install [of _ "mi_next_device_id m + 1" "mi_next_device_id m"] alloc_device_fresh [OF assms(1)] keeps_refl [OF assms(1)]
      by (auto simp: fork_device_def get_head_def alloc_runs run_defs split: option.splits if_splits sum.splits)
  next
    case (Some t)
    then show ?thesis
      using assms(2) install [of _ "t + 1" t] install [of _ "mi_next_device_id m" t, unfolded self] none [of t] keeps_refl [OF assms(1)]
      by (auto simp: fork_device_def get_head_def reserve_device_id_at_least_after_def alloc_runs run_defs
          split: option.splits if_splits sum.splits)
  qed
qed

lemma restore_device_keeps:
  assumes "plane_ok m" "restore_device cfg source point m = (res, m')"
  shows "keeps m m'"
proof -
  have install: "keeps m m'" if "\<forall>r\<in>set roots. node_present m r"
    "install_device cfg (mi_next_device_id m) spec roots (\<lambda>_ m. m) (m\<lparr>mi_next_device_id := mi_next_device_id m + 1\<rparr>) = (res, m')"
    for roots spec
  proof -
    have bumped: "keeps m (m\<lparr>mi_next_device_id := mi_next_device_id m + 1\<rparr>)"
      "device_any_head (m\<lparr>mi_next_device_id := mi_next_device_id m + 1\<rparr>) = device_any_head m"
      by (rule with_next_device [OF assms(1)]; simp)+
    have "keeps (m\<lparr>mi_next_device_id := mi_next_device_id m + 1\<rparr>) m'"
      by (rule install_device_keeps [OF _ _ _ _ _ that(2)])
        (use bumped alloc_device_fresh [OF assms(1)] that(1) in \<open>simp_all add: keeps_def\<close>)
    with bumped(1) show ?thesis
      by (rule keeps_trans)
  qed
  obtain r1 where r1: "ok_or (bt_get (mi_device_specs m) source) (not_found K_device) = r1"
    by blast
  show ?thesis
    using assms(2) install keeps_refl [OF assms(1)]
    by (auto simp: restore_device_def alloc_runs run_defs split: if_splits sum.splits)
qed

lemma create_device_keeps:
  assumes "plane_ok m" "create_device cfg spec m = (res, m')"
  shows "keeps m m'"
proof -
  let ?m1 = "m\<lparr>mi_next_device_id := mi_next_device_id m + 1\<rparr>" and ?d = "mi_next_device_id m"
  let ?body = "create_shard_root cfg spec"
  let ?I = "\<lambda>roots x. objects_added ?m1 x \<and> (\<forall>r\<in>set roots. node_present x r)"
  have bumped: "keeps m ?m1" "device_any_head ?m1 = device_any_head m"
    by (rule with_next_device [OF assms(1)]; simp)+
  have step: "case r of Inl e \<Rightarrow> objects_added ?m1 y | Inr roots' \<Rightarrow> ?I roots' y"
    if I: "?I roots x" and run: "?body roots shard x = (r, y)" for roots shard x r y
  proof -
    let ?R = "mk_range (logical_blocks spec * shard div cfg_shard_count cfg)
      (logical_blocks spec * (shard + 1) div cfg_shard_count cfg - logical_blocks spec * shard div cfg_shard_count cfg)"
    obtain t z where t: "create_empty_tree cfg ?R x = (t, z)"
      by fastforce
    have "objects_ok x"
      using I unfolding objects_added_def by blast
    from create_empty_tree_added [OF this t]
    have tree: "objects_added x z" "\<forall>node. t = Inr node \<longrightarrow> node_present z (mn_node_id node)"
      by blast+
    have added: "objects_added ?m1 z"
      using I objects_added_trans [OF _ tree(1)] by blast
    have old: "\<forall>r\<in>set roots. node_present z r"
      using I node_present_mono [of x z] tree(1) unfolding objects_added_def by blast
    show ?thesis
    proof (cases "logical_blocks spec * shard < u64_limit \<and> logical_blocks spec * (shard + 1) < u64_limit")
      case True
      then have "(r, y) = (case t of Inl e \<Rightarrow> (Inl e, z) | Inr node \<Rightarrow> (Inr (roots @ [mn_node_id node]), z))"
        using run t by (simp add: create_shard_root_def run_defs checked_mul_u64_def Let_def)
      with added old tree(2) show ?thesis
        by (cases t) auto
    next
      case False
      then have "(\<exists>e. r = Inl e) \<and> y = x"
        using run by (auto simp: create_shard_root_def run_defs checked_mul_u64_def split: if_splits)
      with I show ?thesis
        by auto
    qed
  qed
  have finish: "keeps m m'" if added: "objects_added ?m1 x" and roots: "\<forall>r\<in>set roots. node_present x r"
    and run: "insert_checkpoint (BlockDevice ?d) 0 (CP_BlockShard roots) (add_device ?d spec (fresh_head ?d roots 0) x) = (r, m')" for roots x r
  proof -
    have x: "keeps ?m1 x"
      using objects_added_keeps [OF _ added] bumped(1) by (simp add: keeps_def)
    have same: "device_any_head x ?d = None" "mi_next_device_id x = ?d + 1"
      using objects_added_same(9,12) [OF added] bumped(2) alloc_device_fresh [OF assms(1)] by simp_all
    have "0 < mi_next_commit_seq x"
      using x by (simp add: keeps_def plane_ok_def)
    then have "keeps x m'"
      by (intro added_device_keeps [where h = "fresh_head ?d roots 0" and spec = spec and x = "add_device ?d spec (fresh_head ?d roots 0) x" and r = r])
        (use x same roots run in \<open>auto simp: fresh_head_def keeps_def\<close>)
    with bumped(1) x show ?thesis
      by (blast intro: keeps_trans)
  qed
  obtain q x where q: "foldM ?body [] [0..<cfg_shard_count cfg] ?m1 = (q, x)"
    by fastforce
  have start: "?I [] ?m1"
    using bumped(1) by (simp add: keeps_def plane_ok_def objects_added_refl)
  have inv: "case q of Inl e \<Rightarrow> objects_added ?m1 x | Inr roots \<Rightarrow> ?I roots x"
    by (rule foldM_invariant [where I = ?I and E = "\<lambda>_. objects_added ?m1", OF q start]) (rule step)
  have kx: "keeps m x"
    using inv objects_added_keeps [of ?m1 x] bumped(1) keeps_trans [OF bumped(1)]
    by (cases q) (auto simp: keeps_def)
  have run: "create_device cfg spec m =
    (case validate_config cfg of Inl e \<Rightarrow> (Inl e, m) | Inr _ \<Rightarrow>
     (case validate_spec spec of Inl e \<Rightarrow> (Inl e, m) | Inr _ \<Rightarrow>
      if logical_blocks spec < cfg_shard_count cfg then (Inl invalid_argument, m)
      else if \<not> ?d + 1 < u128_limit then (Inl Panic, m)
      else (case q of Inl e \<Rightarrow> (Inl e, x) | Inr roots \<Rightarrow>
        (case validate_device_head (fresh_head ?d roots 0) (cfg_shard_count cfg) of Inl e \<Rightarrow> (Inl e, x) | Inr _ \<Rightarrow>
         (case insert_checkpoint (BlockDevice ?d) 0 (CP_BlockShard roots) (add_device ?d spec (fresh_head ?d roots 0) x) of
           (Inl e, y) \<Rightarrow> (Inl e, y) | (Inr _, y) \<Rightarrow> (Inr (fresh_head ?d roots 0), y))))))"
    unfolding create_device_def Let_def
    by (simp only: seqM_steps alloc_device_id_def seqM_alloc seqM_known [where g = "foldM ?body [] [0..<cfg_shard_count cfg]" and m = ?m1, OF q] seqM_return ensure_def)
      (simp add: add_device_def fresh_head_def cong: sum.case_cong)
  show ?thesis
    using assms(2) kx finish [of x] inv keeps_refl [OF assms(1)] unfolding run
    by (auto split: if_splits sum.splits prod.splits)
qed

lemma delete_device_keeps:
  assumes "plane_ok m" "delete_device d m = (res, m')"
  shows "keeps m m'"
proof (cases "bt_get (mi_device_heads m) d")
  case None
  with assms show ?thesis
    by (simp add: delete_device_def get_head_def seqM_steps keeps_refl)
next
  case (Some h)
  have "keeps m (close_device d h m)"
    using close_device_ok [OF assms(1) Some] by (simp add: keeps_def)
  moreover have "same_core (close_device d h m) ((close_device d h m)\<lparr>mi_delete_records := x\<rparr>)" for x
    by (simp add: same_core_def)
  ultimately have "keeps m ((close_device d h m)\<lparr>mi_delete_records := x\<rparr>)" for x
    by (rule keeps_core)
  then show ?thesis
    using assms(2) Some keeps_refl [OF assms(1)]
    by (auto simp: delete_device_def get_head_def seqM_steps alloc_commit_seq_def seqM_alloc close_device_def
        split: if_splits)
qed

subsection \<open>Publishing roots of a device\<close>

definition shard_commit_of :: "commit_seq \<Rightarrow> commit_group_id \<Rightarrow> device_id
    \<Rightarrow> shard_id \<times> metadata_node_id \<times> metadata_node_id \<Rightarrow> shard_commit" where
  "shard_commit_of q g d = (\<lambda>(shard_id, old_root, new_root).
    \<lparr>sc_commit_seq = q, sc_commit_group = g, sc_time = q, sc_device_id = d, sc_shard_id = shard_id,
     sc_old_root = old_root, sc_new_root = new_root\<rparr>)"

text \<open>What publishing checks and applies is what replaying will check and apply.\<close>

lemma publish_step_Inr:
  "publish_block_step m (rs, acc) u = Inr st \<longleftrightarrow>
    (\<exists>x. u = BlockShard x \<and> su_shard_id x < length rs \<and> rs ! su_shard_id x = su_old_root x \<and> node_present m (su_new_root x)
      \<and> st = (rs[su_shard_id x := su_new_root x], acc @ [(su_shard_id x, su_old_root x, su_new_root x)]))"
  by (cases u) (auto simp: publish_block_step_def)

lemma publish_fold_replays:
  "foldR (publish_block_step m) (rs, acc) us = Inr (rs', acc') \<Longrightarrow>
    \<exists>new. acc' = acc @ new \<and> length new = length us
      \<and> foldR replay_shard_commit rs (map (shard_commit_of q g d) new) = Inr rs'
      \<and> (\<forall>(i, a, b)\<in>set new. node_present m b)"
proof (induction us arbitrary: rs acc)
  case (Cons u us)
  then obtain st where st: "publish_block_step m (rs, acc) u = Inr st" "foldR (publish_block_step m) st us = Inr (rs', acc')"
    by auto
  from st(1) obtain x :: shard_root_update where x: "su_shard_id x < length rs" "rs ! su_shard_id x = su_old_root x" "node_present m (su_new_root x)"
    "st = (rs[su_shard_id x := su_new_root x], acc @ [(su_shard_id x, su_old_root x, su_new_root x)])"
    unfolding publish_step_Inr by blast
  from Cons.IH [OF st(2) [unfolded x(4)]] obtain new where new:
    "acc' = (acc @ [(su_shard_id x, su_old_root x, su_new_root x)]) @ new" "length new = length us"
    "foldR replay_shard_commit (rs[su_shard_id x := su_new_root x]) (map (shard_commit_of q g d) new) = Inr rs'"
    "\<forall>(i, a, b)\<in>set new. node_present m b"
    by blast
  have "replay_shard_commit rs (shard_commit_of q g d (su_shard_id x, su_old_root x, su_new_root x))
      = Inr (rs[su_shard_id x := su_new_root x])"
    using x by (simp add: shard_log.step_Inr shard_commit_of_def)
  then show ?case
    by (intro exI [of _ "(su_shard_id x, su_old_root x, su_new_root x) # new"]) (use new x in simp)
qed simp

definition published_head :: "device_head \<Rightarrow> commit_seq \<Rightarrow> metadata_node_id list \<Rightarrow> device_head" where
  "published_head h q roots = h\<lparr>dh_generation := dh_generation h + 1, dh_latest_commit := q, dh_shard_roots := roots\<rparr>"

text \<open>
  Publishing a block commit, outcome by outcome.  The sequence number bounds the generation, so the
  generation cannot run out first.
\<close>

lemma publish_block_run:
  assumes "plane_ok m"
  shows "publish_block_commit d fence us m =
    (case bt_get (mi_device_heads m) d of
      None \<Rightarrow> (Inl (not_found K_device), m)
    | Some h \<Rightarrow>
        if \<not> (\<exists>g. fence = DeviceGeneration g) \<or> us = [] then (Inl invalid_argument, m)
        else case foldR (publish_block_step m) (dh_shard_roots h, []) us of
          Inl e \<Rightarrow> (Inl e, m)
        | Inr (roots, new) \<Rightarrow>
            let q = mi_next_commit_seq m; g = mi_next_commit_group_id m in
            if \<not> q + 1 < u64_limit then (Inl conflict, m)
            else if \<not> g + 1 < u128_limit then (Inl Panic, m\<lparr>mi_next_commit_seq := q + 1\<rparr>)
            else let group = \<lparr>cg_commit_group = g, cg_commit_seq = q, cg_owner = BlockDevice d, cg_updates = us\<rparr> in
              (Inr group, (push_shard_commits d (map (shard_commit_of q g d) new) (published_head h q roots) m)
                \<lparr>mi_next_commit_group_id := g + 1, mi_commit_groups := bt_insert g group (mi_commit_groups m)\<rparr>))"
proof (cases "bt_get (mi_device_heads m) d")
  case None
  then show ?thesis
    by (simp add: publish_block_commit_def get_head_def seqM_steps)
next
  case (Some h)
  then have "device_any_head m d = Some h"
    by (simp add: device_any_head_def)
  then have "dh_generation h < mi_next_commit_seq m"
    using assms unfolding plane_ok_def devices_ok_def by blast
  then have gen: "mi_next_commit_seq m + 1 < u64_limit \<Longrightarrow> next_generation (dh_generation h) = Inr (dh_generation h + 1)"
    by (simp add: next_generation_def checked_add_u64_def)
  have fence: "(case fence of DeviceGeneration g \<Rightarrow> True | _ \<Rightarrow> False) \<longleftrightarrow> (\<exists>g. fence = DeviceGeneration g)"
    by (cases fence) auto
  show ?thesis
    unfolding publish_block_commit_def Let_def alloc_commit_seq_def alloc_commit_group_id_def get_head_def
    by (simp add: Some seqM_steps seqM_alloc fence ensure_def gen returnM_def push_shard_commits_def published_head_def
        shard_commit_of_def split: sum.split prod.split)
qed

lemma published_keeps:
  assumes "plane_ok m" "bt_get (mi_device_heads m) d = Some h"
    and "foldR (publish_block_step m) (dh_shard_roots h, []) us = Inr (roots, new)"
  shows "keeps m (push_shard_commits d (map (shard_commit_of (mi_next_commit_seq m) g d) new)
    (published_head h (mi_next_commit_seq m) roots) m)"
proof -
  obtain new' where "new = [] @ new'"
    "foldR replay_shard_commit (dh_shard_roots h) (map (shard_commit_of (mi_next_commit_seq m) g d) new') = Inr roots"
    "\<forall>(i, a, b)\<in>set new'. node_present m b"
    using publish_fold_replays [OF assms(3)] by blast
  then show ?thesis
    unfolding keeps_def
    by (intro push_shard_commits_ok [OF assms(1,2)]) (auto simp: published_head_def shard_commit_of_def)
qed

lemma publish_block_keeps:
  assumes "plane_ok m" "publish_block_commit d fence us m = (res, m')"
  shows "keeps m m'"
proof -
  have bump: "keeps m (m\<lparr>mi_next_commit_seq := mi_next_commit_seq m + 1\<rparr>)"
    by (rule core_keeps [OF assms(1)]) (simp add: same_core_def)
  have recorded: "keeps m (x\<lparr>mi_next_commit_group_id := a, mi_commit_groups := b\<rparr>)" if "keeps m x" for x a b
    by (rule keeps_core [OF that]) (simp add: same_core_def)
  show ?thesis
    using assms(2) published_keeps [OF assms(1)] bump recorded keeps_refl [OF assms(1)]
    unfolding publish_block_run [OF assms(1)]
    by (auto simp: Let_def split: option.splits if_splits sum.splits prod.splits)
qed

end
