(* ===== verification/Metadata_Files.thy ===== *)
theory Metadata_Files
  imports Metadata_Steps
begin

text \<open>
  The keyspace half of the metadata plane: catalog shards and roots, files, snapshots and restores
  of keyspaces, and the publishing of file roots, each with the proof that it keeps the invariant
  and every owner's past.
\<close>

section \<open>Catalog shards and roots\<close>

lemma insert_shard_added:
  assumes "objects_ok m" "insert_keyspace_catalog_shard_locked files m = (res, m')"
  shows "objects_added m m' \<and> (\<forall>shard. res = Inr shard \<longrightarrow>
    bt_get (mi_keyspace_catalog_shards m') (cs_shard_id shard) = Some shard \<and> cs_files shard = files
    \<and> mi_metadata_nodes m' = mi_metadata_nodes m)"
proof -
  let ?i = "mi_next_keyspace_catalog_shard_id m"
  have fresh: "bt_get (mi_keyspace_catalog_shards m) ?i = None"
    using assms(1) unfolding objects_ok_def bt_has_iff by (metis less_irrefl not_Some_eq)
  have bump: "objects_added m (m\<lparr>mi_next_keyspace_catalog_shard_id := ?i + 1\<rparr>)"
    using assms(1) unfolding objects_added_def
    by (auto simp: objects_ok_def objects_grow_def with_objects_def intro: less_SucI)
  have ins: "objects_added m (m\<lparr>mi_next_keyspace_catalog_shard_id := ?i + 1,
      mi_keyspace_catalog_shards := bt_insert ?i shard (mi_keyspace_catalog_shards m)\<rparr>)" for shard
    using assms(1) fresh unfolding objects_added_def
    by (auto simp: objects_ok_def objects_grow_def with_objects_def bt_has_iff intro: less_SucI split: if_splits)
  show ?thesis
    using assms(2) bump ins objects_added_refl [OF assms(1)]
    by (auto simp: insert_keyspace_catalog_shard_locked_def alloc_keyspace_catalog_shard_id_def seqM_alloc seqM_steps Let_def
        split: if_splits sum.splits)
qed

lemma insert_shard_present:
  assumes "objects_ok m" "insert_keyspace_catalog_shard_locked files m = (Inr shard, m')"
    and "\<forall>f\<in>set (bt_values files). node_present m (fh_root (kf_head f))"
  shows "shard_present m' (cs_shard_id shard)"
  using insert_shard_added [OF assms(1,2)] assms(3) by (auto simp: shard_present_def)

lemma insert_root_added:
  assumes "objects_ok m" "insert_keyspace_root_locked roots n m = (res, m')"
  shows "objects_added m m' \<and> (\<forall>root. res = Inr root \<longrightarrow>
    bt_get (mi_keyspace_roots m') (kr_root_id root) = Some root \<and> kr_shard_roots root = roots \<and> kr_file_count root = n)"
proof -
  let ?i = "mi_next_keyspace_root_id m"
  have fresh: "bt_get (mi_keyspace_roots m) ?i = None"
    using assms(1) unfolding objects_ok_def bt_has_iff by (metis less_irrefl not_Some_eq)
  have bump: "objects_added m (m\<lparr>mi_next_keyspace_root_id := ?i + 1\<rparr>)"
    using assms(1) unfolding objects_added_def
    by (auto simp: objects_ok_def objects_grow_def with_objects_def intro: less_SucI)
  have ins: "objects_added m (m\<lparr>mi_next_keyspace_root_id := ?i + 1,
      mi_keyspace_roots := bt_insert ?i root (mi_keyspace_roots m)\<rparr>)" for root
    using assms(1) fresh unfolding objects_added_def
    by (auto simp: objects_ok_def objects_grow_def with_objects_def bt_has_iff intro: less_SucI split: if_splits)
  show ?thesis
    using assms(2) bump ins objects_added_refl [OF assms(1)]
    by (auto simp: insert_keyspace_root_locked_def alloc_keyspace_root_id_def seqM_alloc seqM_steps Let_def
        split: if_splits sum.splits)
qed

lemma empty_shards_added:
  "objects_ok m \<Longrightarrow> mapM (\<lambda>_. insert_keyspace_catalog_shard_locked []) xs m = (res, m') \<Longrightarrow>
    objects_added m m' \<and> (\<forall>shards. res = Inr shards \<longrightarrow> length shards = length xs
      \<and> (\<forall>s\<in>set shards. shard_present m' (cs_shard_id s)))"
proof (induction xs arbitrary: m res)
  case Nil
  then show ?case
    by (auto intro: objects_added_refl)
next
  case (Cons x xs)
  obtain r1 m1 where r1: "insert_keyspace_catalog_shard_locked [] m = (r1, m1)"
    by fastforce
  have a1: "objects_added m m1"
    using insert_shard_added [OF Cons.prems(1) r1] by blast
  then have ok1: "objects_ok m1"
    unfolding objects_added_def by blast
  show ?case
  proof (cases r1)
    case (Inl e)
    with Cons.prems(2) r1 a1 show ?thesis
      by (auto simp: seqM_def)
  next
    case (Inr s)
    have s: "shard_present m1 (cs_shard_id s)"
      by (rule insert_shard_present [OF Cons.prems(1) r1 [unfolded Inr]]) (simp add: bt_values_def)
    obtain r2 m2 where r2: "mapM (\<lambda>_. insert_keyspace_catalog_shard_locked []) xs m1 = (r2, m2)"
      by fastforce
    have eq: "(res, m') = (case r2 of Inl e \<Rightarrow> (Inl e, m2) | Inr ss \<Rightarrow> (Inr (s # ss), m2))"
      using Cons.prems(2) r1 r2 Inr by (auto simp: seqM_def returnM_def split: sum.splits)
    have "m' = m2"
      using eq by (cases r2) auto
    from Cons.IH [OF ok1 r2 [folded this]] have IH: "objects_added m1 m'"
      "\<forall>shards. r2 = Inr shards \<longrightarrow> length shards = length xs \<and> (\<forall>s\<in>set shards. shard_present m' (cs_shard_id s))"
      by blast+
    have "shard_present m' (cs_shard_id s)"
      using shard_present_mono [OF _ s] IH(1) unfolding objects_added_def by blast
    with objects_added_trans [OF a1 IH(1)] IH(2) eq show ?thesis
      by (cases r2) auto
  qed
qed

section \<open>Checkpoints of keyspaces\<close>

lemma keyspace_checkpoint_keeps:
  assumes "plane_ok m" "bt_get (mi_keyspace_heads m) k = Some h"
    and "bt_get (mi_keyspace_roots m) i = Some root" "kr_shard_roots root = kh_shard_roots h" "kr_file_count root = kh_file_count h"
    and "insert_checkpoint (NativeKeyspace k) (kh_latest_commit h) (CP_NativeKeyspace i) m = (res, m')"
  shows "keeps m m'"
proof -
  have "keeps m (with_checkpoint (NativeKeyspace k) (kh_latest_commit h) (CP_NativeKeyspace i) m)"
    unfolding keeps_def
  proof (rule with_checkpoint_ok [OF assms(1)])
    have "catalog_present m (kh_shard_roots h)"
      using assms(1,2) unfolding plane_ok_def keyspaces_ok_def by blast
    with assms(2-4) show "checkpoint_present m (new_checkpoint (NativeKeyspace k) (kh_latest_commit h) (CP_NativeKeyspace i) m)"
      by (simp add: checkpoint_present_def new_checkpoint_def bt_has_iff)
  next
    fix j lo H
    assume "NativeKeyspace k = NativeKeyspace j" "keyspace_timeline m j lo H"
    then have "keyspace_timeline m k lo H"
      by simp
    from keyspace_timeline_head [OF this assms(2)] assms(3-5)
    show "lo \<le> kh_latest_commit h \<and> kh_latest_commit h < mi_next_commit_seq m
        \<and> keyspace_state_of (mi_keyspace_roots m) (CP_NativeKeyspace i) = Some (H (kh_latest_commit h))
        \<and> (\<forall>h'. bt_get (mi_keyspace_heads m) j = Some h' \<longrightarrow> kh_latest_commit h \<le> kh_latest_commit h')"
      using assms(2) \<open>NativeKeyspace k = NativeKeyspace j\<close> by (simp add: keyspace_state_of_def)
  qed simp
  with assms(6) keeps_refl [OF assms(1)] show ?thesis
    by (auto simp: insert_checkpoint_run split: if_splits)
qed

lemma checkpoint_keyspace_keeps:
  assumes "plane_ok m" "checkpoint_keyspace k m = (res, m')"
  shows "keeps m m'"
proof (cases "bt_get (mi_keyspace_heads m) k")
  case None
  with assms show ?thesis
    by (auto simp: checkpoint_keyspace_def get_keyspace_head_def seqM_steps keeps_refl)
next
  case (Some h)
  obtain r1 m1 where r1: "insert_keyspace_root_locked (kh_shard_roots h) (kh_file_count h) m = (r1, m1)"
    by fastforce
  have "objects_ok m"
    using assms(1) by (simp add: plane_ok_def)
  note root = insert_root_added [OF this r1]
  then have added: "objects_added m m1"
    by blast
  have k1: "keeps m m1"
    by (rule objects_added_keeps [OF assms(1) added])
  have h1: "bt_get (mi_keyspace_heads m1) k = Some h"
    using Some by (simp add: objects_added_same [OF added])
  have run: "(res, m') = (case r1 of Inl e \<Rightarrow> (Inl e, m1)
      | Inr root \<Rightarrow> insert_checkpoint (NativeKeyspace k) (kh_latest_commit h) (CP_NativeKeyspace (kr_root_id root)) m1)"
    using assms(2) Some r1 by (simp add: checkpoint_keyspace_def get_keyspace_head_def seqM_steps seqM_def [of "insert_keyspace_root_locked _ _"])
  show ?thesis
  proof (cases r1)
    case (Inl e)
    with run k1 show ?thesis
      by simp
  next
    case (Inr root)
    have "keeps m1 m'"
      by (rule keyspace_checkpoint_keeps [OF _ h1, where i = "kr_root_id root" and root = root and res = res])
        (use k1 root run [symmetric] Inr in \<open>simp_all add: keeps_def\<close>)
    with k1 show ?thesis
      by (rule keeps_trans)
  qed
qed

section \<open>Installing keyspaces\<close>

lemma added_keyspace_keeps:
  assumes "plane_ok m" "\<not> bt_has (mi_keyspace_heads m) k" "k < mi_next_keyspace_id m"
    and "kh_generation h = 0" "kh_latest_commit h < mi_next_commit_seq m" "catalog_present m (kh_shard_roots h)"
    and "bt_get (mi_keyspace_roots m) i = Some root" "kr_shard_roots root = kh_shard_roots h" "kr_file_count root = kh_file_count h"
    and "insert_checkpoint (NativeKeyspace k) (kh_latest_commit h) (CP_NativeKeyspace i) (add_keyspace k h m) = (res, m')"
  shows "keeps m m'"
proof -
  have k1: "keeps m (add_keyspace k h m)"
    unfolding keeps_def by (rule add_keyspace_ok) (use assms in simp_all)
  have "keeps (add_keyspace k h m) m'"
    by (rule keyspace_checkpoint_keeps [where h = h and root = root, OF _ _ _ assms(8,9,10)])
      (use k1 assms(7) in \<open>simp_all add: keeps_def add_keyspace_def\<close>)
  with k1 show ?thesis
    by (rule keeps_trans)
qed

definition fresh_keyspace_head :: "keyspace_id \<Rightarrow> keyspace_catalog_shard_id list \<Rightarrow> nat \<Rightarrow> commit_seq \<Rightarrow> keyspace_head" where
  "fresh_keyspace_head k roots n q =
    \<lparr>kh_keyspace_id = k, kh_generation = 0, kh_shard_roots = roots, kh_file_count = n, kh_latest_commit = q\<rparr>"

lemma install_keyspace_keeps:
  assumes "plane_ok m" "\<not> bt_has (mi_keyspace_heads m) k" "k < mi_next_keyspace_id m" "catalog_present m roots"
    and "install_keyspace k roots n m = (res, m')"
  shows "keeps m m'"
proof (cases "mi_next_commit_seq m + 1 < u64_limit")
  case False
  with assms(5) keeps_refl [OF assms(1)] show ?thesis
    by (simp add: install_keyspace_def alloc_commit_seq_def seqM_alloc)
next
  case True
  let ?q = "mi_next_commit_seq m" and ?m1 = "m\<lparr>mi_next_commit_seq := mi_next_commit_seq m + 1\<rparr>"
  let ?h = "fresh_keyspace_head k roots n ?q"
  have k1: "keeps m ?m1"
    by (rule core_keeps [OF assms(1)]) (simp add: same_core_def)
  obtain r2 m2 where r2: "insert_keyspace_root_locked roots n ?m1 = (r2, m2)"
    by fastforce
  have "objects_ok ?m1"
    using k1 by (simp add: keeps_def plane_ok_def)
  note root = insert_root_added [OF this r2]
  then have added: "objects_added ?m1 m2"
    by blast
  have k2: "keeps ?m1 m2"
    by (rule objects_added_keeps [OF _ added]) (use k1 in \<open>simp add: keeps_def\<close>)
  have run: "(res, m') = (case r2 of Inl e \<Rightarrow> (Inl e, m2) | Inr root \<Rightarrow>
      (case insert_checkpoint (NativeKeyspace k) ?q (CP_NativeKeyspace (kr_root_id root)) (add_keyspace k ?h m2) of
        (Inl e, y) \<Rightarrow> (Inl e, y) | (Inr _, y) \<Rightarrow> (Inr ?h, y)))"
    unfolding assms(5) [symmetric] using True r2
    by (simp add: install_keyspace_def alloc_commit_seq_def seqM_alloc Let_def seqM_steps seqM_return
        seqM_def [of "insert_keyspace_root_locked _ _"] add_keyspace_def fresh_keyspace_head_def cong: sum.case_cong)
  have "keeps m2 y" if "r2 = Inr root" "insert_checkpoint (NativeKeyspace k) ?q (CP_NativeKeyspace (kr_root_id root)) (add_keyspace k ?h m2) = (r, y)" for root r y
  proof (rule added_keyspace_keeps [where h = ?h and root = root and i = "kr_root_id root" and res = r])
    have og: "objects_grow m m2"
      using k1 k2 by (auto simp: keeps_def grows_def objects_grow_def)
    show "catalog_present m2 (kh_shard_roots ?h)"
      using catalog_present_mono [OF og assms(4)] by (simp add: fresh_keyspace_head_def)
  qed (use that assms(2,3) k2 root objects_added_same [OF added] in \<open>simp_all add: fresh_keyspace_head_def keeps_def\<close>)
  with run k1 k2 show ?thesis
    by (auto split: sum.splits prod.splits intro: keeps_trans)
qed

lemma with_next_keyspace:
  assumes "plane_ok m" "mi_next_keyspace_id m \<le> n"
  shows "keeps m (m\<lparr>mi_next_keyspace_id := n\<rparr>)"
  by (rule core_keeps [OF assms(1)]) (simp add: same_core_def assms(2))

lemma alloc_keyspace_fresh: "plane_ok m \<Longrightarrow> \<not> bt_has (mi_keyspace_heads m) (mi_next_keyspace_id m)"
  unfolding plane_ok_def keyspaces_ok_def bt_has_iff by (metis less_irrefl)

lemma install_bumped_keeps:
  assumes "plane_ok m" "mi_next_keyspace_id m \<le> n" "\<not> bt_has (mi_keyspace_heads m) k" "k < n" "catalog_present m roots"
    and "install_keyspace k roots c (m\<lparr>mi_next_keyspace_id := n\<rparr>) = (res, m')"
  shows "keeps m m'"
proof -
  have bumped: "keeps m (m\<lparr>mi_next_keyspace_id := n\<rparr>)"
    by (rule with_next_keyspace [OF assms(1,2)])
  then have "catalog_present (m\<lparr>mi_next_keyspace_id := n\<rparr>) roots"
    using catalog_present_mono [OF _ assms(5)] by (simp add: keeps_def grows_def)
  then have "keeps (m\<lparr>mi_next_keyspace_id := n\<rparr>) m'"
    by (intro install_keyspace_keeps [OF _ _ _ _ assms(6)]) (use bumped assms(3,4) in \<open>simp_all add: keeps_def\<close>)
  with bumped show ?thesis
    by (rule keeps_trans)
qed

lemma snapshot_keyspace_keeps:
  assumes "plane_ok m" "snapshot_keyspace request m = (res, m')"
  shows "keeps m m'"
proof (cases "bt_get (mi_keyspace_heads m) (ms_source request)")
  case None
  with assms show ?thesis
    by (auto simp: snapshot_keyspace_def get_keyspace_head_def seqM_steps keeps_refl)
next
  case (Some h)
  have present: "catalog_present m (kh_shard_roots h)"
    using assms(1) Some unfolding plane_ok_def keyspaces_ok_def by blast
  note bumped = install_bumped_keeps [OF assms(1) _ _ _ present]
  have self: "m\<lparr>mi_next_keyspace_id := mi_next_keyspace_id m\<rparr> = m"
    by simp
  show ?thesis
  proof (cases "ms_target request")
    case None
    with Some assms(2) bumped [of "mi_next_keyspace_id m + 1" "mi_next_keyspace_id m"] alloc_keyspace_fresh [OF assms(1)]
      keeps_refl [OF assms(1)]
    show ?thesis
      by (auto simp: snapshot_keyspace_def get_keyspace_head_def seqM_steps alloc_keyspace_id_def seqM_alloc split: if_splits)
  next
    case (Some t)
    with \<open>bt_get (mi_keyspace_heads m) (ms_source request) = Some h\<close> assms(2) bumped [of "t + 1" t]
      bumped [of "mi_next_keyspace_id m" t, unfolded self] keeps_refl [OF assms(1)]
    show ?thesis
      by (auto simp: snapshot_keyspace_def get_keyspace_head_def reserve_keyspace_id_at_least_after_def run_defs
          split: if_splits sum.splits)
  qed
qed

text \<open>Every state a keyspace restore can start from is one whose shards and files are there.\<close>

lemma replayed_keyspace_present:
  assumes "plane_ok m" "replay_keyspace_root_locked m k s ex = Inr root"
  shows "catalog_present m (kr_shard_roots root)"
proof -
  obtain c i base st where c: "latest_keyspace_checkpoint_at_or_before_locked m k s ex = Some c"
    and i: "checkpoint_keyspace_root c = Inr i" "keyspace_root_locked m i = Inr base"
    and st: "foldR replay_keyspace_commit (kr_shard_roots base, kr_file_count base)
      (filter (\<lambda>x. cp_commit_seq c < kc_commit_seq x \<and> kc_commit_seq x \<le> s) (keyspace_commits_for_keyspace_locked m k)) = Inr st"
    and root: "kr_shard_roots root = fst st"
    using assms(2) unfolding replay_keyspace_root_locked_def by auto
  have "c \<in> owner_checkpoints m (NativeKeyspace k)"
    using latest_keyspace_checkpoint [OF _ c] assms(1) by (simp add: plane_ok_def checkpoints_ok_def)
  then have "checkpoint_present m c" "cp_owner c = NativeKeyspace k"
    using assms(1) by (auto simp: owner_checkpoints_def plane_ok_def checkpoints_ok_def)
  then have base: "catalog_present m (kr_shard_roots base)"
    using i by (auto simp: checkpoint_present_def checkpoint_keyspace_root_def keyspace_root_locked_def)
  have "catalog_present m (fst st)"
  proof (rule foldR_invariant [OF st, where P = "\<lambda>st. catalog_present m (fst st)"])
    fix a x b
    assume a: "catalog_present m (fst a)" and b: "replay_keyspace_commit a x = Inr b"
      and "x \<in> set (filter (\<lambda>x. cp_commit_seq c < kc_commit_seq x \<and> kc_commit_seq x \<le> s)
        (keyspace_commits_for_keyspace_locked m k))"
    then have "shard_present m (kc_new_shard x)"
      using assms(1) by (auto simp: keyspace_commits_for_keyspace_locked_def plane_ok_def keyspaces_ok_def)
    with a b set_update_subset_insert [of "fst a" "kc_shard_index x" "kc_new_shard x"]
    show "catalog_present m (fst b)"
      by (auto simp: replay_keyspace_commit_def catalog_present_def)
  qed (simp add: base)
  with root show ?thesis
    by simp
qed

lemma keyspace_restore_present:
  assumes "plane_ok m" "keyspace_restore_state m source point = Inr root"
  shows "catalog_present m (kr_shard_roots root)"
proof (cases point)
  case (At_Checkpoint i)
  with assms(2) obtain c where c: "bt_get (mi_checkpoints m) i = Some c" "cp_owner c = NativeKeyspace source"
    "andThen (checkpoint_keyspace_root c) (keyspace_root_locked m) = Inr root"
    by (auto simp: keyspace_restore_state_def)
  then have "checkpoint_present m c"
    using assms(1) by (auto simp: plane_ok_def checkpoints_ok_def)
  with c show ?thesis
    by (auto simp: checkpoint_present_def checkpoint_keyspace_root_def keyspace_root_locked_def)
qed (use assms replayed_keyspace_present in \<open>auto simp: keyspace_restore_state_def\<close>)

lemma restore_keyspace_keeps:
  assumes "plane_ok m" "restore_keyspace source point m = (res, m')"
  shows "keeps m m'"
  using assms(2) install_bumped_keeps [where n = "Suc (mi_next_keyspace_id m)" and k = "mi_next_keyspace_id m",
      OF assms(1) _ _ _ keyspace_restore_present [OF assms(1)]]
    alloc_keyspace_fresh [OF assms(1)] keeps_refl [OF assms(1)]
  by (auto simp: restore_keyspace_def seqM_steps alloc_keyspace_id_def seqM_alloc split: if_splits sum.splits)

lemma empty_root_added:
  assumes "objects_ok m" "insert_empty_keyspace_root_locked m = (res, m')"
  shows "objects_added m m' \<and> (\<forall>root. res = Inr root \<longrightarrow>
    bt_get (mi_keyspace_roots m') (kr_root_id root) = Some root \<and> catalog_present m' (kr_shard_roots root))"
proof -
  obtain r2 m2 where r2: "mapM (\<lambda>_. insert_keyspace_catalog_shard_locked []) [0..<KEYSPACE_CATALOG_SHARD_COUNT] m = (r2, m2)"
    by fastforce
  note shards = empty_shards_added [OF assms(1) r2]
  then have a2: "objects_added m m2"
    by blast
  have run: "(res, m') = (case r2 of Inl e \<Rightarrow> (Inl e, m2) | Inr ss \<Rightarrow> insert_keyspace_root_locked (map cs_shard_id ss) 0 m2)"
    unfolding assms(2) [symmetric] insert_empty_keyspace_root_locked_def by (simp add: seqM_def r2)
  show ?thesis
  proof (cases r2)
    case (Inl e)
    with run a2 show ?thesis
      by simp
  next
    case (Inr ss)
    have "objects_ok m2"
      using a2 unfolding objects_added_def by blast
    moreover have "insert_keyspace_root_locked (map cs_shard_id ss) 0 m2 = (res, m')"
      using run Inr by simp
    ultimately have root: "objects_added m2 m'" "\<forall>root. res = Inr root \<longrightarrow>
        bt_get (mi_keyspace_roots m') (kr_root_id root) = Some root \<and> kr_shard_roots root = map cs_shard_id ss"
      using insert_root_added by blast+
    have "catalog_present m2 (map cs_shard_id ss)"
      using shards Inr by (simp add: catalog_present_def)
    then have "catalog_present m' (map cs_shard_id ss)"
      using catalog_present_mono root(1) unfolding objects_added_def by blast
    with objects_added_trans [OF a2 root(1)] root(2) show ?thesis
      by simp
  qed
qed

lemma create_keyspace_keeps:
  assumes "plane_ok m" "create_keyspace cfg m = (res, m')"
  shows "keeps m m'"
proof -
  let ?k = "mi_next_keyspace_id m" and ?m1 = "m\<lparr>mi_next_keyspace_id := mi_next_keyspace_id m + 1\<rparr>"
  let ?h = "\<lambda>root. fresh_keyspace_head ?k (kr_shard_roots root) (kr_file_count root) 0"
  have k1: "keeps m ?m1"
    by (rule with_next_keyspace [OF assms(1)]) simp
  then have ok1: "objects_ok ?m1" "plane_ok ?m1"
    by (simp_all add: keeps_def plane_ok_def)
  obtain r2 m2 where r2: "insert_empty_keyspace_root_locked ?m1 = (r2, m2)"
    by fastforce
  note root = empty_root_added [OF ok1(1) r2]
  then have a2: "objects_added ?m1 m2"
    by blast
  have k2: "keeps ?m1 m2"
    by (rule objects_added_keeps [OF ok1(2) a2])
  note k12 = keeps_trans [OF k1 k2]
  have fin: "keeps m2 y" if "r2 = Inr root" "insert_checkpoint (NativeKeyspace ?k) 0 (CP_NativeKeyspace (kr_root_id root)) (add_keyspace ?k (?h root) m2) = (r, y)" for root r y
    by (rule added_keyspace_keeps [where h = "?h root" and root = root and i = "kr_root_id root" and res = r])
      (use that k2 root objects_added_same [OF a2] alloc_keyspace_fresh [OF assms(1)] in
        \<open>auto simp: fresh_keyspace_head_def keeps_def plane_ok_def\<close>)
  have run: "create_keyspace cfg m = (case validate_config cfg of Inl e \<Rightarrow> (Inl e, m) | Inr _ \<Rightarrow>
      if \<not> ?k + 1 < u128_limit then (Inl Panic, m)
      else case r2 of Inl e \<Rightarrow> (Inl e, m2) | Inr root \<Rightarrow>
        (case insert_checkpoint (NativeKeyspace ?k) 0 (CP_NativeKeyspace (kr_root_id root)) (add_keyspace ?k (?h root) m2) of
          (Inl e, y) \<Rightarrow> (Inl e, y) | (Inr _, y) \<Rightarrow> (Inr (?h root), y)))"
    unfolding create_keyspace_def Let_def
    by (simp only: seqM_steps alloc_keyspace_id_def seqM_alloc seqM_known [where g = insert_empty_keyspace_root_locked and m = ?m1, OF r2] seqM_return)
      (simp add: add_keyspace_def fresh_keyspace_head_def cong: sum.case_cong)
  show ?thesis
    using assms(2) k12 keeps_refl [OF assms(1)] keeps_trans [OF k12 fin] unfolding run
    by (auto split: if_splits sum.splits prod.splits)
qed

section \<open>Files\<close>

lemma update_file_added:
  assumes "objects_ok m" "catalog_present m roots" "node_present m (fh_root (kf_head entry))"
    and "update_keyspace_file_locked roots n f entry m = (res, m')"
  shows "objects_added m m' \<and> (\<forall>i o' shard n'. res = Inr (i, o', shard, n') \<longrightarrow>
    i = f mod length roots \<and> i < length roots \<and> o' = roots ! i \<and> shard_present m' (cs_shard_id shard)
    \<and> bt_get (mi_keyspace_catalog_shards m') (cs_shard_id shard) = Some shard
    \<and> (\<exists>old. bt_get (mi_keyspace_catalog_shards m) (roots ! i) = Some old \<and> cs_files shard = bt_insert f entry (cs_files old)))"
proof -
  have len: "0 < length roots"
    using assms(2) by (simp add: catalog_present_def KEYSPACE_CATALOG_SHARD_COUNT_def)
  let ?i = "f mod length roots"
  have i: "?i < length roots"
    using len by simp
  then have "shard_present m (roots ! ?i)"
    using assms(2) by (simp add: catalog_present_def)
  then obtain old where old: "bt_get (mi_keyspace_catalog_shards m) (roots ! ?i) = Some old"
    "\<forall>x\<in>set (bt_values (cs_files old)). node_present m (fh_root (kf_head x))"
    by (auto simp: shard_present_def)
  have files: "\<forall>x\<in>set (bt_values (bt_insert f entry (cs_files old))). node_present m (fh_root (kf_head x))"
    using old(2) assms(3) set_bt_insert [of f entry "cs_files old"] by (auto simp: bt_values_def)
  obtain r1 m1 where r1: "insert_keyspace_catalog_shard_locked (bt_insert f entry (cs_files old)) m = (r1, m1)"
    by fastforce
  note shard = insert_shard_added [OF assms(1) r1]
  have present: "shard_present m1 (cs_shard_id s)" if "r1 = Inr s" for s
    by (rule insert_shard_present [OF assms(1) r1 [unfolded that] files])
  have "(res, m') = (case r1 of Inl e \<Rightarrow> (Inl e, m1) | Inr s \<Rightarrow>
      if bt_has (cs_files old) f then (Inr (?i, roots ! ?i, s, n), m1)
      else if n + 1 < u64_limit then (Inr (?i, roots ! ?i, s, n + 1), m1) else (Inl conflict, m1))"
    unfolding assms(4) [symmetric] using len old(1) r1
    by (simp add: update_keyspace_file_locked_def keyspace_catalog_shard_index_for_len_def keyspace_catalog_shard_locked_def
        seqM_steps Let_def seqM_def [of "insert_keyspace_catalog_shard_locked _"] run_defs checked_add_u64_def cong: sum.case_cong)
  with shard present i old(1) show ?thesis
    by (auto split: sum.splits if_splits)
qed

lemma advance_keyspace_keeps:
  assumes "plane_ok m" "bt_get (mi_keyspace_heads m) k = Some h" "mi_next_commit_seq m + 1 < u64_limit"
    and "node_present m (fh_root (kf_head entry))" "\<And>x. wh x = x\<lparr>mi_file_writer_epochs := e x\<rparr>"
    and "advance_keyspace k h (mi_next_commit_seq m) g f entry wh fc
      (m\<lparr>mi_next_commit_seq := mi_next_commit_seq m + 1, mi_next_commit_group_id := a\<rparr>) = (res, m')"
  shows "keeps m m'"
proof -
  let ?q = "mi_next_commit_seq m"
  let ?m1 = "m\<lparr>mi_next_commit_seq := ?q + 1, mi_next_commit_group_id := a\<rparr>"
  have k1: "keeps m ?m1"
    by (rule core_keeps [OF assms(1)]) (simp add: same_core_def)
  then have ok1: "objects_ok ?m1" and og1: "objects_grow m ?m1"
    by (simp_all add: keeps_def plane_ok_def grows_def)
  have h: "kh_generation h < ?q" "catalog_present m (kh_shard_roots h)"
    using assms(1,2) unfolding plane_ok_def keyspaces_ok_def by blast+
  obtain r2 m2 where r2: "update_keyspace_file_locked (kh_shard_roots h) (kh_file_count h) f entry ?m1 = (r2, m2)"
    by fastforce
  note upd = update_file_added [OF ok1 catalog_present_mono [OF og1 h(2)] node_present_mono [OF og1 assms(4)] r2]
  then have a2: "objects_added ?m1 m2"
    by blast
  have k2: "keeps m m2"
    using keeps_trans [OF k1 objects_added_keeps [OF _ a2]] k1 by (simp add: keeps_def)
  have gen: "next_keyspace_generation (kh_generation h) = Inr (kh_generation h + 1)"
    using h(1) assms(3) by (simp add: next_keyspace_generation_def checked_add_u64_def)
  show ?thesis
  proof (cases r2)
    case (Inl e)
    then have "m' = m2"
      using assms(6) r2 by (simp add: advance_keyspace_def seqM_def)
    with k2 show ?thesis
      by simp
  next
    case (Inr t)
    obtain i o' shard n' where t: "t = (i, o', shard, n')"
      by (cases t)
    from upd Inr t have i: "i < length (kh_shard_roots h)" "o' = kh_shard_roots h ! i" "shard_present m2 (cs_shard_id shard)"
      by auto
    have small: "i < 2 ^ 32"
      using i(1) h(2) by (simp add: catalog_present_def KEYSPACE_CATALOG_SHARD_COUNT_def)
    let ?h' = "h\<lparr>kh_generation := kh_generation h + 1, kh_latest_commit := ?q,
      kh_shard_roots := (kh_shard_roots h)[i := cs_shard_id shard], kh_file_count := n'\<rparr>"
    let ?c = "\<lparr>kc_commit_seq = ?q, kc_commit_group = g, kc_time = ?q, kc_keyspace_id = k, kc_shard_index = i,
      kc_old_shard = o', kc_new_shard = cs_shard_id shard, kc_old_file_count = kh_file_count h, kc_new_file_count = n'\<rparr>"
    let ?m3 = "(wh m2)\<lparr>mi_next_commit_seq := ?q\<rparr>"
    have m': "m' = (push_keyspace_commit k ?c ?h' ?m3)\<lparr>mi_file_commits := mi_file_commits (wh m2) @ [fc]\<rparr>"
    proof -
      have "m' = (wh m2)\<lparr>mi_keyspace_heads := bt_insert k ?h' (mi_keyspace_heads (wh m2)),
          mi_keyspace_commits := mi_keyspace_commits (wh m2) @ [?c], mi_file_commits := mi_file_commits (wh m2) @ [fc]\<rparr>"
        using assms(6) r2 Inr t gen small by (simp add: advance_keyspace_def run_defs Let_def)
      moreover have "mi_next_commit_seq (wh m2) = ?q + 1"
        by (simp add: assms(5) objects_added_same [OF a2])
      ultimately show ?thesis
        by (simp add: push_keyspace_commit_def)
    qed
    have k3: "keeps m ?m3"
      unfolding keeps_def
    proof (rule frame_step [OF assms(1)])
      show "objects_ok ?m3" "objects_grow m ?m3"
        using a2 og1 by (auto simp: assms(5) objects_added_def objects_ok_def objects_grow_def)
    qed (use a2 in \<open>auto simp: assms(5) objects_added_same [OF a2] counters_grow_def objects_added_def\<close>)
    have "shard_present ?m3 (cs_shard_id shard)"
      using i(3) by (simp add: shard_present_def assms(5))
    then have "keeps ?m3 (push_keyspace_commit k ?c ?h' ?m3)"
      unfolding keeps_def
      by (intro push_keyspace_commit_ok [where h = h])
        (use k3 assms(2) i(1,2) in \<open>simp_all add: keeps_def assms(5) objects_added_same [OF a2] replay_keyspace_commit_def\<close>)
    with k3 have "keeps m (push_keyspace_commit k ?c ?h' ?m3)"
      by (rule keeps_trans)
    then show ?thesis
      unfolding m' by (rule keeps_core) (simp add: same_core_def)
  qed
qed

lemma create_file_keeps:
  assumes "plane_ok m" "create_file cfg request m = (res, m')"
  shows "keeps m m'"
proof (cases "validate_config cfg")
  case (Inl e)
  with assms show ?thesis
    by (auto simp: create_file_def seqM_steps intro: keeps_refl)
next
  case cfg: (Inr u)
  show ?thesis
  proof (cases "bt_get (mi_keyspace_heads m) (mf_keyspace_id request)")
    case None
    with assms cfg show ?thesis
      by (simp add: create_file_def seqM_steps get_keyspace_head_def keeps_refl)
  next
    case (Some h)
    let ?m1 = "m\<lparr>mi_next_file_id := mi_next_file_id m + 1\<rparr>" and ?f = "mi_next_file_id m"
    have k1: "keeps m ?m1"
      by (rule core_keeps [OF assms(1)]) (simp add: same_core_def)
    obtain t m2 where t: "create_empty_tree cfg (mk_range 0 (cfg_file_root_blocks cfg)) ?m1 = (t, m2)"
      by fastforce
    have "objects_ok ?m1"
      using k1 by (simp add: keeps_def plane_ok_def)
    note tree = create_empty_tree_added [OF this t]
    then have a2: "objects_added ?m1 m2"
      by blast
    have k2: "keeps m m2"
      using keeps_trans [OF k1 objects_added_keeps [OF _ a2]] k1 by (simp add: keeps_def)
    let ?q = "mi_next_commit_seq m2" and ?g = "mi_next_commit_group_id m2"
    let ?m3 = "m2\<lparr>mi_next_commit_seq := ?q + 1\<rparr>"
    let ?m4 = "m2\<lparr>mi_next_commit_seq := ?q + 1, mi_next_commit_group_id := ?g + 1\<rparr>"
    let ?head = "\<lambda>root. \<lparr>fh_file_id = ?f, fh_version = 0, fh_root = mn_node_id root, fh_size = 0, fh_latest_commit = ?q\<rparr>"
    have k3: "keeps m ?m3" and k4: "keeps m ?m4"
      by (rule keeps_core [OF k2]; simp add: same_core_def)+
    have adv: "keeps m m5" if "t = Inr root" "?q + 1 < u64_limit"
      "advance_keyspace (mf_keyspace_id request) h ?q ?g ?f \<lparr>kf_name = mf_name request, kf_head = ?head root\<rparr>
        (\<lambda>m. m\<lparr>mi_file_writer_epochs := bt_insert (mf_keyspace_id request, ?f) 0 (mi_file_writer_epochs m)\<rparr>) fc ?m4 = (r5, m5)"
      for root fc r5 m5
      by (rule keeps_trans [OF k2 advance_keyspace_keeps [OF _ _ that(2) _ _ that(3)]])
        (use k2 Some tree that(1) in \<open>simp_all add: keeps_def objects_added_same [OF a2]\<close>)
    have group: "keeps m (x\<lparr>mi_commit_groups := c\<rparr>)" if "keeps m x" for x c
      by (rule keeps_core [OF that]) (simp add: same_core_def)
    show ?thesis
      using assms(2) keeps_refl [OF assms(1)] k2 k3 k4 group adv
      unfolding create_file_def Let_def alloc_file_id_def alloc_commit_seq_def alloc_commit_group_id_def
      by (auto simp: seqM_steps seqM_alloc get_keyspace_head_def Some seqM_known [where g = "create_empty_tree _ _" and m = ?m1, OF t]
          seqM_def [of "advance_keyspace _ _ _ _ _ _ _ _"] simp del: One_nat_def split: if_splits sum.splits prod.splits)
  qed
qed

section \<open>Publishing file roots\<close>

lemma progress_core: "same_core m (publish_stream_progress k f n st m)"
  by (auto simp: publish_stream_progress_def same_core_def Let_def split: option.splits)

lemma publish_keyspace_keeps:
  assumes "plane_ok m" "publish_keyspace_commit cfg k fence us m = (res, m')"
  shows "keeps m m'"
proof (cases "bt_get (mi_keyspace_heads m) k")
  case None
  with assms show ?thesis
    by (auto simp: publish_keyspace_commit_def get_keyspace_head_def seqM_steps keeps_refl)
next
  case (Some h)
  let ?q = "mi_next_commit_seq m" and ?g = "mi_next_commit_group_id m"
  let ?m1 = "m\<lparr>mi_next_commit_seq := ?q + 1\<rparr>"
  let ?m2 = "m\<lparr>mi_next_commit_seq := ?q + 1, mi_next_commit_group_id := ?g + 1\<rparr>"
  have k1: "keeps m ?m1" and k2: "keeps m ?m2"
    by (rule core_keeps [OF assms(1)]; simp add: same_core_def)+
  have adv: "keeps m m3" if "get_metadata_node m root = Inr node" "?q + 1 < u64_limit"
    "advance_keyspace k h ?q ?g f (en\<lparr>kf_head := (kf_head en)\<lparr>fh_version := v, fh_latest_commit := ?q,
      fh_root := root, fh_size := n\<rparr>\<rparr>) (\<lambda>m. m) fc ?m2 = (r3, m3)" for root node en v n f fc r3 m3
    by (rule advance_keyspace_keeps [OF assms(1) Some that(2) _ _ that(3), where e = mi_file_writer_epochs])
      (use that(1) in \<open>simp_all add: get_metadata_node_def bt_has_iff\<close>)
  have recorded: "keeps m (publish_stream_progress k f n st (x\<lparr>mi_commit_groups := c\<rparr>))" if "keeps m x" for x c f n st
    by (rule keeps_core [OF keeps_core [OF that, of "x\<lparr>mi_commit_groups := c\<rparr>"] progress_core]) (simp add: same_core_def)
  show ?thesis
    using assms(2) keeps_refl [OF assms(1)] k1 k2
    unfolding publish_keyspace_commit_def Let_def alloc_commit_seq_def alloc_commit_group_id_def
    by (auto simp: seqM_steps seqM_alloc get_keyspace_head_def Some seqM_def [of "advance_keyspace _ _ _ _ _ _ _ _"]
        simp del: One_nat_def split: if_splits sum.splits prod.splits intro: recorded adv)
qed

lemma publish_keeps:
  assumes "plane_ok m" "publish_commit_group cfg intent m = (res, m')"
  shows "keeps m m'"
  using assms publish_block_keeps publish_keyspace_keeps
  by (auto simp: publish_commit_group_def split: mapping_owner.splits)

section \<open>Nodes from outside\<close>

lemma allocate_node_keeps:
  assumes "plane_ok m" "allocate_metadata_node r kind m = (res, m')"
  shows "keeps m m'"
proof -
  have "objects_added m (m\<lparr>mi_next_metadata_node_id := mi_next_metadata_node_id m + 1\<rparr>)"
    using assms(1) by (auto simp: plane_ok_def objects_added_def objects_ok_def objects_grow_def with_objects_def intro: less_SucI)
  from objects_added_keeps [OF assms(1) this] show ?thesis
    using assms(2) keeps_refl [OF assms(1)]
    by (auto simp: allocate_metadata_node_def alloc_metadata_node_id_def seqM_alloc split: if_splits)
qed

text \<open>
  Writers store nodes under identifiers they were allocated; then storing never changes a node.
\<close>

lemma persist_node_keeps:
  assumes "plane_ok m" "mn_node_id (mw_node w) < mi_next_metadata_node_id m" "persist_metadata_node w m = (res, m')"
  shows "keeps m m'"
proof -
  let ?i = "mn_node_id (mw_node w)"
  have "objects_added m (m\<lparr>mi_metadata_nodes := bt_insert ?i (mw_node w) (mi_metadata_nodes m)\<rparr>)"
    if "bt_get (mi_metadata_nodes m) ?i = None"
    using assms(1,2) that
    by (auto simp: plane_ok_def objects_added_def objects_ok_def objects_grow_def with_objects_def bt_has_iff split: if_splits)
  from objects_added_keeps [OF assms(1) this] show ?thesis
    using assms(3) keeps_refl [OF assms(1)]
    by (auto simp: persist_metadata_node_def Let_def seqM_steps split: option.splits sum.splits)
qed

end
