(* ===== verification/Metadata_GC.thy ===== *)
theory Metadata_GC
  imports Metadata_Files
begin

text \<open>
  Garbage collection of the metadata plane (\<^verbatim>\<open>local/metadata_plane.rs\<close>): which roots a retention
  policy keeps, the mark phase over the node graph, and the sweep that removes unmarked nodes and
  trims checkpoints and commit logs down to the retained window.
\<close>

section \<open>Retention\<close>

record retention_policy =
  rp_retain_deleted_devices :: bool
  rp_deleted_device_grace_commits :: nat
  rp_pitr_grace_commits :: nat

definition retain_deleted_devices :: retention_policy where
  "retain_deleted_devices =
    \<lparr>rp_retain_deleted_devices = True, rp_deleted_device_grace_commits = 0, rp_pitr_grace_commits = 0\<rparr>"

definition retain_everything :: retention_policy where
  "retain_everything =
    \<lparr>rp_retain_deleted_devices = True, rp_deleted_device_grace_commits = 0, rp_pitr_grace_commits = u64_limit - 1\<rparr>"

definition expire_deleted_immediately :: retention_policy where
  "expire_deleted_immediately =
    \<lparr>rp_retain_deleted_devices = False, rp_deleted_device_grace_commits = 0, rp_pitr_grace_commits = 0\<rparr>"

definition expire_deleted_after_commits :: "nat \<Rightarrow> retention_policy" where
  "expire_deleted_after_commits commits =
    \<lparr>rp_retain_deleted_devices = False, rp_deleted_device_grace_commits = commits, rp_pitr_grace_commits = 0\<rparr>"

definition with_pitr_grace_commits :: "retention_policy \<Rightarrow> nat \<Rightarrow> retention_policy" where
  "with_pitr_grace_commits policy commits = policy\<lparr>rp_pitr_grace_commits := commits\<rparr>"

definition current_commit_seq_locked :: "metadata_inner \<Rightarrow> commit_seq" where
  "current_commit_seq_locked m = saturating_sub (mi_next_commit_seq m) 1"

definition pitr_retention_floor_locked :: "metadata_inner \<Rightarrow> retention_policy \<Rightarrow> commit_seq option" where
  "pitr_retention_floor_locked m policy =
    (if rp_pitr_grace_commits policy > 0 then
      Some (saturating_sub (current_commit_seq_locked m) (saturating_sub (rp_pitr_grace_commits policy) 1))
     else None)"

definition retain_pitr_commit_locked :: "metadata_inner \<Rightarrow> retention_policy \<Rightarrow> commit_seq \<Rightarrow> bool" where
  "retain_pitr_commit_locked m policy commit_seq \<longleftrightarrow>
    rp_pitr_grace_commits policy > 0
    \<and> saturating_sub (current_commit_seq_locked m) commit_seq < rp_pitr_grace_commits policy"

definition retain_deleted_device_locked :: "metadata_inner \<Rightarrow> retention_policy \<Rightarrow> device_id \<Rightarrow> bool" where
  "retain_deleted_device_locked m policy device_id =
    (if rp_retain_deleted_devices policy then bt_has (mi_deleted_device_heads m) device_id
     else case bt_get (mi_deleted_device_heads m) device_id of
       None \<Rightarrow> False
     | Some head \<Rightarrow> saturating_sub (current_commit_seq_locked m) (dh_latest_commit head)
         < rp_deleted_device_grace_commits policy)"

primrec owner_has_head :: "metadata_inner \<Rightarrow> retention_policy \<Rightarrow> mapping_owner \<Rightarrow> bool" where
  "owner_has_head m policy (BlockDevice device_id) \<longleftrightarrow>
    bt_has (mi_device_heads m) device_id \<or> retain_deleted_device_locked m policy device_id"
| "owner_has_head m policy (NativeKeyspace keyspace_id) \<longleftrightarrow> bt_has (mi_keyspace_heads m) keyspace_id"

definition owner_has_retained_pitr_locked :: "metadata_inner \<Rightarrow> retention_policy \<Rightarrow> mapping_owner \<Rightarrow> bool" where
  "owner_has_retained_pitr_locked m policy owner =
    (if rp_pitr_grace_commits policy = 0 then False else owner_has_head m policy owner)"

definition block_pitr_anchor_targets_locked ::
  "metadata_inner \<Rightarrow> retention_policy \<Rightarrow> (device_id, commit_seq) btree" where
  "block_pitr_anchor_targets_locked m policy =
    (case pitr_retention_floor_locked m policy of
      None \<Rightarrow> []
    | Some floor \<Rightarrow>
        let live = foldl (\<lambda>targets (device_id, head). bt_insert device_id (min floor (dh_latest_commit head)) targets)
          [] (mi_device_heads m) in
        foldl (\<lambda>targets (device_id, head).
            if retain_deleted_device_locked m policy device_id
            then bt_insert device_id (min floor (dh_latest_commit head)) targets else targets)
          live (mi_deleted_device_heads m))"

definition keyspace_pitr_anchor_targets_locked ::
  "metadata_inner \<Rightarrow> retention_policy \<Rightarrow> (keyspace_id, commit_seq) btree" where
  "keyspace_pitr_anchor_targets_locked m policy =
    (case pitr_retention_floor_locked m policy of
      None \<Rightarrow> []
    | Some floor \<Rightarrow>
        foldl (\<lambda>targets (keyspace_id, head). bt_insert keyspace_id (min floor (kh_latest_commit head)) targets)
          [] (mi_keyspace_heads m))"

definition checkpoint_exists_locked :: "metadata_inner \<Rightarrow> mapping_owner \<Rightarrow> commit_seq \<Rightarrow> bool" where
  "checkpoint_exists_locked m owner commit_seq =
    list_ex (\<lambda>c. cp_owner c = owner \<and> cp_commit_seq c = commit_seq) (bt_values (mi_checkpoints m))"

definition ensure_block_anchor :: "device_id \<times> commit_seq \<Rightarrow> unit meta_op" where
  "ensure_block_anchor = (\<lambda>(device_id, anchor_seq).
    seqM (getM (\<lambda>m. checkpoint_exists_locked m (BlockDevice device_id) anchor_seq)) (\<lambda>exists.
    if exists then returnM ()
    else
      seqM (askM (\<lambda>m. replay_device_roots_locked m device_id anchor_seq None)) (\<lambda>roots.
      seqM (insert_checkpoint (BlockDevice device_id) anchor_seq (CP_BlockShard roots)) (\<lambda>_.
      returnM ()))))"

definition ensure_keyspace_anchor :: "keyspace_id \<times> commit_seq \<Rightarrow> unit meta_op" where
  "ensure_keyspace_anchor = (\<lambda>(keyspace_id, anchor_seq).
    seqM (getM (\<lambda>m. checkpoint_exists_locked m (NativeKeyspace keyspace_id) anchor_seq)) (\<lambda>exists.
    if exists then returnM ()
    else
      seqM (askM (\<lambda>m. replay_keyspace_root_locked m keyspace_id anchor_seq None)) (\<lambda>replayed.
      seqM (insert_keyspace_root_locked (kr_shard_roots replayed) (kr_file_count replayed)) (\<lambda>root.
      seqM (insert_checkpoint (NativeKeyspace keyspace_id) anchor_seq (CP_NativeKeyspace (kr_root_id root))) (\<lambda>_.
      returnM ())))))"

definition ensure_pitr_anchor_checkpoints_locked :: "retention_policy \<Rightarrow> unit meta_op" where
  "ensure_pitr_anchor_checkpoints_locked policy =
    seqM (getM (\<lambda>m. block_pitr_anchor_targets_locked m policy)) (\<lambda>targets.
    seqM (forM ensure_block_anchor targets) (\<lambda>_.
    seqM (getM (\<lambda>m. keyspace_pitr_anchor_targets_locked m policy)) (\<lambda>targets.
    forM ensure_keyspace_anchor targets)))"

definition latest_checkpoint_at_or_before_floor_locked ::
  "metadata_inner \<Rightarrow> mapping_owner \<Rightarrow> commit_seq \<Rightarrow> checkpoint_id option" where
  "latest_checkpoint_at_or_before_floor_locked m owner floor =
    map_option cp_checkpoint_id (max_by_key cp_commit_seq
      (filter (\<lambda>c. cp_owner c = owner \<and> cp_commit_seq c \<le> floor) (bt_values (mi_checkpoints m))))"

definition retained_pitr_anchor_locked ::
  "metadata_inner \<Rightarrow> retention_policy \<Rightarrow> mapping_owner \<Rightarrow> checkpoint option" where
  "retained_pitr_anchor_locked m policy owner =
    (case pitr_retention_floor_locked m policy of
      None \<Rightarrow> None
    | Some floor \<Rightarrow>
        (case latest_checkpoint_at_or_before_floor_locked m owner floor of
          None \<Rightarrow> None
        | Some checkpoint_id \<Rightarrow> bt_get (mi_checkpoints m) checkpoint_id))"

definition retain_checkpoint_for_pitr_locked :: "metadata_inner \<Rightarrow> retention_policy \<Rightarrow> checkpoint \<Rightarrow> bool" where
  "retain_checkpoint_for_pitr_locked m policy c \<longleftrightarrow>
    retain_pitr_commit_locked m policy (cp_commit_seq c)
    \<or> (case retained_pitr_anchor_locked m policy (cp_owner c) of
        None \<Rightarrow> False | Some anchor \<Rightarrow> cp_checkpoint_id anchor = cp_checkpoint_id c)"

definition retain_shard_commit_for_pitr_locked :: "metadata_inner \<Rightarrow> retention_policy \<Rightarrow> shard_commit \<Rightarrow> bool" where
  "retain_shard_commit_for_pitr_locked m policy commit =
    (if \<not> owner_has_retained_pitr_locked m policy (BlockDevice (sc_device_id commit)) then False
     else case retained_pitr_anchor_locked m policy (BlockDevice (sc_device_id commit)) of
       None \<Rightarrow> retain_pitr_commit_locked m policy (sc_commit_seq commit)
     | Some anchor \<Rightarrow> cp_commit_seq anchor < sc_commit_seq commit
         \<or> retain_pitr_commit_locked m policy (sc_commit_seq commit))"

definition retain_keyspace_commit_for_pitr_locked :: "metadata_inner \<Rightarrow> retention_policy \<Rightarrow> keyspace_commit \<Rightarrow> bool" where
  "retain_keyspace_commit_for_pitr_locked m policy commit =
    (if \<not> owner_has_retained_pitr_locked m policy (NativeKeyspace (kc_keyspace_id commit)) then False
     else case retained_pitr_anchor_locked m policy (NativeKeyspace (kc_keyspace_id commit)) of
       None \<Rightarrow> retain_pitr_commit_locked m policy (kc_commit_seq commit)
     | Some anchor \<Rightarrow> cp_commit_seq anchor < kc_commit_seq commit
         \<or> retain_pitr_commit_locked m policy (kc_commit_seq commit))"

definition retained_checkpoint_ids_locked :: "metadata_inner \<Rightarrow> retention_policy \<Rightarrow> checkpoint_id set" where
  "retained_checkpoint_ids_locked m policy =
    set (map cp_checkpoint_id (filter (\<lambda>c. owner_has_retained_pitr_locked m policy (cp_owner c)
      \<and> retain_checkpoint_for_pitr_locked m policy c) (bt_values (mi_checkpoints m))))"

definition retained_cutoffs :: "metadata_inner \<Rightarrow> retention_policy \<Rightarrow> (nat \<Rightarrow> mapping_owner) \<Rightarrow> nat list
    \<Rightarrow> (nat, commit_seq) btree" where
  "retained_cutoffs m policy owner ids =
    foldl (\<lambda>cutoffs i. case retained_pitr_anchor_locked m policy (owner i) of
      None \<Rightarrow> cutoffs | Some anchor \<Rightarrow> bt_insert i (cp_commit_seq anchor) cutoffs) [] ids"

definition retained_shard_commit_cutoffs_locked ::
  "metadata_inner \<Rightarrow> retention_policy \<Rightarrow> (device_id, commit_seq) btree" where
  "retained_shard_commit_cutoffs_locked m policy =
    retained_cutoffs m policy BlockDevice (bt_keys (block_pitr_anchor_targets_locked m policy))"

definition retained_keyspace_commit_cutoffs_locked ::
  "metadata_inner \<Rightarrow> retention_policy \<Rightarrow> (keyspace_id, commit_seq) btree" where
  "retained_keyspace_commit_cutoffs_locked m policy =
    retained_cutoffs m policy NativeKeyspace (bt_keys (keyspace_pitr_anchor_targets_locked m policy))"

section \<open>Roots\<close>

definition checkpoint_gc_roots :: "metadata_inner \<Rightarrow> retention_policy \<Rightarrow> checkpoint \<Rightarrow> metadata_node_id list result" where
  "checkpoint_gc_roots m policy c =
    (if owner_has_retained_pitr_locked m policy (cp_owner c) \<and> retain_checkpoint_for_pitr_locked m policy c then
      (case cp_owner c of
        BlockDevice device_id \<Rightarrow> checkpoint_block_roots c
      | NativeKeyspace keyspace_id \<Rightarrow>
          andThen (checkpoint_keyspace_root c) (collect_keyspace_metadata_roots_locked m))
     else Inr [])"

definition roots_for_gc_locked :: "metadata_inner \<Rightarrow> retention_policy \<Rightarrow> metadata_node_id list result" where
  "roots_for_gc_locked m policy =
    (let live = concat (map dh_shard_roots (bt_values (mi_device_heads m))) in
    andThen (mapR (collect_keyspace_shard_metadata_roots_locked m)
      (concat (map kh_shard_roots (bt_values (mi_keyspace_heads m))))) (\<lambda>files.
    andThen (mapR (checkpoint_gc_roots m policy) (bt_values (mi_checkpoints m))) (\<lambda>checkpoints.
    let commits = map sc_new_root (filter (retain_shard_commit_for_pitr_locked m policy) (mi_shard_commits m)) in
    andThen (mapR (\<lambda>c. collect_keyspace_shard_metadata_roots_locked m (kc_new_shard c))
      (filter (retain_keyspace_commit_for_pitr_locked m policy) (mi_keyspace_commits m))) (\<lambda>keyspace_commits.
    let deleted = concat (map (\<lambda>(device_id, head). dh_shard_roots head)
          (filter (\<lambda>(device_id, head). retain_deleted_device_locked m policy device_id) (mi_deleted_device_heads m)));
        records = concat (map dr_shard_roots
          (filter (\<lambda>r. retain_deleted_device_locked m policy (dr_device_id r)) (bt_values (mi_delete_records m)))) in
    Inr (remdups_adj (sort (live @ concat files @ concat checkpoints @ commits @ concat keyspace_commits
      @ deleted @ records)))))))"

section \<open>Marking\<close>

definition collect_node_segments :: "metadata_node \<Rightarrow> segment_id set" where
  "collect_node_segments node =
    (case mn_kind node of Internal children \<Rightarrow> {} | Leaf entries run_extents \<Rightarrow> set (map le_segment_id entries))"

definition collect_all_segments_locked :: "metadata_inner \<Rightarrow> segment_id set" where
  "collect_all_segments_locked m = \<Union> (set (map collect_node_segments (bt_values (mi_metadata_nodes m))))"

text \<open>
  The mark loop: a stack of identifiers still to visit and the sets collected so far.  Every
  iteration either shortens the stack or visits a stored node for the first time.
\<close>

function collect_reachable_loop ::
  "(metadata_node_id, metadata_node) btree \<Rightarrow> metadata_node_id list \<Rightarrow> metadata_node_id set \<Rightarrow> segment_id set
    \<Rightarrow> (metadata_node_id set \<times> segment_id set) result" where
  "collect_reachable_loop nodes [] visited segments = Inr (visited, segments)"
| "collect_reachable_loop nodes (node_id # stack) visited segments =
    (if node_id \<in> visited then collect_reachable_loop nodes stack visited segments
     else case bt_get nodes node_id of
       None \<Rightarrow> Inl (not_found K_metadata_node)
     | Some node \<Rightarrow>
         (case mn_kind node of
           Internal children \<Rightarrow>
             collect_reachable_loop nodes (map mc_node_id children @ stack) (insert node_id visited) segments
         | Leaf entries run_extents \<Rightarrow>
             collect_reachable_loop nodes stack (insert node_id visited) (segments \<union> set (map le_segment_id entries))))"
  by pat_completeness auto

lemma unvisited_shrinks:
  assumes "bt_get nodes i = Some node" "i \<notin> visited"
  shows "card (fst ` set nodes - insert i visited) < card (fst ` set nodes - visited)"
proof (rule psubset_card_mono)
  have "i \<in> fst ` set nodes"
    using bt_get_mem [OF assms(1)] by force
  then show "fst ` set nodes - insert i visited \<subset> fst ` set nodes - visited"
    using assms(2) by auto
qed simp

termination collect_reachable_loop
  by (relation "inv_image (less_than <*lex*> less_than)
      (\<lambda>(nodes, stack, visited, segments). (card (fst ` set nodes - visited), length stack))")
    (auto simp: unvisited_shrinks)

definition collect_reachable_locked ::
  "metadata_inner \<Rightarrow> metadata_node_id list \<Rightarrow> (metadata_node_id set \<times> segment_id set) result" where
  "collect_reachable_locked m roots = collect_reachable_loop (mi_metadata_nodes m) roots {} {}"

record metadata_mark_report =
  mr_epoch :: nat
  mr_roots :: "metadata_node_id list"
  mr_metadata_nodes :: "metadata_node_id list"
  mr_segments :: "segment_id list"

definition mark_reachable_for_gc :: "retention_policy \<Rightarrow> metadata_mark_report meta_op" where
  "mark_reachable_for_gc policy =
    seqM (ensure_pitr_anchor_checkpoints_locked policy) (\<lambda>_.
    seqM alloc_gc_epoch (\<lambda>epoch.
    seqM (askM (\<lambda>m. roots_for_gc_locked m policy)) (\<lambda>roots.
    seqM (askM (\<lambda>m. collect_reachable_locked m roots)) (\<lambda>(nodes, segments).
    seqM (modM (\<lambda>m. m\<lparr>
      mi_metadata_last_mark_epoch := foldl (\<lambda>t i. bt_insert i epoch t) (mi_metadata_last_mark_epoch m) (sorted_list_of_set nodes),
      mi_segment_last_mark_epoch := foldl (\<lambda>t i. bt_insert i epoch t) (mi_segment_last_mark_epoch m) (sorted_list_of_set segments)\<rparr>)) (\<lambda>_.
    returnM \<lparr>mr_epoch = epoch, mr_roots = roots, mr_metadata_nodes = sorted_list_of_set nodes,
      mr_segments = sorted_list_of_set segments\<rparr>)))))"

section \<open>Sweeping\<close>

record metadata_sweep_report =
  sr_epoch :: nat
  sr_deleted_metadata_nodes :: "metadata_node_id list"
  sr_released_segments :: "segment_id list"

definition expired_devices_locked :: "metadata_inner \<Rightarrow> retention_policy \<Rightarrow> device_id set" where
  "expired_devices_locked m policy =
    set (filter (\<lambda>d. \<not> retain_deleted_device_locked m policy d) (bt_keys (mi_deleted_device_heads m)))"

text \<open>The second half of the sweep: histories outside the retained window go.\<close>

definition trim_history :: "retention_policy \<Rightarrow> metadata_inner \<Rightarrow> metadata_inner" where
  "trim_history policy m =
    (let retained_checkpoints = retained_checkpoint_ids_locked m policy;
         commit_cutoffs = retained_shard_commit_cutoffs_locked m policy;
         keyspace_commit_cutoffs = retained_keyspace_commit_cutoffs_locked m policy;
         expired_devices = expired_devices_locked m policy;
         after = (\<lambda>cutoffs i seq. case bt_get cutoffs i of None \<Rightarrow> False | Some cutoff \<Rightarrow> cutoff < seq) in
     m\<lparr>mi_deleted_device_heads := bt_retain (\<lambda>d _. d \<notin> expired_devices) (mi_deleted_device_heads m),
       mi_device_specs := bt_retain (\<lambda>d _. d \<notin> expired_devices) (mi_device_specs m),
       mi_delete_records := bt_retain (\<lambda>_ r. dr_device_id r \<notin> expired_devices) (mi_delete_records m),
       mi_checkpoints := bt_retain (\<lambda>_ c.
         (case cp_owner c of BlockDevice d \<Rightarrow> d \<notin> expired_devices | NativeKeyspace _ \<Rightarrow> True)
         \<and> cp_checkpoint_id c \<in> retained_checkpoints) (mi_checkpoints m),
       mi_shard_commits := filter (\<lambda>c. sc_device_id c \<notin> expired_devices
         \<and> after commit_cutoffs (sc_device_id c) (sc_commit_seq c)) (mi_shard_commits m),
       mi_keyspace_commits := filter (\<lambda>c. after keyspace_commit_cutoffs (kc_keyspace_id c) (kc_commit_seq c))
         (mi_keyspace_commits m),
       mi_file_commits := filter (\<lambda>c. after keyspace_commit_cutoffs (fc_keyspace_id c) (fc_commit_seq c))
         (mi_file_commits m),
       mi_fork_records := bt_retain (\<lambda>_ r. fr_source r \<notin> expired_devices \<and> fr_target r \<notin> expired_devices)
         (mi_fork_records m),
       mi_append_streams := bt_retain (\<lambda>_ s. as_status s = Stream_Active) (mi_append_streams m)\<rparr>)"

definition remove_nodes :: "metadata_node_id list \<Rightarrow> metadata_inner \<Rightarrow> metadata_inner" where
  "remove_nodes ids m = m\<lparr>
    mi_metadata_nodes := bt_retain (\<lambda>i _. i \<notin> set ids) (mi_metadata_nodes m),
    mi_metadata_last_mark_epoch := bt_retain (\<lambda>i _. i \<notin> set ids) (mi_metadata_last_mark_epoch m)\<rparr>"

definition sweep_unmarked_after_mark :: "retention_policy \<Rightarrow> nat \<Rightarrow> metadata_sweep_report meta_op" where
  "sweep_unmarked_after_mark policy epoch =
    seqM (liftM (ensure (epoch \<noteq> 0) invalid_argument)) (\<lambda>_.
    seqM (askM (\<lambda>m. ensure (\<not> mi_next_gc_epoch m \<le> epoch) invalid_argument)) (\<lambda>_.
    seqM (ensure_pitr_anchor_checkpoints_locked policy) (\<lambda>_.
    seqM (askM (\<lambda>m. roots_for_gc_locked m policy)) (\<lambda>roots.
    seqM (askM (\<lambda>m. collect_reachable_locked m roots)) (\<lambda>(reachable_nodes, reachable_segments).
    seqM (getM collect_all_segments_locked) (\<lambda>all_segments.
    seqM (getM (\<lambda>m. filter (\<lambda>i. bt_get (mi_metadata_last_mark_epoch m) i \<noteq> Some epoch \<and> i \<notin> reachable_nodes)
      (bt_keys (mi_metadata_nodes m)))) (\<lambda>candidate_nodes.
    seqM (modM (remove_nodes candidate_nodes)) (\<lambda>_.
    seqM (getM (\<lambda>m. filter (\<lambda>s. bt_get (mi_segment_last_mark_epoch m) s \<noteq> Some epoch \<and> s \<notin> reachable_segments)
      (sorted_list_of_set all_segments))) (\<lambda>released_segments.
    seqM (modM (trim_history policy)) (\<lambda>_.
    returnM \<lparr>sr_epoch = epoch, sr_deleted_metadata_nodes = sort candidate_nodes,
      sr_released_segments = remdups_adj (sort released_segments)\<rparr>))))))))))"

definition roots_for_gc :: "retention_policy \<Rightarrow> metadata_node_id list meta_op" where
  "roots_for_gc policy =
    seqM (ensure_pitr_anchor_checkpoints_locked policy) (\<lambda>_.
    askM (\<lambda>m. roots_for_gc_locked m policy))"

section \<open>What marking collects\<close>

definition child_ids :: "(metadata_node_id, metadata_node) btree \<Rightarrow> metadata_node_id \<Rightarrow> metadata_node_id set" where
  "child_ids nodes i =
    (case bt_get nodes i of None \<Rightarrow> {}
     | Some node \<Rightarrow> (case mn_kind node of Internal cs \<Rightarrow> mc_node_id ` set cs | Leaf es xs \<Rightarrow> {}))"

definition segments_at :: "(metadata_node_id, metadata_node) btree \<Rightarrow> metadata_node_id \<Rightarrow> segment_id set" where
  "segments_at nodes i = (case bt_get nodes i of None \<Rightarrow> {} | Some node \<Rightarrow> collect_node_segments node)"

inductive_set reach :: "(metadata_node_id, metadata_node) btree \<Rightarrow> metadata_node_id set \<Rightarrow> metadata_node_id set"
  for nodes roots where
  root: "r \<in> roots \<Longrightarrow> r \<in> reach nodes roots"
| child: "i \<in> reach nodes roots \<Longrightarrow> c \<in> child_ids nodes i \<Longrightarrow> c \<in> reach nodes roots"

lemma reach_mono: "R \<subseteq> R' \<Longrightarrow> reach nodes R \<subseteq> reach nodes R'"
proof
  fix i
  assume "R \<subseteq> R'" "i \<in> reach nodes R"
  from this(2) this(1) show "i \<in> reach nodes R'"
    by (induction rule: reach.induct) (auto intro: reach.intros)
qed

lemma reach_least:
  assumes "R \<subseteq> V" "\<And>i. i \<in> V \<Longrightarrow> child_ids nodes i \<subseteq> V"
  shows "reach nodes R \<subseteq> V"
proof
  fix i
  assume "i \<in> reach nodes R"
  then show "i \<in> V"
    by (induction rule: reach.induct) (use assms in auto)
qed

lemma reach_children: "reach nodes (child_ids nodes i) \<subseteq> reach nodes {i}"
  by (rule reach_least) (auto intro: reach.intros)

lemma reach_Un: "reach nodes (R \<union> R') = reach nodes R \<union> reach nodes R'"
proof
  show "reach nodes (R \<union> R') \<subseteq> reach nodes R \<union> reach nodes R'"
    by (rule reach_least) (auto intro: reach.intros)
qed (auto dest: reach_mono [THEN subsetD, rotated])

lemma collect_loop_result:
  "collect_reachable_loop nodes stack visited segments = Inr (V, S) \<Longrightarrow>
    (\<forall>i\<in>visited. bt_has nodes i \<and> child_ids nodes i \<subseteq> visited \<union> set stack) \<Longrightarrow>
    segments = (\<Union>i\<in>visited. segments_at nodes i) \<Longrightarrow>
    visited \<union> set stack \<subseteq> V \<and> V \<subseteq> visited \<union> reach nodes (set stack)
    \<and> (\<forall>i\<in>V. bt_has nodes i \<and> child_ids nodes i \<subseteq> V) \<and> S = (\<Union>i\<in>V. segments_at nodes i)"
proof (induction nodes stack visited segments rule: collect_reachable_loop.induct)
  case (1 nodes visited segments)
  then show ?case
    by auto
next
  case (2 nodes i stack visited segments)
  show ?case
  proof (cases "i \<in> visited")
    case True
    with "2.prems" have "visited \<union> set stack \<subseteq> V \<and> V \<subseteq> visited \<union> reach nodes (set stack)
        \<and> (\<forall>i\<in>V. bt_has nodes i \<and> child_ids nodes i \<subseteq> V) \<and> S = (\<Union>i\<in>V. segments_at nodes i)"
      by (intro "2.IH"(1)) (auto simp: insert_absorb)
    with True reach_mono [of "set stack" "set (i # stack)" nodes] show ?thesis
      by auto
  next
    case False
    with "2.prems"(1) obtain node where node: "bt_get nodes i = Some node"
      by (cases "bt_get nodes i") auto
    have ri: "reach nodes (set (i # stack)) = reach nodes {i} \<union> reach nodes (set stack)"
      by (simp add: reach_Un [symmetric])
    have self: "i \<in> reach nodes {i}"
      by (simp add: reach.root)
    show ?thesis
    proof (cases "mn_kind node")
      case (Internal cs)
      have kids: "child_ids nodes i = set (map mc_node_id cs)"
        by (simp add: child_ids_def node Internal)
      have "insert i visited \<union> set (map mc_node_id cs @ stack) \<subseteq> V
          \<and> V \<subseteq> insert i visited \<union> reach nodes (set (map mc_node_id cs @ stack))
          \<and> (\<forall>i\<in>V. bt_has nodes i \<and> child_ids nodes i \<subseteq> V) \<and> S = (\<Union>i\<in>V. segments_at nodes i)"
        by (rule "2.IH"(2) [OF False node Internal])
          (use "2.prems" False node Internal kids in
            \<open>auto simp: bt_has_iff segments_at_def [of nodes i] collect_node_segments_def\<close>)
      moreover have "reach nodes (set (map mc_node_id cs @ stack)) \<subseteq> reach nodes {i} \<union> reach nodes (set stack)"
        using reach_children [of nodes i] by (simp add: reach_Un kids [symmetric] del: set_map) blast
      ultimately show ?thesis
        using ri self by auto
    next
      case (Leaf es xs)
      have kids: "child_ids nodes i = {}"
        by (simp add: child_ids_def node Leaf)
      have "insert i visited \<union> set stack \<subseteq> V \<and> V \<subseteq> insert i visited \<union> reach nodes (set stack)
          \<and> (\<forall>i\<in>V. bt_has nodes i \<and> child_ids nodes i \<subseteq> V) \<and> S = (\<Union>i\<in>V. segments_at nodes i)"
        by (rule "2.IH"(3) [OF False node Leaf])
          (use "2.prems" False node Leaf kids in
            \<open>auto simp: bt_has_iff segments_at_def [of nodes i] collect_node_segments_def\<close>)
      with ri self show ?thesis
        by auto
    qed
  qed
qed

lemma collect_reachable_Inr:
  assumes "collect_reachable_locked m roots = Inr (V, S)"
  shows "V = reach (mi_metadata_nodes m) (set roots)" "\<forall>i\<in>V. node_present m i"
    "S = (\<Union>i\<in>V. segments_at (mi_metadata_nodes m) i)"
proof -
  have r: "set roots \<subseteq> V \<and> V \<subseteq> reach (mi_metadata_nodes m) (set roots)
      \<and> (\<forall>i\<in>V. node_present m i \<and> child_ids (mi_metadata_nodes m) i \<subseteq> V)
      \<and> S = (\<Union>i\<in>V. segments_at (mi_metadata_nodes m) i)"
    using collect_loop_result [OF assms [unfolded collect_reachable_locked_def]] by simp
  then show "V = reach (mi_metadata_nodes m) (set roots)"
    using reach_least [of "set roots" V "mi_metadata_nodes m"] by blast
  show "\<forall>i\<in>V. node_present m i" "S = (\<Union>i\<in>V. segments_at (mi_metadata_nodes m) i)"
    using r by blast+
qed

text \<open>The loop succeeds when nothing reachable is missing.\<close>

lemma collect_loop_total:
  "\<forall>i\<in>reach nodes (set stack). bt_has nodes i \<Longrightarrow> \<exists>V S. collect_reachable_loop nodes stack visited segments = Inr (V, S)"
proof (induction nodes stack visited segments rule: collect_reachable_loop.induct)
  case (2 nodes i stack visited segments)
  have ri: "reach nodes (set (i # stack)) = reach nodes {i} \<union> reach nodes (set stack)"
    by (simp add: reach_Un [symmetric])
  have "bt_has nodes i"
    using "2.prems" reach.root [of i "set (i # stack)" nodes] by simp
  then obtain node where node: "bt_get nodes i = Some node"
    by (auto simp: bt_has_iff)
  show ?case
  proof (cases "i \<in> visited")
    case True
    with "2.IH"(1) [OF True] "2.prems" ri show ?thesis
      by simp
  next
    case False
    show ?thesis
    proof (cases "mn_kind node")
      case (Internal cs)
      have "child_ids nodes i = set (map mc_node_id cs)"
        by (simp add: child_ids_def node Internal)
      then have "\<forall>j\<in>reach nodes (set (map mc_node_id cs @ stack)). bt_has nodes j"
        using "2.prems" ri reach_children [of nodes i] by (auto simp: reach_Un)
      from "2.IH"(2) [OF False node Internal this] show ?thesis
        using False node Internal by simp
    next
      case (Leaf es xs)
      have "\<forall>j\<in>reach nodes (set stack). bt_has nodes j"
        using "2.prems" ri by auto
      from "2.IH"(3) [OF False node Leaf this] show ?thesis
        using False node Leaf by simp
    qed
  qed
qed simp

end
