(* ===== verification/Metadata_Retention.thy ===== *)
theory Metadata_Retention
  imports Metadata_GC
begin

text \<open>
  What garbage collection keeps.  The anchors it inserts tell the truth, everything a retained
  state refers to is a root of the mark phase, and trimming the logs leaves every state inside the
  retention window recomputable.
\<close>

section \<open>Anchor targets\<close>

lemma foldl_insert_get:
  "bt_ok xs \<Longrightarrow> bt_get (foldl (\<lambda>t (k, v). if P k then bt_insert k (f v) t else t) t0 xs) k =
    (if P k then (case bt_get xs k of None \<Rightarrow> bt_get t0 k | Some v \<Rightarrow> Some (f v)) else bt_get t0 k)"
proof (induction xs arbitrary: t0)
  case (Cons x xs)
  obtain a v where x: "x = (a, v)"
    by (cases x)
  have "bt_get xs a = None"
    using Cons.prems x by (auto simp: bt_ok_Cons bt_get_None_iff)
  then show ?case
    using Cons x by (auto simp: bt_ok_Cons split: option.splits)
qed simp

lemma foldl_insert_ok: "bt_ok t0 \<Longrightarrow> bt_ok (foldl (\<lambda>t (k, v). if P k then bt_insert k (f v) t else t) t0 xs)"
  by (induction xs arbitrary: t0) (auto split: prod.splits)

lemma foldl_insert_all_ok: "bt_ok t0 \<Longrightarrow> bt_ok (foldl (\<lambda>t (k, v). bt_insert k (f v) t) t0 xs)"
  using foldl_insert_ok [where P = "\<lambda>_. True"] by simp

lemma block_targets_ok: "bt_ok (block_pitr_anchor_targets_locked m policy)"
  by (auto simp: block_pitr_anchor_targets_locked_def Let_def intro!: foldl_insert_ok foldl_insert_all_ok split: option.splits)

lemma block_target:
  assumes "devices_ok m"
  shows "bt_get (block_pitr_anchor_targets_locked m policy) d =
    (case pitr_retention_floor_locked m policy of
      None \<Rightarrow> None
    | Some floor \<Rightarrow>
        if owner_has_head m policy (BlockDevice d)
        then map_option (\<lambda>h. min floor (dh_latest_commit h)) (device_any_head m d) else None)"
proof -
  have ok: "bt_ok (mi_device_heads m)" "bt_ok (mi_deleted_device_heads m)"
    using assms by (simp_all add: devices_ok_def)
  have live: "bt_get (foldl (\<lambda>t (k, v). bt_insert k (min q (dh_latest_commit v)) t) [] (mi_device_heads m)) d
      = map_option (\<lambda>h. min q (dh_latest_commit h)) (bt_get (mi_device_heads m) d)" for q
    using foldl_insert_get [OF ok(1), where P = "\<lambda>_. True" and f = "\<lambda>h. min q (dh_latest_commit h)" and ?t0.0 = "[]"]
    by (simp split: option.splits)
  have dis: "bt_get (mi_deleted_device_heads m) d = None" if "bt_get (mi_device_heads m) d \<noteq> None"
    using assms that unfolding devices_ok_def bt_has_iff by fastforce
  have ret: "retain_deleted_device_locked m policy d \<Longrightarrow> bt_get (mi_deleted_device_heads m) d \<noteq> None"
    by (auto simp: retain_deleted_device_locked_def bt_has_iff split: if_splits option.splits)
  show ?thesis
    using dis ret
    by (auto simp: block_pitr_anchor_targets_locked_def Let_def live device_any_head_def bt_has_iff
        foldl_insert_get [OF ok(2), where P = "retain_deleted_device_locked m policy"]
        split: option.splits)
qed

lemma keyspace_targets_ok: "bt_ok (keyspace_pitr_anchor_targets_locked m policy)"
  by (auto simp: keyspace_pitr_anchor_targets_locked_def intro!: foldl_insert_all_ok split: option.splits)

lemma keyspace_target:
  assumes "bt_ok (mi_keyspace_heads m)"
  shows "bt_get (keyspace_pitr_anchor_targets_locked m policy) k =
    (case pitr_retention_floor_locked m policy of
      None \<Rightarrow> None
    | Some floor \<Rightarrow> map_option (\<lambda>h. min floor (kh_latest_commit h)) (bt_get (mi_keyspace_heads m) k))"
  using foldl_insert_get [OF assms, where P = "\<lambda>_. True" and f = "\<lambda>h. min q (kh_latest_commit h)" and ?t0.0 = "[]" for q]
  by (simp add: keyspace_pitr_anchor_targets_locked_def split: option.splits)

section \<open>Inserting anchors\<close>

text \<open>Inserting anchors changes checkpoints and the keyspace roots they name, nothing else.\<close>

definition anchored :: "metadata_inner \<Rightarrow> metadata_inner \<Rightarrow> bool" where
  "anchored m m' \<longleftrightarrow> keeps m m'
    \<and> mi_device_heads m' = mi_device_heads m \<and> mi_deleted_device_heads m' = mi_deleted_device_heads m
    \<and> mi_keyspace_heads m' = mi_keyspace_heads m \<and> mi_next_commit_seq m' = mi_next_commit_seq m
    \<and> mi_metadata_nodes m' = mi_metadata_nodes m \<and> mi_shard_commits m' = mi_shard_commits m
    \<and> mi_keyspace_commits m' = mi_keyspace_commits m \<and> mi_keyspace_catalog_shards m' = mi_keyspace_catalog_shards m
    \<and> mi_metadata_last_mark_epoch m' = mi_metadata_last_mark_epoch m
    \<and> mi_segment_last_mark_epoch m' = mi_segment_last_mark_epoch m \<and> mi_next_gc_epoch m' = mi_next_gc_epoch m"

lemma anchored_refl: "plane_ok m \<Longrightarrow> anchored m m"
  by (simp add: anchored_def keeps_refl)

lemma anchored_trans: "anchored m m1 \<Longrightarrow> anchored m1 m2 \<Longrightarrow> anchored m m2"
  by (auto simp: anchored_def intro: keeps_trans)

lemma anchored_head: "anchored m m' \<Longrightarrow> device_any_head m' = device_any_head m"
  by (intro ext) (simp add: anchored_def device_any_head_def cong: option.case_cong)

lemma replayed_device_present:
  assumes "plane_ok m" "replay_device_roots_locked m d s ex = Inr roots"
  shows "\<forall>r\<in>set roots. node_present m r"
proof
  fix r
  assume r: "r \<in> set roots"
  obtain c base where c: "latest_device_checkpoint_at_or_before_locked m d s ex = Some c"
    and base: "checkpoint_block_roots c = Inr base"
    and fold: "foldR replay_shard_commit base (filter (\<lambda>x. cp_commit_seq c < sc_commit_seq x \<and> sc_commit_seq x \<le> s)
      (shard_commits_for_device_locked m d)) = Inr roots"
    using assms(2) unfolding replay_device_roots_locked_def by auto
  have "c \<in> owner_checkpoints m (BlockDevice d)"
    using latest_device_checkpoint [OF _ c] assms(1) by (simp add: plane_ok_def checkpoints_ok_def)
  then have "checkpoint_present m c" "cp_owner c = BlockDevice d"
    using assms(1) by (auto simp: owner_checkpoints_def plane_ok_def checkpoints_ok_def)
  then have "\<forall>x\<in>set base. node_present m x"
    using base by (auto simp: checkpoint_present_def checkpoint_block_roots_def)
  moreover have "\<forall>x\<in>set (shard_commits_for_device_locked m d). node_present m (sc_new_root x)"
    using assms(1) by (auto simp: shard_commits_for_device_locked_def plane_ok_def devices_ok_def)
  ultimately show "node_present m r"
    using shard_log.fold_slots [OF fold r] by auto
qed

lemma checkpoint_exists_iff:
  "bt_ok (mi_checkpoints m) \<Longrightarrow>
    checkpoint_exists_locked m o' q \<longleftrightarrow> (\<exists>c\<in>owner_checkpoints m o'. cp_commit_seq c = q)"
  by (auto simp: checkpoint_exists_locked_def owner_checkpoints_def bt_values_def list_ex_iff bt_get_iff_mem) force

lemma anchor_replayed:
  assumes "plane_ok m" "device_any_head m d = Some h" "q \<le> dh_latest_commit h"
    and "replay_device_roots_locked m d q None = Inr roots"
  shows "keeps m (with_checkpoint (BlockDevice d) q (CP_BlockShard roots) m)"
  unfolding keeps_def
proof (rule with_checkpoint_ok [OF assms(1)])
  show "checkpoint_present m (new_checkpoint (BlockDevice d) q (CP_BlockShard roots) m)"
    using replayed_device_present [OF assms(1,4)] assms(2) by (simp add: checkpoint_present_def new_checkpoint_def)
next
  fix e lo H
  assume "BlockDevice d = BlockDevice e" and t: "device_timeline m e lo H"
  then have e: "e = d"
    by simp
  have ok: "bt_ok (mi_checkpoints m)"
    using assms(1) by (simp add: plane_ok_def checkpoints_ok_def)
  obtain c where c: "latest_device_checkpoint_at_or_before_locked m d q None = Some c"
    using assms(4) by (auto simp: replay_device_roots_locked_def)
  have "roots = H q"
    using replay_device [OF ok t [unfolded e] c] assms(4) by simp
  moreover have "lo \<le> cp_commit_seq c" "cp_commit_seq c \<le> q"
    using latest_device_checkpoint [OF ok c] t e by (auto simp: device_timeline_def dev.consistent_def)
  moreover have "dh_latest_commit h < mi_next_commit_seq m"
    using device_timeline_head [OF t [unfolded e] assms(2)] by simp
  ultimately show "lo \<le> q \<and> q < mi_next_commit_seq m \<and> block_roots_of (CP_BlockShard roots) = Some (H q)
      \<and> (\<forall>h. device_any_head m e = Some h \<longrightarrow> q \<le> dh_latest_commit h)"
    using assms(2,3) e by (simp add: block_roots_of_def)
qed simp

lemma ensure_block_anchor_ok:
  assumes "plane_ok m" "device_any_head m d = Some h" "q \<le> dh_latest_commit h"
    and "ensure_block_anchor (d, q) m = (res, m')"
  shows "anchored m m' \<and> (\<forall>u. res = Inr u \<longrightarrow> (\<exists>c\<in>owner_checkpoints m' (BlockDevice d). cp_commit_seq c = q))"
proof -
  have ok: "bt_ok (mi_checkpoints m)" and cok: "checkpoints_ok m"
    using assms(1) by (simp_all add: plane_ok_def checkpoints_ok_def)
  have add: "anchored m x \<and> (\<exists>c\<in>owner_checkpoints x (BlockDevice d). cp_commit_seq c = q)"
    if "replay_device_roots_locked m d q None = Inr roots" "x = with_checkpoint (BlockDevice d) q (CP_BlockShard roots) m" for roots x
  proof -
    have "owner_checkpoints x (BlockDevice d)
        = insert (new_checkpoint (BlockDevice d) q (CP_BlockShard roots) m) (owner_checkpoints m (BlockDevice d))"
      using owner_checkpoints_insert [OF fresh_checkpoint [OF cok], of x "new_checkpoint (BlockDevice d) q (CP_BlockShard roots) m" "BlockDevice d"]
      by (simp add: that(2) with_checkpoint_def new_checkpoint_def)
    moreover have "keeps m x"
      unfolding that(2) by (rule anchor_replayed [OF assms(1-3) that(1)])
    ultimately show ?thesis
      by (simp add: anchored_def that(2) with_checkpoint_def new_checkpoint_def)
  qed
  show ?thesis
    using assms(4) add anchored_refl [OF assms(1)] checkpoint_exists_iff [OF ok, of "BlockDevice d" q]
    by (auto simp: ensure_block_anchor_def seqM_steps seqM_return insert_checkpoint_run split: if_splits sum.splits)
qed

lemma keyspace_anchor_replayed:
  assumes "plane_ok m" "bt_get (mi_keyspace_heads m) k = Some h" "q \<le> kh_latest_commit h"
    and "replay_keyspace_root_locked m k q None = Inr replayed"
    and "bt_get (mi_keyspace_roots m) i = Some root" "kr_shard_roots root = kr_shard_roots replayed"
    and "kr_file_count root = kr_file_count replayed"
  shows "keeps m (with_checkpoint (NativeKeyspace k) q (CP_NativeKeyspace i) m)"
  unfolding keeps_def
proof (rule with_checkpoint_ok [OF assms(1)])
  show "checkpoint_present m (new_checkpoint (NativeKeyspace k) q (CP_NativeKeyspace i) m)"
    using replayed_keyspace_present [OF assms(1,4)] assms(2,5,6)
    by (simp add: checkpoint_present_def new_checkpoint_def bt_has_iff)
next
  fix e lo H
  assume "NativeKeyspace k = NativeKeyspace e" and t: "keyspace_timeline m e lo H"
  then have e: "e = k"
    by simp
  have ok: "bt_ok (mi_checkpoints m)"
    using assms(1) by (simp add: plane_ok_def checkpoints_ok_def)
  obtain c where c: "latest_keyspace_checkpoint_at_or_before_locked m k q None = Some c"
    using assms(4) by (auto simp: replay_keyspace_root_locked_def)
  have "(kr_shard_roots replayed, kr_file_count replayed) = H q"
    using replay_keyspace [OF ok t [unfolded e] c] assms(4) by auto
  moreover have "lo \<le> cp_commit_seq c" "cp_commit_seq c \<le> q"
    using latest_keyspace_checkpoint [OF ok c] t e by (auto simp: keyspace_timeline_def ks.consistent_def)
  moreover have "kh_latest_commit h < mi_next_commit_seq m"
    using keyspace_timeline_head [OF t [unfolded e] assms(2)] by simp
  ultimately show "lo \<le> q \<and> q < mi_next_commit_seq m
      \<and> keyspace_state_of (mi_keyspace_roots m) (CP_NativeKeyspace i) = Some (H q)
      \<and> (\<forall>h. bt_get (mi_keyspace_heads m) e = Some h \<longrightarrow> q \<le> kh_latest_commit h)"
    using assms(2,3,5-7) e by (simp add: keyspace_state_of_def)
qed simp

lemma root_insert_anchored:
  assumes "plane_ok m" "insert_keyspace_root_locked roots n m = (res, m')"
  shows "anchored m m' \<and> owner_checkpoints m' = owner_checkpoints m \<and> mi_checkpoints m' = mi_checkpoints m"
proof -
  have "objects_ok m"
    using assms(1) by (simp add: plane_ok_def)
  then have "objects_added m m'"
    using insert_root_added [OF _ assms(2)] by blast
  then have "keeps m m'" "mi_checkpoints m' = mi_checkpoints m"
    using objects_added_keeps [OF assms(1)] objects_added_same by blast+
  then show ?thesis
    using assms(2)
    by (auto simp: anchored_def owner_checkpoints_def insert_keyspace_root_locked_def alloc_keyspace_root_id_def seqM_alloc
        seqM_steps Let_def split: if_splits sum.splits)
qed

lemma replay_keyspace_after_root:
  assumes "plane_ok m" "insert_keyspace_root_locked roots n m = (Inr root, x)"
    and "replay_keyspace_root_locked m k q None = Inr replayed"
  shows "replay_keyspace_root_locked x k q None = Inr replayed"
proof -
  have "objects_ok m"
    using assms(1) by (simp add: plane_ok_def)
  then have "objects_grow m x"
    using insert_root_added [OF _ assms(2)] unfolding objects_added_def by blast
  moreover have "mi_checkpoints x = mi_checkpoints m" "mi_keyspace_commits x = mi_keyspace_commits m"
    using root_insert_anchored [OF assms(1,2)] by (simp_all add: anchored_def)
  ultimately show ?thesis
    using assms(3)
    by (auto simp: replay_keyspace_root_locked_def latest_keyspace_checkpoint_at_or_before_locked_def
        keyspace_commits_for_keyspace_locked_def keyspace_root_locked_def objects_grow_def)
qed

lemma ensure_keyspace_anchor_ok:
  assumes "plane_ok m" "bt_get (mi_keyspace_heads m) k = Some h" "q \<le> kh_latest_commit h"
    and "ensure_keyspace_anchor (k, q) m = (res, m')"
  shows "anchored m m' \<and> (\<forall>u. res = Inr u \<longrightarrow> (\<exists>c\<in>owner_checkpoints m' (NativeKeyspace k). cp_commit_seq c = q))"
proof -
  have ok: "bt_ok (mi_checkpoints m)"
    using assms(1) by (simp add: plane_ok_def checkpoints_ok_def)
  have add: "anchored m y \<and> (\<exists>c\<in>owner_checkpoints y (NativeKeyspace k). cp_commit_seq c = q)"
    if rep: "replay_keyspace_root_locked m k q None = Inr replayed"
      and ins: "insert_keyspace_root_locked (kr_shard_roots replayed) (kr_file_count replayed) m = (Inr root, x)"
      and y: "y = with_checkpoint (NativeKeyspace k) q (CP_NativeKeyspace (kr_root_id root)) x" for replayed root x y
  proof -
    have x: "anchored m x"
      using root_insert_anchored [OF assms(1) ins] by blast
    then have okx: "plane_ok x" and cok: "checkpoints_ok x"
      by (simp_all add: anchored_def keeps_def plane_ok_def)
    have hx: "bt_get (mi_keyspace_heads x) k = Some h"
      using x assms(2) by (simp add: anchored_def)
    have "objects_ok m"
      using assms(1) by (simp add: plane_ok_def)
    then have root: "bt_get (mi_keyspace_roots x) (kr_root_id root) = Some root" "kr_shard_roots root = kr_shard_roots replayed"
      "kr_file_count root = kr_file_count replayed"
      using insert_root_added [OF _ ins] by blast+
    have "keeps x y"
      unfolding y
      by (rule keyspace_anchor_replayed [OF okx hx assms(3) replay_keyspace_after_root [OF assms(1) ins rep] root])
    then have "anchored x y"
      by (simp add: anchored_def y with_checkpoint_def)
    moreover have "owner_checkpoints y (NativeKeyspace k)
        = insert (new_checkpoint (NativeKeyspace k) q (CP_NativeKeyspace (kr_root_id root)) x) (owner_checkpoints x (NativeKeyspace k))"
      using owner_checkpoints_insert [OF fresh_checkpoint [OF cok], of y
          "new_checkpoint (NativeKeyspace k) q (CP_NativeKeyspace (kr_root_id root)) x" "NativeKeyspace k"]
      by (simp add: y with_checkpoint_def new_checkpoint_def)
    ultimately show ?thesis
      using anchored_trans [OF x] by (simp add: new_checkpoint_def)
  qed
  have root: "anchored m x" if "insert_keyspace_root_locked rs n m = (r, x)" for rs n r x
    using root_insert_anchored [OF assms(1) that] by blast
  show ?thesis
    using assms(4) anchored_refl [OF assms(1)] checkpoint_exists_iff [OF ok, of "NativeKeyspace k" q]
    by (auto simp: ensure_keyspace_anchor_def seqM_steps seqM_return seqM_def [of "insert_keyspace_root_locked _ _"]
        insert_checkpoint_run split: if_splits sum.splits prod.splits dest: add root)
qed

section \<open>All anchors\<close>

lemma anchored_checkpoint:
  "anchored m m' \<Longrightarrow> c \<in> owner_checkpoints m o' \<Longrightarrow> c \<in> owner_checkpoints m' o'"
  by (auto simp: anchored_def keeps_def grows_def records_grow_def owner_checkpoints_def)

lemma block_anchors_ok:
  "plane_ok m \<Longrightarrow> (\<forall>(d, q)\<in>set ts. \<exists>h. device_any_head m d = Some h \<and> q \<le> dh_latest_commit h) \<Longrightarrow>
    forM ensure_block_anchor ts m = (res, m') \<Longrightarrow>
    anchored m m' \<and> (\<forall>u. res = Inr u \<longrightarrow>
      (\<forall>(d, q)\<in>set ts. \<exists>c\<in>owner_checkpoints m' (BlockDevice d). cp_commit_seq c = q))"
proof (induction ts arbitrary: m)
  case Nil
  then show ?case
    by (simp add: anchored_refl)
next
  case (Cons t ts)
  obtain d q where t: "t = (d, q)"
    by (cases t)
  then obtain h where h: "device_any_head m d = Some h" "q \<le> dh_latest_commit h"
    using Cons.prems(2) by auto
  obtain r1 m1 where r1: "ensure_block_anchor t m = (r1, m1)"
    by fastforce
  note one = ensure_block_anchor_ok [OF Cons.prems(1) h r1 [unfolded t]]
  then have a1: "anchored m m1"
    by blast
  show ?case
  proof (cases r1)
    case (Inl e)
    with Cons.prems(3) r1 a1 show ?thesis
      by (auto simp: seqM_def)
  next
    case (Inr u)
    have rest: "forM ensure_block_anchor ts m1 = (res, m')"
      using Cons.prems(3) r1 Inr by (simp add: seqM_def)
    have "anchored m1 m' \<and> (\<forall>u. res = Inr u \<longrightarrow>
        (\<forall>(d, q)\<in>set ts. \<exists>c\<in>owner_checkpoints m' (BlockDevice d). cp_commit_seq c = q))"
      by (rule Cons.IH [OF _ _ rest]) (use a1 Cons.prems(2) in \<open>auto simp: anchored_def keeps_def anchored_head [OF a1]\<close>)
    with a1 one Inr t anchored_checkpoint [of m1 m'] show ?thesis
      by (auto intro: anchored_trans)
  qed
qed

lemma keyspace_anchors_ok:
  "plane_ok m \<Longrightarrow> (\<forall>(k, q)\<in>set ts. \<exists>h. bt_get (mi_keyspace_heads m) k = Some h \<and> q \<le> kh_latest_commit h) \<Longrightarrow>
    forM ensure_keyspace_anchor ts m = (res, m') \<Longrightarrow>
    anchored m m' \<and> (\<forall>u. res = Inr u \<longrightarrow>
      (\<forall>(k, q)\<in>set ts. \<exists>c\<in>owner_checkpoints m' (NativeKeyspace k). cp_commit_seq c = q))"
proof (induction ts arbitrary: m)
  case Nil
  then show ?case
    by (simp add: anchored_refl)
next
  case (Cons t ts)
  obtain k q where t: "t = (k, q)"
    by (cases t)
  then obtain h where h: "bt_get (mi_keyspace_heads m) k = Some h" "q \<le> kh_latest_commit h"
    using Cons.prems(2) by auto
  obtain r1 m1 where r1: "ensure_keyspace_anchor t m = (r1, m1)"
    by fastforce
  note one = ensure_keyspace_anchor_ok [OF Cons.prems(1) h r1 [unfolded t]]
  then have a1: "anchored m m1"
    by blast
  show ?case
  proof (cases r1)
    case (Inl e)
    with Cons.prems(3) r1 a1 show ?thesis
      by (auto simp: seqM_def)
  next
    case (Inr u)
    have rest: "forM ensure_keyspace_anchor ts m1 = (res, m')"
      using Cons.prems(3) r1 Inr by (simp add: seqM_def)
    have "anchored m1 m' \<and> (\<forall>u. res = Inr u \<longrightarrow>
        (\<forall>(k, q)\<in>set ts. \<exists>c\<in>owner_checkpoints m' (NativeKeyspace k). cp_commit_seq c = q))"
      by (rule Cons.IH [OF _ _ rest]) (use a1 Cons.prems(2) in \<open>auto simp: anchored_def keeps_def\<close>)
    with a1 one Inr t anchored_checkpoint [of m1 m'] show ?thesis
      by (auto intro: anchored_trans)
  qed
qed

text \<open>After the anchors are in place, every retained owner has a checkpoint no later than the floor.\<close>

definition anchors_in_place :: "metadata_inner \<Rightarrow> retention_policy \<Rightarrow> bool" where
  "anchors_in_place m policy \<longleftrightarrow>
    (\<forall>floor. pitr_retention_floor_locked m policy = Some floor \<longrightarrow>
      (\<forall>d. owner_has_head m policy (BlockDevice d) \<longrightarrow> (\<exists>c\<in>owner_checkpoints m (BlockDevice d). cp_commit_seq c \<le> floor))
      \<and> (\<forall>k. bt_has (mi_keyspace_heads m) k \<longrightarrow> (\<exists>c\<in>owner_checkpoints m (NativeKeyspace k). cp_commit_seq c \<le> floor)))"

lemma anchored_same:
  assumes "anchored m m'"
  shows "pitr_retention_floor_locked m' policy = pitr_retention_floor_locked m policy"
    "owner_has_head m' policy = owner_has_head m policy"
    "mi_keyspace_heads m' = mi_keyspace_heads m"
proof -
  have cur: "current_commit_seq_locked m' = current_commit_seq_locked m"
    using assms by (simp add: anchored_def current_commit_seq_locked_def)
  have del: "retain_deleted_device_locked m' policy = retain_deleted_device_locked m policy"
    using assms by (intro ext) (simp add: anchored_def retain_deleted_device_locked_def cur cong: option.case_cong)
  show "pitr_retention_floor_locked m' policy = pitr_retention_floor_locked m policy"
    by (simp add: pitr_retention_floor_locked_def cur)
  show "owner_has_head m' policy = owner_has_head m policy"
  proof
    fix o'
    show "owner_has_head m' policy o' = owner_has_head m policy o'"
      using assms del by (cases o') (simp_all add: anchored_def)
  qed
  show "mi_keyspace_heads m' = mi_keyspace_heads m"
    using assms by (simp add: anchored_def)
qed

lemma owner_has_head_any: "owner_has_head m policy (BlockDevice d) \<Longrightarrow> device_any_head m d \<noteq> None"
  by (auto simp: retain_deleted_device_locked_def device_any_head_def bt_has_iff split: if_splits option.splits)

lemma ensure_anchors_ok:
  assumes "plane_ok m" "ensure_pitr_anchor_checkpoints_locked policy m = (res, m')"
  shows "anchored m m' \<and> (\<forall>u. res = Inr u \<longrightarrow> anchors_in_place m' policy)"
proof -
  let ?bt = "block_pitr_anchor_targets_locked m policy"
  have dok: "devices_ok m"
    using assms(1) by (simp add: plane_ok_def)
  obtain r1 m1 where r1: "forM ensure_block_anchor ?bt m = (r1, m1)"
    by fastforce
  have "\<forall>(d, q)\<in>set ?bt. \<exists>h. device_any_head m d = Some h \<and> q \<le> dh_latest_commit h"
  proof (clarify)
    fix d q
    assume "(d, q) \<in> set ?bt"
    then have "bt_get ?bt d = Some q"
      by (simp add: bt_get_iff_mem [OF block_targets_ok])
    then show "\<exists>h. device_any_head m d = Some h \<and> q \<le> dh_latest_commit h"
      by (auto simp: block_target [OF dok] split: option.splits if_splits)
  qed
  note one = block_anchors_ok [OF assms(1) this r1]
  then have a1: "anchored m m1"
    by blast
  then have ok1: "plane_ok m1"
    by (simp add: anchored_def keeps_def)
  let ?kt = "keyspace_pitr_anchor_targets_locked m1 policy"
  have kok: "bt_ok (mi_keyspace_heads m1)"
    using ok1 by (simp add: plane_ok_def keyspaces_ok_def)
  obtain r2 m2 where r2: "forM ensure_keyspace_anchor ?kt m1 = (r2, m2)"
    by fastforce
  have "\<forall>(k, q)\<in>set ?kt. \<exists>h. bt_get (mi_keyspace_heads m1) k = Some h \<and> q \<le> kh_latest_commit h"
  proof (clarify)
    fix k q
    assume "(k, q) \<in> set ?kt"
    then have "bt_get ?kt k = Some q"
      by (simp add: bt_get_iff_mem [OF keyspace_targets_ok])
    then show "\<exists>h. bt_get (mi_keyspace_heads m1) k = Some h \<and> q \<le> kh_latest_commit h"
      by (auto simp: keyspace_target [OF kok] split: option.splits if_splits)
  qed
  note two = keyspace_anchors_ok [OF ok1 this r2]
  then have a2: "anchored m1 m2"
    by blast
  have run: "(res, m') = (case r1 of Inl e \<Rightarrow> (Inl e, m1) | Inr _ \<Rightarrow> (r2, m2))"
    unfolding assms(2) [symmetric] ensure_pitr_anchor_checkpoints_locked_def
    by (simp add: seqM_steps seqM_def [of "forM _ _"] r1 r2 cong: sum.case_cong)
  show ?thesis
  proof (cases r1)
    case (Inl e)
    with run a1 show ?thesis
      by simp
  next
    case (Inr u)
    with run have eq: "res = r2" "m' = m2"
      by simp_all
    have "anchors_in_place m' policy" if ok2: "r2 = Inr v" for v
      unfolding anchors_in_place_def
    proof (intro allI impI conjI)
      fix floor d
      assume f: "pitr_retention_floor_locked m' policy = Some floor" and d: "owner_has_head m' policy (BlockDevice d)"
      have f0: "pitr_retention_floor_locked m policy = Some floor" "owner_has_head m policy (BlockDevice d)"
        using f d anchored_same(1,2) [OF anchored_trans [OF a1 a2]] by (simp_all add: eq)
      then obtain h where h: "device_any_head m d = Some h"
        using owner_has_head_any by blast
      then have "bt_get ?bt d = Some (min floor (dh_latest_commit h))"
        using f0 by (simp add: block_target [OF dok])
      then have "(d, min floor (dh_latest_commit h)) \<in> set ?bt"
        by (rule bt_get_mem)
      then obtain c where "c \<in> owner_checkpoints m1 (BlockDevice d)" "cp_commit_seq c = min floor (dh_latest_commit h)"
        using one Inr by fastforce
      with anchored_checkpoint [OF a2] show "\<exists>c\<in>owner_checkpoints m' (BlockDevice d). cp_commit_seq c \<le> floor"
        unfolding eq by (intro bexI [of _ c]) simp_all
    next
      fix floor k
      assume f: "pitr_retention_floor_locked m' policy = Some floor" and k: "bt_has (mi_keyspace_heads m') k"
      have f0: "pitr_retention_floor_locked m1 policy = Some floor" "bt_has (mi_keyspace_heads m1) k"
        using f k anchored_same [OF a2] by (simp_all add: eq)
      then obtain h where h: "bt_get (mi_keyspace_heads m1) k = Some h"
        by (auto simp: bt_has_iff)
      then have "bt_get ?kt k = Some (min floor (kh_latest_commit h))"
        using f0 by (simp add: keyspace_target [OF kok])
      then have "(k, min floor (kh_latest_commit h)) \<in> set ?kt"
        by (rule bt_get_mem)
      then obtain c where "c \<in> owner_checkpoints m' (NativeKeyspace k)" "cp_commit_seq c = min floor (kh_latest_commit h)"
        using two ok2 eq by fastforce
      then show "\<exists>c\<in>owner_checkpoints m' (NativeKeyspace k). cp_commit_seq c \<le> floor"
        by (intro bexI [of _ c]) simp_all
    qed
    with eq anchored_trans [OF a1 a2] show ?thesis
      by auto
  qed
qed

end
