(* ===== verification/Metadata_Sweep.thy ===== *)
theory Metadata_Sweep
  imports Metadata_Retention
begin

text \<open>
  The sweep.  Its two halves remove the nodes the mark phase did not reach and the history outside
  the retention window; the lemmas below say what is left.
\<close>

section \<open>Anchors and cutoffs\<close>

lemma anchor_Some:
  assumes "checkpoints_ok m" "retained_pitr_anchor_locked m policy o' = Some a"
  shows "\<exists>floor. pitr_retention_floor_locked m policy = Some floor \<and> a \<in> owner_checkpoints m o' \<and> cp_commit_seq a \<le> floor"
proof -
  have ok: "bt_ok (mi_checkpoints m)" "\<And>i c. bt_get (mi_checkpoints m) i = Some c \<Longrightarrow> cp_checkpoint_id c = i"
    using assms(1) by (simp_all add: checkpoints_ok_def)
  obtain floor c where f: "pitr_retention_floor_locked m policy = Some floor"
    and c: "max_by_key cp_commit_seq (filter (\<lambda>c. cp_owner c = o' \<and> cp_commit_seq c \<le> floor) (bt_values (mi_checkpoints m))) = Some c"
    and a: "bt_get (mi_checkpoints m) (cp_checkpoint_id c) = Some a"
    using assms(2)
    by (auto simp: retained_pitr_anchor_locked_def latest_checkpoint_at_or_before_floor_locked_def split: option.splits)
  have mem: "c \<in> set (bt_values (mi_checkpoints m))" "cp_owner c = o'" "cp_commit_seq c \<le> floor"
    using max_by_key_Some [OF c] by auto
  then obtain i where i: "bt_get (mi_checkpoints m) i = Some c"
    using ok(1) by (auto simp: bt_values_def bt_get_iff_mem)
  with ok(2) a have "a = c"
    by fastforce
  with f mem i show ?thesis
    by (auto simp: owner_checkpoints_def)
qed

lemma anchor_exists:
  assumes "checkpoints_ok m" "pitr_retention_floor_locked m policy = Some floor"
    and "c \<in> owner_checkpoints m o'" "cp_commit_seq c \<le> floor"
  shows "\<exists>a. retained_pitr_anchor_locked m policy o' = Some a"
proof -
  have ok: "bt_ok (mi_checkpoints m)" "\<And>i c. bt_get (mi_checkpoints m) i = Some c \<Longrightarrow> cp_checkpoint_id c = i"
    using assms(1) by (simp_all add: checkpoints_ok_def)
  let ?xs = "filter (\<lambda>c. cp_owner c = o' \<and> cp_commit_seq c \<le> floor) (bt_values (mi_checkpoints m))"
  have "c \<in> set ?xs"
    using assms(3,4) by (auto simp: owner_checkpoints_def dest: bt_get_value)
  then have "?xs \<noteq> []"
    by (metis empty_iff empty_set)
  then obtain b where b: "max_by_key cp_commit_seq ?xs = Some b"
    by (cases "max_by_key cp_commit_seq ?xs") auto
  then have "b \<in> set (bt_values (mi_checkpoints m))"
    using max_by_key_Some [OF b] by auto
  then obtain i where "bt_get (mi_checkpoints m) i = Some b"
    using ok(1) by (auto simp: bt_values_def bt_get_iff_mem)
  with ok(2) have "bt_get (mi_checkpoints m) (cp_checkpoint_id b) = Some b"
    by fastforce
  then show ?thesis
    using b assms(2) by (simp add: retained_pitr_anchor_locked_def latest_checkpoint_at_or_before_floor_locked_def)
qed

lemma cutoffs_get:
  "bt_get (retained_cutoffs m policy owner ids) i =
    (if i \<in> set ids then map_option cp_commit_seq (retained_pitr_anchor_locked m policy (owner i)) else None)"
proof -
  have "bt_get (foldl (\<lambda>cutoffs i. case retained_pitr_anchor_locked m policy (owner i) of
      None \<Rightarrow> cutoffs | Some anchor \<Rightarrow> bt_insert i (cp_commit_seq anchor) cutoffs) t ids) i =
    (if i \<in> set ids \<and> retained_pitr_anchor_locked m policy (owner i) \<noteq> None
     then map_option cp_commit_seq (retained_pitr_anchor_locked m policy (owner i)) else bt_get t i)" for t
    by (induction ids arbitrary: t) (auto split: option.splits)
  then show ?thesis
    by (auto simp: retained_cutoffs_def)
qed

lemma floor_None: "pitr_retention_floor_locked m policy = None \<longleftrightarrow> rp_pitr_grace_commits policy = 0"
  by (simp add: pitr_retention_floor_locked_def)

lemma bt_keys_iff: "i \<in> set (bt_keys t) \<longleftrightarrow> bt_get t i \<noteq> None"
  using bt_get_None_iff [of t i] by (auto simp: bt_keys_def)

lemma shard_cutoff:
  assumes "devices_ok m"
  shows "bt_get (retained_shard_commit_cutoffs_locked m policy) d =
    (if owner_has_retained_pitr_locked m policy (BlockDevice d)
     then map_option cp_commit_seq (retained_pitr_anchor_locked m policy (BlockDevice d)) else None)"
proof -
  have "d \<in> set (bt_keys (block_pitr_anchor_targets_locked m policy)) \<longleftrightarrow>
      owner_has_retained_pitr_locked m policy (BlockDevice d)"
    using block_target [OF assms, of policy d] owner_has_head_any [of m policy d] floor_None [of m policy]
    by (auto simp: bt_keys_iff owner_has_retained_pitr_locked_def split: option.splits if_splits)
  then show ?thesis
    by (simp add: retained_shard_commit_cutoffs_locked_def cutoffs_get)
qed

lemma keyspace_cutoff:
  assumes "bt_ok (mi_keyspace_heads m)"
  shows "bt_get (retained_keyspace_commit_cutoffs_locked m policy) k =
    (if owner_has_retained_pitr_locked m policy (NativeKeyspace k)
     then map_option cp_commit_seq (retained_pitr_anchor_locked m policy (NativeKeyspace k)) else None)"
proof -
  have "k \<in> set (bt_keys (keyspace_pitr_anchor_targets_locked m policy)) \<longleftrightarrow>
      owner_has_retained_pitr_locked m policy (NativeKeyspace k)"
    using keyspace_target [OF assms, of policy k] floor_None [of m policy]
    by (auto simp: bt_keys_iff owner_has_retained_pitr_locked_def bt_has_iff split: option.splits if_splits)
  then show ?thesis
    by (simp add: retained_keyspace_commit_cutoffs_locked_def cutoffs_get)
qed

text \<open>A checkpoint inside the window is not before the floor, and no anchor is after it.\<close>

lemma retained_checkpoint_not_before:
  assumes "checkpoints_ok m" "retained_pitr_anchor_locked m policy o' = Some a"
    and "c \<in> owner_checkpoints m o'" "retain_checkpoint_for_pitr_locked m policy c"
  shows "cp_commit_seq a \<le> cp_commit_seq c"
proof -
  obtain floor where f: "pitr_retention_floor_locked m policy = Some floor" "a \<in> owner_checkpoints m o'" "cp_commit_seq a \<le> floor"
    using anchor_Some [OF assms(1,2)] by blast
  have own: "cp_owner c = o'"
    using assms(3) by (simp add: owner_checkpoints_def)
  from assms(4) show ?thesis
    unfolding retain_checkpoint_for_pitr_locked_def
  proof
    assume "retain_pitr_commit_locked m policy (cp_commit_seq c)"
    then show ?thesis
      using f(1,3) by (auto simp: retain_pitr_commit_locked_def pitr_retention_floor_locked_def saturating_sub_def split: if_splits)
  next
    assume "case retained_pitr_anchor_locked m policy (cp_owner c) of None \<Rightarrow> False
      | Some anchor \<Rightarrow> cp_checkpoint_id anchor = cp_checkpoint_id c"
    then have "cp_checkpoint_id a = cp_checkpoint_id c"
      using own assms(2) by simp
    with f(2) assms(1,3) have "a = c"
      by (auto simp: owner_checkpoints_def checkpoints_ok_def)
    then show ?thesis
      by simp
  qed
qed

section \<open>What the sweep leaves\<close>

definition swept :: "retention_policy \<Rightarrow> metadata_node_id list \<Rightarrow> metadata_inner \<Rightarrow> metadata_inner" where
  "swept policy candidates m = trim_history policy (remove_nodes candidates m)"

lemma removed_same:
  "current_commit_seq_locked (remove_nodes c m) = current_commit_seq_locked m"
  "retain_deleted_device_locked (remove_nodes c m) policy = retain_deleted_device_locked m policy"
  "pitr_retention_floor_locked (remove_nodes c m) policy = pitr_retention_floor_locked m policy"
  "retain_pitr_commit_locked (remove_nodes c m) policy = retain_pitr_commit_locked m policy"
  "retained_pitr_anchor_locked (remove_nodes c m) policy = retained_pitr_anchor_locked m policy"
  "retain_checkpoint_for_pitr_locked (remove_nodes c m) policy = retain_checkpoint_for_pitr_locked m policy"
  "expired_devices_locked (remove_nodes c m) policy = expired_devices_locked m policy"
  "retained_shard_commit_cutoffs_locked (remove_nodes c m) policy = retained_shard_commit_cutoffs_locked m policy"
  "retained_keyspace_commit_cutoffs_locked (remove_nodes c m) policy = retained_keyspace_commit_cutoffs_locked m policy"
proof -
  have heads: "mi_device_heads (remove_nodes c m) = mi_device_heads m" "mi_keyspace_heads (remove_nodes c m) = mi_keyspace_heads m"
    "mi_deleted_device_heads (remove_nodes c m) = mi_deleted_device_heads m" "mi_checkpoints (remove_nodes c m) = mi_checkpoints m"
    by (simp_all add: remove_nodes_def)
  show cur: "current_commit_seq_locked (remove_nodes c m) = current_commit_seq_locked m"
    by (simp add: current_commit_seq_locked_def remove_nodes_def)
  show del: "retain_deleted_device_locked (remove_nodes c m) policy = retain_deleted_device_locked m policy"
    by (rule ext) (simp add: retain_deleted_device_locked_def cur heads cong: option.case_cong)
  show fl: "pitr_retention_floor_locked (remove_nodes c m) policy = pitr_retention_floor_locked m policy"
    by (simp add: pitr_retention_floor_locked_def cur)
  show rp: "retain_pitr_commit_locked (remove_nodes c m) policy = retain_pitr_commit_locked m policy"
    by (intro ext) (simp add: retain_pitr_commit_locked_def cur)
  show an: "retained_pitr_anchor_locked (remove_nodes c m) policy = retained_pitr_anchor_locked m policy"
    by (intro ext) (simp add: retained_pitr_anchor_locked_def fl latest_checkpoint_at_or_before_floor_locked_def heads cong: option.case_cong)
  show "retain_checkpoint_for_pitr_locked (remove_nodes c m) policy = retain_checkpoint_for_pitr_locked m policy"
    by (intro ext) (simp add: retain_checkpoint_for_pitr_locked_def rp an)
  show "expired_devices_locked (remove_nodes c m) policy = expired_devices_locked m policy"
    by (simp add: expired_devices_locked_def del heads)
  show "retained_shard_commit_cutoffs_locked (remove_nodes c m) policy = retained_shard_commit_cutoffs_locked m policy"
    by (simp add: retained_shard_commit_cutoffs_locked_def retained_cutoffs_def block_pitr_anchor_targets_locked_def fl del heads an cong: option.case_cong)
  show "retained_keyspace_commit_cutoffs_locked (remove_nodes c m) policy = retained_keyspace_commit_cutoffs_locked m policy"
    by (simp add: retained_keyspace_commit_cutoffs_locked_def retained_cutoffs_def keyspace_pitr_anchor_targets_locked_def fl heads an cong: option.case_cong)
qed

lemma removed_head: "owner_has_head (remove_nodes c m) policy = owner_has_head m policy"
proof
  fix o'
  show "owner_has_head (remove_nodes c m) policy o' = owner_has_head m policy o'"
    by (cases o') (simp_all add: removed_same, simp_all add: remove_nodes_def)
qed

lemma removed_pitr: "owner_has_retained_pitr_locked (remove_nodes c m) policy = owner_has_retained_pitr_locked m policy"
  by (intro ext) (simp add: owner_has_retained_pitr_locked_def removed_head)

text \<open>The fields of the state after a sweep, in terms of the state before.\<close>

lemma swept_heads:
  "mi_device_heads (swept policy cand m) = mi_device_heads m"
  "mi_keyspace_heads (swept policy cand m) = mi_keyspace_heads m"
  "mi_next_commit_seq (swept policy cand m) = mi_next_commit_seq m"
  "mi_keyspace_catalog_shards (swept policy cand m) = mi_keyspace_catalog_shards m"
  "mi_keyspace_roots (swept policy cand m) = mi_keyspace_roots m"
  "mi_metadata_nodes (swept policy cand m) = bt_retain (\<lambda>i _. i \<notin> set cand) (mi_metadata_nodes m)"
  "mi_next_metadata_node_id (swept policy cand m) = mi_next_metadata_node_id m"
  "mi_next_keyspace_catalog_shard_id (swept policy cand m) = mi_next_keyspace_catalog_shard_id m"
  "mi_next_keyspace_root_id (swept policy cand m) = mi_next_keyspace_root_id m"
  "mi_next_device_id (swept policy cand m) = mi_next_device_id m"
  "mi_next_keyspace_id (swept policy cand m) = mi_next_keyspace_id m"
  "mi_next_checkpoint_id (swept policy cand m) = mi_next_checkpoint_id m"
  by (simp_all add: swept_def trim_history_def Let_def remove_nodes_def)

lemma expired_iff:
  "d \<in> expired_devices_locked m policy \<longleftrightarrow>
    bt_has (mi_deleted_device_heads m) d \<and> \<not> retain_deleted_device_locked m policy d"
  using bt_keys_iff [of d "mi_deleted_device_heads m"] by (auto simp: expired_devices_locked_def bt_has_iff)

lemma swept_deleted:
  "bt_get (mi_deleted_device_heads (swept policy cand m)) d =
    (if d \<in> expired_devices_locked m policy then None else bt_get (mi_deleted_device_heads m) d)"
  "bt_get (mi_device_specs (swept policy cand m)) d =
    (if d \<in> expired_devices_locked m policy then None else bt_get (mi_device_specs m) d)"
  by (simp_all add: swept_def trim_history_def Let_def bt_get_retain_key removed_same)
    (simp_all add: remove_nodes_def)

lemma swept_any_head:
  assumes "devices_ok m"
  shows "device_any_head (swept policy cand m) d =
    (if owner_has_head m policy (BlockDevice d) then device_any_head m d else None)"
proof -
  have "bt_get (mi_deleted_device_heads m) d = None" if "bt_get (mi_device_heads m) d \<noteq> None"
    using assms that unfolding devices_ok_def bt_has_iff by fastforce
  moreover have "retain_deleted_device_locked m policy d \<Longrightarrow> bt_get (mi_deleted_device_heads m) d \<noteq> None"
    by (auto simp: retain_deleted_device_locked_def bt_has_iff split: if_splits option.splits)
  ultimately show ?thesis
    by (auto simp: device_any_head_def swept_heads swept_deleted expired_iff bt_has_iff split: option.splits)
qed

lemma swept_shard_commits:
  assumes "devices_ok m"
  shows "mi_shard_commits (swept policy cand m) =
    filter (\<lambda>c. owner_has_retained_pitr_locked m policy (BlockDevice (sc_device_id c))
      \<and> (\<exists>a. retained_pitr_anchor_locked m policy (BlockDevice (sc_device_id c)) = Some a
          \<and> cp_commit_seq a < sc_commit_seq c)) (mi_shard_commits m)"
proof -
  have "mi_shard_commits (swept policy cand m) = filter (\<lambda>c. sc_device_id c \<notin> expired_devices_locked m policy
      \<and> (case bt_get (retained_shard_commit_cutoffs_locked m policy) (sc_device_id c) of None \<Rightarrow> False
        | Some cutoff \<Rightarrow> cutoff < sc_commit_seq c)) (mi_shard_commits m)"
    by (simp add: swept_def trim_history_def Let_def removed_same) (simp add: remove_nodes_def)
  also have "\<dots> = filter (\<lambda>c. owner_has_retained_pitr_locked m policy (BlockDevice (sc_device_id c))
      \<and> (\<exists>a. retained_pitr_anchor_locked m policy (BlockDevice (sc_device_id c)) = Some a
          \<and> cp_commit_seq a < sc_commit_seq c)) (mi_shard_commits m)"
  proof (rule filter_cong [OF refl])
    fix c
    have "sc_device_id c \<notin> expired_devices_locked m policy"
      if "owner_has_retained_pitr_locked m policy (BlockDevice (sc_device_id c))"
      using that assms unfolding expired_iff devices_ok_def by (auto simp: owner_has_retained_pitr_locked_def split: if_splits)
    then show "(sc_device_id c \<notin> expired_devices_locked m policy
        \<and> (case bt_get (retained_shard_commit_cutoffs_locked m policy) (sc_device_id c) of None \<Rightarrow> False
          | Some cutoff \<Rightarrow> cutoff < sc_commit_seq c)) =
      (owner_has_retained_pitr_locked m policy (BlockDevice (sc_device_id c))
      \<and> (\<exists>a. retained_pitr_anchor_locked m policy (BlockDevice (sc_device_id c)) = Some a
          \<and> cp_commit_seq a < sc_commit_seq c))"
      by (auto simp: shard_cutoff [OF assms] split: option.splits)
  qed
  finally show ?thesis .
qed

lemma swept_keyspace_commits:
  assumes "bt_ok (mi_keyspace_heads m)"
  shows "mi_keyspace_commits (swept policy cand m) =
    filter (\<lambda>c. owner_has_retained_pitr_locked m policy (NativeKeyspace (kc_keyspace_id c))
      \<and> (\<exists>a. retained_pitr_anchor_locked m policy (NativeKeyspace (kc_keyspace_id c)) = Some a
          \<and> cp_commit_seq a < kc_commit_seq c)) (mi_keyspace_commits m)"
proof -
  have "mi_keyspace_commits (swept policy cand m) = filter (\<lambda>c.
      case bt_get (retained_keyspace_commit_cutoffs_locked m policy) (kc_keyspace_id c) of None \<Rightarrow> False
        | Some cutoff \<Rightarrow> cutoff < kc_commit_seq c) (mi_keyspace_commits m)"
    by (simp add: swept_def trim_history_def Let_def removed_same) (simp add: remove_nodes_def)
  also have "\<dots> = filter (\<lambda>c. owner_has_retained_pitr_locked m policy (NativeKeyspace (kc_keyspace_id c))
      \<and> (\<exists>a. retained_pitr_anchor_locked m policy (NativeKeyspace (kc_keyspace_id c)) = Some a
          \<and> cp_commit_seq a < kc_commit_seq c)) (mi_keyspace_commits m)"
    by (rule filter_cong [OF refl]) (auto simp: keyspace_cutoff [OF assms] split: option.splits)
  finally show ?thesis .
qed

lemma swept_checkpoint:
  assumes "devices_ok m" "checkpoints_ok m"
  shows "bt_get (mi_checkpoints (swept policy cand m)) i = Some c \<longleftrightarrow>
    bt_get (mi_checkpoints m) i = Some c \<and> owner_has_retained_pitr_locked m policy (cp_owner c)
    \<and> retain_checkpoint_for_pitr_locked m policy c"
proof -
  have ok: "bt_ok (mi_checkpoints m)" "\<And>i c. bt_get (mi_checkpoints m) i = Some c \<Longrightarrow> cp_checkpoint_id c = i"
    using assms(2) by (simp_all add: checkpoints_ok_def)
  let ?keep = "\<lambda>c. owner_has_retained_pitr_locked m policy (cp_owner c) \<and> retain_checkpoint_for_pitr_locked m policy c"
  have ids: "cp_checkpoint_id c \<in> retained_checkpoint_ids_locked m policy \<longleftrightarrow> ?keep c" if c: "bt_get (mi_checkpoints m) i = Some c" for i c
  proof
    assume "cp_checkpoint_id c \<in> retained_checkpoint_ids_locked m policy"
    then obtain x where x: "x \<in> set (bt_values (mi_checkpoints m))" "?keep x" "cp_checkpoint_id x = cp_checkpoint_id c"
      by (auto simp: retained_checkpoint_ids_locked_def)
    then obtain j where "bt_get (mi_checkpoints m) j = Some x"
      using ok(1) by (auto simp: bt_values_def bt_get_iff_mem)
    with ok(2) c x(3) have "x = c"
      by fastforce
    with x(2) show "?keep c"
      by simp
  qed (use bt_get_value [OF c] in \<open>auto simp: retained_checkpoint_ids_locked_def\<close>)
  have dead: "d \<notin> expired_devices_locked m policy" if "owner_has_retained_pitr_locked m policy (BlockDevice d)" for d
    using that assms(1) unfolding expired_iff devices_ok_def by (auto simp: owner_has_retained_pitr_locked_def split: if_splits)
  have "mi_checkpoints (swept policy cand m) = bt_retain (\<lambda>_ c.
         (case cp_owner c of BlockDevice d \<Rightarrow> d \<notin> expired_devices_locked m policy | NativeKeyspace _ \<Rightarrow> True)
         \<and> cp_checkpoint_id c \<in> retained_checkpoint_ids_locked m policy) (mi_checkpoints m)"
    by (simp add: swept_def trim_history_def Let_def removed_same retained_checkpoint_ids_locked_def removed_pitr)
      (simp add: remove_nodes_def)
  then show ?thesis
    using ids dead
    by (auto simp: bt_get_retain [OF ok(1)] split: option.splits if_splits mapping_owner.splits)
qed

section \<open>What the roots cover\<close>

lemma mapR_member: "mapR f xs = Inr ys \<Longrightarrow> x \<in> set xs \<Longrightarrow> \<exists>y\<in>set ys. f x = Inr y"
  by (auto simp: mapR_Inr_iff list_all2_conv_all_nth in_set_conv_nth)

definition shard_file_roots :: "metadata_inner \<Rightarrow> keyspace_catalog_shard_id \<Rightarrow> metadata_node_id set" where
  "shard_file_roots m i =
    (case bt_get (mi_keyspace_catalog_shards m) i of None \<Rightarrow> {}
     | Some shard \<Rightarrow> (\<lambda>f. fh_root (kf_head f)) ` set (bt_values (cs_files shard)))"

lemma collect_shard_Inr:
  "collect_keyspace_shard_metadata_roots_locked m i = Inr rs \<Longrightarrow> set rs = shard_file_roots m i"
  by (auto simp: collect_keyspace_shard_metadata_roots_locked_def keyspace_catalog_shard_locked_def shard_file_roots_def
      andThen_Inr_iff ok_or_def split: option.splits)

lemma roots_for_gc_parts:
  assumes "roots_for_gc_locked m policy = Inr R"
  obtains files checkpoints commits where
    "mapR (collect_keyspace_shard_metadata_roots_locked m)
      (concat (map kh_shard_roots (bt_values (mi_keyspace_heads m)))) = Inr files"
    "mapR (checkpoint_gc_roots m policy) (bt_values (mi_checkpoints m)) = Inr checkpoints"
    "mapR (\<lambda>c. collect_keyspace_shard_metadata_roots_locked m (kc_new_shard c))
      (filter (retain_keyspace_commit_for_pitr_locked m policy) (mi_keyspace_commits m)) = Inr commits"
    "\<And>h. h \<in> set (bt_values (mi_device_heads m)) \<Longrightarrow> set (dh_shard_roots h) \<subseteq> set R"
    "\<And>ys. ys \<in> set files \<union> set checkpoints \<union> set commits \<Longrightarrow> set ys \<subseteq> set R"
    "\<And>c. c \<in> set (mi_shard_commits m) \<Longrightarrow> retain_shard_commit_for_pitr_locked m policy c \<Longrightarrow> sc_new_root c \<in> set R"
    "\<And>d h. (d, h) \<in> set (mi_deleted_device_heads m) \<Longrightarrow> retain_deleted_device_locked m policy d \<Longrightarrow> set (dh_shard_roots h) \<subseteq> set R"
  using assms unfolding roots_for_gc_locked_def Let_def andThen_Inr_iff
  by (elim exE conjE) (rule that, assumption, assumption, assumption, auto simp: case_prod_beta, fastforce+)

lemma roots_cover:
  assumes "roots_for_gc_locked m policy = Inr R" "devices_ok m" "checkpoints_ok m"
  shows roots_cover_head: "owner_has_head m policy (BlockDevice d) \<Longrightarrow> device_any_head m d = Some h \<Longrightarrow>
      set (dh_shard_roots h) \<subseteq> set R"
    and roots_cover_files: "bt_get (mi_keyspace_heads m) k = Some kh \<Longrightarrow> i \<in> set (kh_shard_roots kh) \<Longrightarrow>
      shard_file_roots m i \<subseteq> set R"
    and roots_cover_commit: "c \<in> set (mi_shard_commits m) \<Longrightarrow> retain_shard_commit_for_pitr_locked m policy c \<Longrightarrow>
      sc_new_root c \<in> set R"
    and roots_cover_file_commit: "kc \<in> set (mi_keyspace_commits m) \<Longrightarrow> retain_keyspace_commit_for_pitr_locked m policy kc \<Longrightarrow>
      shard_file_roots m (kc_new_shard kc) \<subseteq> set R"
proof -
  obtain files checkpoints commits where f:
    "mapR (collect_keyspace_shard_metadata_roots_locked m)
      (concat (map kh_shard_roots (bt_values (mi_keyspace_heads m)))) = Inr files"
    and "mapR (checkpoint_gc_roots m policy) (bt_values (mi_checkpoints m)) = Inr checkpoints"
    and cs: "mapR (\<lambda>c. collect_keyspace_shard_metadata_roots_locked m (kc_new_shard c))
      (filter (retain_keyspace_commit_for_pitr_locked m policy) (mi_keyspace_commits m)) = Inr commits"
    and heads: "\<And>h. h \<in> set (bt_values (mi_device_heads m)) \<Longrightarrow> set (dh_shard_roots h) \<subseteq> set R"
    and R: "\<And>ys. ys \<in> set files \<union> set checkpoints \<union> set commits \<Longrightarrow> set ys \<subseteq> set R"
    and kept: "\<And>c. c \<in> set (mi_shard_commits m) \<Longrightarrow> retain_shard_commit_for_pitr_locked m policy c \<Longrightarrow> sc_new_root c \<in> set R"
    and deleted: "\<And>d h. (d, h) \<in> set (mi_deleted_device_heads m) \<Longrightarrow> retain_deleted_device_locked m policy d \<Longrightarrow> set (dh_shard_roots h) \<subseteq> set R"
    by (rule roots_for_gc_parts [OF assms(1)]) (rule that)
  show "set (dh_shard_roots h) \<subseteq> set R" if "owner_has_head m policy (BlockDevice d)" "device_any_head m d = Some h"
  proof (cases "bt_get (mi_device_heads m) d")
    case (Some g)
    with that(2) have "h \<in> set (bt_values (mi_device_heads m))"
      by (auto simp: device_any_head_def dest: bt_get_value)
    then show ?thesis
      by (rule heads)
  next
    case None
    with that have "bt_get (mi_deleted_device_heads m) d = Some h" "retain_deleted_device_locked m policy d"
      by (simp_all add: device_any_head_def bt_has_iff)
    then show ?thesis
      by (intro deleted [of d h] bt_get_mem)
  qed
  show "sc_new_root c \<in> set R" if "c \<in> set (mi_shard_commits m)" "retain_shard_commit_for_pitr_locked m policy c"
    using that by (rule kept)
  show "shard_file_roots m i \<subseteq> set R" if "bt_get (mi_keyspace_heads m) k = Some kh" "i \<in> set (kh_shard_roots kh)"
  proof -
    have "i \<in> set (concat (map kh_shard_roots (bt_values (mi_keyspace_heads m))))"
      using that by (auto dest: bt_get_value)
    from mapR_member [OF f this] obtain y where "y \<in> set files" "set y = shard_file_roots m i"
      using collect_shard_Inr by blast
    then show ?thesis
      using R [of y] by blast
  qed
  show "shard_file_roots m (kc_new_shard kc) \<subseteq> set R"
    if "kc \<in> set (mi_keyspace_commits m)" "retain_keyspace_commit_for_pitr_locked m policy kc"
  proof -
    have "kc \<in> set (filter (retain_keyspace_commit_for_pitr_locked m policy) (mi_keyspace_commits m))"
      using that by simp
    from mapR_member [OF cs this] obtain y where "y \<in> set commits" "set y = shard_file_roots m (kc_new_shard kc)"
      using collect_shard_Inr by blast
    then show ?thesis
      using R [of y] by blast
  qed
qed

lemma roots_cover_checkpoint:
  assumes "roots_for_gc_locked m policy = Inr R" "bt_get (mi_checkpoints m) j = Some c"
    and "owner_has_retained_pitr_locked m policy (cp_owner c)" "retain_checkpoint_for_pitr_locked m policy c"
  shows "cp_owner c = BlockDevice d \<Longrightarrow> cp_roots c = CP_BlockShard rs \<Longrightarrow> set rs \<subseteq> set R"
    and "cp_owner c = NativeKeyspace k \<Longrightarrow> cp_roots c = CP_NativeKeyspace i \<Longrightarrow>
      bt_get (mi_keyspace_roots m) i = Some root \<Longrightarrow> l \<in> set (kr_shard_roots root) \<Longrightarrow> shard_file_roots m l \<subseteq> set R"
proof -
  obtain checkpoints where cs: "mapR (checkpoint_gc_roots m policy) (bt_values (mi_checkpoints m)) = Inr checkpoints"
    and R: "\<And>ys. ys \<in> set checkpoints \<Longrightarrow> set ys \<subseteq> set R"
    by (rule roots_for_gc_parts [OF assms(1)]) blast
  from mapR_member [OF cs bt_get_value [OF assms(2)]] obtain y where y: "y \<in> set checkpoints" "checkpoint_gc_roots m policy c = Inr y"
    by blast
  have sub: "set y \<subseteq> set R"
    by (rule R [OF y(1)])
  show "set rs \<subseteq> set R" if "cp_owner c = BlockDevice d" "cp_roots c = CP_BlockShard rs"
    using y(2) sub that assms(3,4) by (simp add: checkpoint_gc_roots_def checkpoint_block_roots_def)
  show "shard_file_roots m l \<subseteq> set R" if "cp_owner c = NativeKeyspace k" "cp_roots c = CP_NativeKeyspace i"
    "bt_get (mi_keyspace_roots m) i = Some root" "l \<in> set (kr_shard_roots root)"
  proof -
    from y(2) that assms(3,4) obtain rootss where
      rr: "mapR (collect_keyspace_shard_metadata_roots_locked m) (kr_shard_roots root) = Inr rootss" and "y = concat rootss"
      by (auto simp: checkpoint_gc_roots_def checkpoint_keyspace_root_def collect_keyspace_metadata_roots_locked_def
          keyspace_root_locked_def ok_or_def andThen_Inr_iff)
    with sub mapR_member [OF rr that(4)] collect_shard_Inr show ?thesis
      by fastforce
  qed
qed

end
