(* ===== verification/Metadata_Trim.thy ===== *)
theory Metadata_Trim
  imports Metadata_Sweep
begin

text \<open>
  Garbage collection keeps the metadata plane sound: what heads, retained checkpoints and retained
  commits refer to survives a sweep, and the history inside the retention window is still there.
\<close>

section \<open>Timelines after trimming\<close>

lemma swept_owner_checkpoints:
  assumes "devices_ok m" "checkpoints_ok m"
  shows "owner_checkpoints (swept policy cand m) o' = {c \<in> owner_checkpoints m o'.
    owner_has_retained_pitr_locked m policy o' \<and> retain_checkpoint_for_pitr_locked m policy c}"
  by (auto simp: owner_checkpoints_def swept_checkpoint [OF assms])

lemma swept_device_commits:
  assumes "devices_ok m"
  shows "shard_commits_for_device_locked (swept policy cand m) d =
    filter (\<lambda>c. owner_has_retained_pitr_locked m policy (BlockDevice d)
      \<and> (\<exists>a. retained_pitr_anchor_locked m policy (BlockDevice d) = Some a \<and> cp_commit_seq a < sc_commit_seq c))
    (shard_commits_for_device_locked m d)"
  unfolding shard_commits_for_device_locked_def swept_shard_commits [OF assms] filter_sort filter_filter
  by (intro arg_cong [where f = "sort_key _"] filter_cong) auto

lemma swept_keyspace_log:
  assumes "bt_ok (mi_keyspace_heads m)"
  shows "keyspace_commits_for_keyspace_locked (swept policy cand m) k =
    filter (\<lambda>c. owner_has_retained_pitr_locked m policy (NativeKeyspace k)
      \<and> (\<exists>a. retained_pitr_anchor_locked m policy (NativeKeyspace k) = Some a \<and> cp_commit_seq a < kc_commit_seq c))
    (keyspace_commits_for_keyspace_locked m k)"
  unfolding keyspace_commits_for_keyspace_locked_def swept_keyspace_commits [OF assms] filter_sort filter_filter
  by (intro arg_cong [where f = "sort_key _"] filter_cong) auto

text \<open>Every retained owner keeps an anchor no later than the floor.\<close>

lemma swept_anchor:
  assumes "plane_ok m" "anchors_in_place m policy" "rp_pitr_grace_commits policy \<noteq> 0" "owner_has_head m policy o'"
  obtains a floor where "retained_pitr_anchor_locked m policy o' = Some a" "a \<in> owner_checkpoints m o'"
    "pitr_retention_floor_locked m policy = Some floor" "cp_commit_seq a \<le> floor"
    "\<And>cand. a \<in> owner_checkpoints (swept policy cand m) o'"
proof -
  have ok: "devices_ok m" "checkpoints_ok m"
    using assms(1) by (simp_all add: plane_ok_def)
  obtain floor where f: "pitr_retention_floor_locked m policy = Some floor"
    using assms(3) floor_None [of m policy] by (cases "pitr_retention_floor_locked m policy") auto
  have "\<exists>c\<in>owner_checkpoints m o'. cp_commit_seq c \<le> floor"
    using assms(2,4) f by (cases o') (auto simp: anchors_in_place_def)
  then obtain a where a: "retained_pitr_anchor_locked m policy o' = Some a"
    using anchor_exists [OF ok(2) f] by blast
  have mem: "a \<in> owner_checkpoints m o'" "cp_commit_seq a \<le> floor"
    using anchor_Some [OF ok(2) a] f by auto
  have "owner_has_retained_pitr_locked m policy o'" "cp_owner a = o'"
    using assms(3,4) mem(1) by (simp_all add: owner_has_retained_pitr_locked_def owner_checkpoints_def)
  then have "a \<in> owner_checkpoints (swept policy cand m) o'" for cand
    using mem(1) a by (simp add: swept_owner_checkpoints [OF ok] retain_checkpoint_for_pitr_locked_def)
  with a mem f show ?thesis
    by (intro that)
qed

lemma swept_device_timeline:
  assumes "plane_ok m" "anchors_in_place m policy" "owner_has_head m policy (BlockDevice d)" "device_timeline m d lo H"
  shows "\<exists>lo'. device_timeline (swept policy cand m) d lo' H"
proof -
  have ok: "devices_ok m" "checkpoints_ok m"
    using assms(1) by (simp_all add: plane_ok_def)
  have head: "device_any_head (swept policy cand m) d = device_any_head m d"
    by (simp only: swept_any_head [OF ok(1)] assms(3) if_True)
  obtain h where h: "device_any_head m d = Some h"
    using owner_has_head_any [OF assms(3)] by blast
  note tl = assms(4) [unfolded device_timeline_def h option.map]
  show ?thesis
  proof (cases "rp_pitr_grace_commits policy = 0")
    case True
    then have no: "\<not> owner_has_retained_pitr_locked m policy o'" for o'
      by (simp add: owner_has_retained_pitr_locked_def)
    from dev.consistent_forget [OF tl] show ?thesis
      by (auto simp: device_timeline_def head h swept_heads swept_device_commits [OF ok(1)] swept_owner_checkpoints [OF ok] no)
  next
    case False
    obtain a where a: "retained_pitr_anchor_locked m policy (BlockDevice d) = Some a" "a \<in> owner_checkpoints m (BlockDevice d)"
      using swept_anchor [OF assms(1,2) False assms(3)] by blast
    have kept: "owner_has_retained_pitr_locked m policy (BlockDevice d)"
      using False assms(3) by (simp add: owner_has_retained_pitr_locked_def)
    have bounds: "lo \<le> cp_commit_seq a" "cp_commit_seq a \<le> dh_latest_commit h"
      using tl a(2) unfolding dev.consistent_def by auto
    have "device_timeline (swept policy cand m) d (cp_commit_seq a) H"
      unfolding device_timeline_def head h option.map swept_heads swept_device_commits [OF ok(1)]
    proof (rule dev.consistent_cut [OF tl bounds(1)])
      show "(\<lambda>c. (cp_commit_seq c, block_roots_of (cp_roots c))) ` owner_checkpoints (swept policy cand m) (BlockDevice d)
        \<subseteq> {(q, st) \<in> (\<lambda>c. (cp_commit_seq c, block_roots_of (cp_roots c))) ` owner_checkpoints m (BlockDevice d). cp_commit_seq a \<le> q}"
        using retained_checkpoint_not_before [OF ok(2) a(1)] by (auto simp: swept_owner_checkpoints [OF ok])
    qed (use bounds kept a(1) in auto)
    then show ?thesis
      by blast
  qed
qed

lemma swept_keyspace_timeline:
  assumes "plane_ok m" "anchors_in_place m policy" "bt_has (mi_keyspace_heads m) k" "keyspace_timeline m k lo H"
  shows "\<exists>lo'. keyspace_timeline (swept policy cand m) k lo' H"
proof -
  have ok: "devices_ok m" "checkpoints_ok m" "bt_ok (mi_keyspace_heads m)"
    using assms(1) by (simp_all add: plane_ok_def keyspaces_ok_def)
  obtain h where h: "bt_get (mi_keyspace_heads m) k = Some h"
    using assms(3) by (auto simp: bt_has_iff)
  note tl = assms(4) [unfolded keyspace_timeline_def h option.map]
  show ?thesis
  proof (cases "rp_pitr_grace_commits policy = 0")
    case True
    then have no: "\<not> owner_has_retained_pitr_locked m policy o'" for o'
      by (simp add: owner_has_retained_pitr_locked_def)
    from ks.consistent_forget [OF tl] show ?thesis
      by (auto simp: keyspace_timeline_def h swept_heads swept_keyspace_log [OF ok(3)] swept_owner_checkpoints [OF ok(1,2)] no)
  next
    case False
    have own: "owner_has_head m policy (NativeKeyspace k)"
      using assms(3) by simp
    obtain a where a: "retained_pitr_anchor_locked m policy (NativeKeyspace k) = Some a" "a \<in> owner_checkpoints m (NativeKeyspace k)"
      using swept_anchor [OF assms(1,2) False own] by blast
    have kept: "owner_has_retained_pitr_locked m policy (NativeKeyspace k)"
      using False own by (simp add: owner_has_retained_pitr_locked_def)
    have bounds: "lo \<le> cp_commit_seq a" "cp_commit_seq a \<le> kh_latest_commit h"
      using tl a(2) unfolding ks.consistent_def by auto
    have "keyspace_timeline (swept policy cand m) k (cp_commit_seq a) H"
      unfolding keyspace_timeline_def swept_heads h option.map swept_keyspace_log [OF ok(3)]
    proof (rule ks.consistent_cut [OF tl bounds(1)])
      show "(\<lambda>c. (cp_commit_seq c, keyspace_state_of (mi_keyspace_roots m) (cp_roots c))) ` owner_checkpoints (swept policy cand m) (NativeKeyspace k)
        \<subseteq> {(q, st) \<in> (\<lambda>c. (cp_commit_seq c, keyspace_state_of (mi_keyspace_roots m) (cp_roots c))) ` owner_checkpoints m (NativeKeyspace k). cp_commit_seq a \<le> q}"
        using retained_checkpoint_not_before [OF ok(2) a(1)] by (auto simp: swept_owner_checkpoints [OF ok(1,2)])
    qed (use bounds kept a(1) in auto)
    then show ?thesis
      by blast
  qed
qed

section \<open>Nothing referenced is removed\<close>

lemma swept_node: "bt_get (mi_metadata_nodes (swept policy cand m)) i = (if i \<in> set cand then None else bt_get (mi_metadata_nodes m) i)"
  by (simp add: swept_heads bt_get_retain_key)

definition covered :: "metadata_inner \<Rightarrow> retention_policy \<Rightarrow> metadata_node_id list \<Rightarrow> bool" where
  "covered m policy cand \<longleftrightarrow>
    (\<exists>R. roots_for_gc_locked m policy = Inr R \<and> (\<forall>r\<in>set R. node_present m r \<and> r \<notin> set cand))"

lemma covered_present: "r \<in> set R \<Longrightarrow> \<forall>r\<in>set R. node_present m r \<and> r \<notin> set cand \<Longrightarrow> node_present (swept policy cand m) r"
  by (simp add: bt_has_iff swept_node)

lemma covered_shard:
  "shard_present m i \<Longrightarrow> shard_file_roots m i \<subseteq> set R \<Longrightarrow> \<forall>r\<in>set R. node_present m r \<and> r \<notin> set cand \<Longrightarrow>
    shard_present (swept policy cand m) i"
  by (fastforce simp: shard_present_def shard_file_roots_def swept_heads bt_has_iff bt_get_retain_key)

lemma swept_devices_ok:
  assumes "plane_ok m" "anchors_in_place m policy" "covered m policy cand"
  shows "devices_ok (swept policy cand m)"
proof -
  let ?m = "swept policy cand m"
  have ok: "devices_ok m" "checkpoints_ok m"
    using assms(1) by (simp_all add: plane_ok_def)
  obtain R where R: "roots_for_gc_locked m policy = Inr R" and cov: "\<forall>r\<in>set R. node_present m r \<and> r \<notin> set cand"
    using assms(3) by (auto simp: covered_def)
  note heads = ok(1) [unfolded devices_ok_def]
  show ?thesis
    unfolding devices_ok_def
  proof (intro conjI allI ballI impI)
    show "bt_ok (mi_device_heads ?m)"
      using heads by (simp add: swept_heads)
    show "bt_ok (mi_deleted_device_heads ?m)"
      using heads by (simp add: swept_def trim_history_def Let_def) (simp add: remove_nodes_def bt_ok_retain)
    show "\<not> bt_has (mi_deleted_device_heads ?m) d" if "bt_has (mi_device_heads ?m) d" for d
      using heads that by (simp add: swept_heads bt_has_iff swept_deleted)
  next
    fix d h
    assume h: "device_any_head ?m d = Some h"
    then have own: "owner_has_head m policy (BlockDevice d)" and h0: "device_any_head m d = Some h"
      by (auto simp: swept_any_head [OF ok(1)] simp del: owner_has_head.simps split: if_splits)
    have alive: "d \<notin> expired_devices_locked m policy"
      using own heads by (auto simp: expired_iff)
    note old = heads [THEN conjunct2, THEN conjunct2, THEN conjunct2, THEN conjunct1, rule_format, OF h0]
    show "d < mi_next_device_id ?m" "dh_generation h < mi_next_commit_seq ?m"
      using old by (simp_all add: swept_heads)
    show "bt_has (mi_device_specs ?m) d"
      using old alive by (simp add: bt_has_iff swept_deleted)
    show "node_present ?m r" if "r \<in> set (dh_shard_roots h)" for r
      using roots_cover_head [OF R ok own h0] that cov by (intro covered_present [of r R]) auto
    show "\<exists>lo H. device_timeline ?m d lo H"
      using old swept_device_timeline [OF assms(1,2) own] by blast
  next
    fix c
    assume c: "c \<in> set (mi_shard_commits ?m)"
    then obtain a where c0: "c \<in> set (mi_shard_commits m)" "owner_has_retained_pitr_locked m policy (BlockDevice (sc_device_id c))"
      "retained_pitr_anchor_locked m policy (BlockDevice (sc_device_id c)) = Some a" "cp_commit_seq a < sc_commit_seq c"
      by (auto simp: swept_shard_commits [OF ok(1)])
    then have "retain_shard_commit_for_pitr_locked m policy c"
      by (simp add: retain_shard_commit_for_pitr_locked_def)
    with roots_cover_commit [OF R ok c0(1)] cov show "node_present ?m (sc_new_root c)"
      by (intro covered_present [of _ R]) auto
    have own: "owner_has_head m policy (BlockDevice (sc_device_id c))"
      using c0(2) by (simp add: owner_has_retained_pitr_locked_def split: if_splits)
    then show "device_any_head ?m (sc_device_id c) \<noteq> None"
      using heads c0(1) by (simp add: swept_any_head [OF ok(1)] del: owner_has_head.simps)
  qed
qed

lemma swept_keyspaces_ok:
  assumes "plane_ok m" "anchors_in_place m policy" "covered m policy cand"
  shows "keyspaces_ok (swept policy cand m)"
proof -
  let ?m = "swept policy cand m"
  have ok: "devices_ok m" "checkpoints_ok m" "keyspaces_ok m"
    using assms(1) by (simp_all add: plane_ok_def)
  obtain R where R: "roots_for_gc_locked m policy = Inr R" and cov: "\<forall>r\<in>set R. node_present m r \<and> r \<notin> set cand"
    using assms(3) by (auto simp: covered_def)
  note heads = ok(3) [unfolded keyspaces_ok_def]
  have bok: "bt_ok (mi_keyspace_heads m)"
    using heads by blast
  show ?thesis
    unfolding keyspaces_ok_def
  proof (intro conjI allI ballI impI)
    show "bt_ok (mi_keyspace_heads ?m)"
      using heads by (simp add: swept_heads)
  next
    fix k h
    assume "bt_get (mi_keyspace_heads ?m) k = Some h"
    then have h: "bt_get (mi_keyspace_heads m) k = Some h"
      by (simp add: swept_heads)
    note old = heads [THEN conjunct2, THEN conjunct1, rule_format, OF h]
    show "k < mi_next_keyspace_id ?m" "kh_generation h < mi_next_commit_seq ?m"
      using old by (simp_all add: swept_heads)
    show "catalog_present ?m (kh_shard_roots h)"
      using old roots_cover_files [OF R ok(1,2) h] covered_shard [OF _ _ cov] by (auto simp: catalog_present_def)
    show "\<exists>lo H. keyspace_timeline ?m k lo H"
      using old h swept_keyspace_timeline [OF assms(1,2), of k] by (fastforce simp: bt_has_iff)
  next
    fix c
    assume c: "c \<in> set (mi_keyspace_commits ?m)"
    then obtain a where c0: "c \<in> set (mi_keyspace_commits m)" "owner_has_retained_pitr_locked m policy (NativeKeyspace (kc_keyspace_id c))"
      "retained_pitr_anchor_locked m policy (NativeKeyspace (kc_keyspace_id c)) = Some a" "cp_commit_seq a < kc_commit_seq c"
      by (auto simp: swept_keyspace_commits [OF bok])
    then have "retain_keyspace_commit_for_pitr_locked m policy c"
      by (simp add: retain_keyspace_commit_for_pitr_locked_def)
    with roots_cover_file_commit [OF R ok(1,2) c0(1)] heads c0(1) show "shard_present ?m (kc_new_shard c)"
      by (intro covered_shard [OF _ _ cov]) auto
    show "bt_has (mi_keyspace_heads ?m) (kc_keyspace_id c)"
      using heads c0(1) by (simp add: swept_heads)
  qed
qed

lemma swept_checkpoints_ok:
  assumes "plane_ok m" "covered m policy cand"
  shows "checkpoints_ok (swept policy cand m)"
proof -
  let ?m = "swept policy cand m"
  have ok: "devices_ok m" "checkpoints_ok m"
    using assms(1) by (simp_all add: plane_ok_def)
  obtain R where R: "roots_for_gc_locked m policy = Inr R" and cov: "\<forall>r\<in>set R. node_present m r \<and> r \<notin> set cand"
    using assms(2) by (auto simp: covered_def)
  have bok: "bt_ok (mi_checkpoints ?m)"
    using ok(2) by (simp add: checkpoints_ok_def swept_def trim_history_def Let_def) (simp add: remove_nodes_def bt_ok_retain)
  show ?thesis
    unfolding checkpoints_ok_def
  proof (intro conjI allI impI bok)
    fix i c
    assume "bt_get (mi_checkpoints ?m) i = Some c"
    then have c: "bt_get (mi_checkpoints m) i = Some c" and kept: "owner_has_retained_pitr_locked m policy (cp_owner c)"
      "retain_checkpoint_for_pitr_locked m policy c"
      by (simp_all add: swept_checkpoint [OF ok])
    have old: "i < mi_next_checkpoint_id m" "cp_checkpoint_id c = i" "cp_time c = cp_commit_seq c" "checkpoint_present m c"
      using ok(2) c by (simp_all add: checkpoints_ok_def)
    then show "i < mi_next_checkpoint_id ?m" "cp_checkpoint_id c = i" "cp_time c = cp_commit_seq c"
      by (simp_all add: swept_heads)
    note cover = roots_cover_checkpoint [OF R c kept]
    show "checkpoint_present ?m c"
    proof (cases "cp_owner c")
      case (BlockDevice d)
      then obtain rs where rs: "cp_roots c = CP_BlockShard rs" "device_any_head m d \<noteq> None"
        using old(4) by (auto simp: checkpoint_present_def)
      have "owner_has_head m policy (BlockDevice d)"
        using kept(1) BlockDevice by (simp add: owner_has_retained_pitr_locked_def split: if_splits)
      then show ?thesis
        using cover(1) [OF BlockDevice rs(1)] rs BlockDevice covered_present [OF _ cov]
        by (auto simp: checkpoint_present_def swept_any_head [OF ok(1)] simp del: owner_has_head.simps)
    next
      case (NativeKeyspace k)
      then obtain j root where rs: "cp_roots c = CP_NativeKeyspace j" "bt_get (mi_keyspace_roots m) j = Some root"
        "catalog_present m (kr_shard_roots root)" "bt_has (mi_keyspace_heads m) k"
        using old(4) by (auto simp: checkpoint_present_def)
      have "catalog_present ?m (kr_shard_roots root)"
        using rs(3) cover(2) [OF NativeKeyspace rs(1,2)] covered_shard [OF _ _ cov] by (auto simp: catalog_present_def)
      with rs NativeKeyspace show ?thesis
        by (auto simp: checkpoint_present_def swept_heads)
    qed
  qed
qed

lemma swept_plane_ok:
  assumes "plane_ok m" "anchors_in_place m policy" "covered m policy cand"
  shows "plane_ok (swept policy cand m)"
proof -
  have "objects_ok (swept policy cand m)"
    using assms(1) by (auto simp: plane_ok_def objects_ok_def swept_heads bt_has_iff bt_get_retain_key split: if_splits)
  then show ?thesis
    using assms swept_devices_ok swept_keyspaces_ok swept_checkpoints_ok by (simp add: plane_ok_def swept_heads)
qed

end
