(* ===== verification/Metadata_History.thy ===== *)
theory Metadata_History
  imports Metadata_Trim
begin

text \<open>
  Runs of the metadata plane: any sequence of its operations, garbage collection included, keeps
  the plane sound, and what the retention window covers can be restored at any later time.
\<close>

section \<open>Marking and sweeping\<close>

lemma mark_keeps:
  assumes "plane_ok m" "mark_reachable_for_gc policy m = (res, m')"
  shows "keeps m m'"
proof -
  obtain r1 m1 where r1: "ensure_pitr_anchor_checkpoints_locked policy m = (r1, m1)"
    by fastforce
  have k1: "keeps m m1"
    using ensure_anchors_ok [OF assms(1) r1] by (simp add: anchored_def)
  have "same_core m1 m'"
    using assms(2)
    by (auto simp: mark_reachable_for_gc_def seqM_def [of "ensure_pitr_anchor_checkpoints_locked _"] r1 seqM_steps
        alloc_gc_epoch_def seqM_alloc same_core_def split: sum.splits if_splits)
  then show ?thesis
    by (rule keeps_core [OF k1])
qed

lemma roots_keeps:
  assumes "plane_ok m" "roots_for_gc policy m = (res, m')"
  shows "keeps m m'"
proof -
  obtain r1 m1 where r1: "ensure_pitr_anchor_checkpoints_locked policy m = (r1, m1)"
    by fastforce
  have "keeps m m1"
    using ensure_anchors_ok [OF assms(1) r1] by (simp add: anchored_def)
  with assms(2) show ?thesis
    by (auto simp: roots_for_gc_def seqM_def r1 split: sum.splits)
qed

text \<open>
  A sweep either stops before it removes anything, or it removes nodes no root reaches and trims
  the history, in a state with all anchors in place.
\<close>

lemma sweep_cases [consumes 2, case_names stopped done_]:
  assumes "plane_ok m" "sweep_unmarked_after_mark policy epoch m = (res, m')"
  obtains (stopped) e where "res = Inl e" "anchored m m'"
  | (done_) report x R V S cand where "res = Inr report" "anchored m x" "anchors_in_place x policy"
    "roots_for_gc_locked x policy = Inr R" "collect_reachable_locked x R = Inr (V, S)" "set cand \<inter> V = {}"
    "set (sr_deleted_metadata_nodes report) = set cand" "set (sr_released_segments report) \<inter> S = {}"
    "set (sr_released_segments report) \<subseteq> collect_all_segments_locked x"
    "m' = swept policy cand x"
proof -
  obtain r1 x where r1: "ensure_pitr_anchor_checkpoints_locked policy m = (r1, x)"
    by fastforce
  have a: "anchored m x" "r1 = Inr u \<Longrightarrow> anchors_in_place x policy" for u
    using ensure_anchors_ok [OF assms(1) r1] by auto
  let ?guard = "epoch = 0 \<or> mi_next_gc_epoch m \<le> epoch"
  let ?cand = "\<lambda>V. filter (\<lambda>i. bt_get (mi_metadata_last_mark_epoch x) i \<noteq> Some epoch \<and> i \<notin> V) (bt_keys (mi_metadata_nodes x))"
  let ?free = "\<lambda>V S. filter (\<lambda>s. bt_get (mi_segment_last_mark_epoch (remove_nodes (?cand V) x)) s \<noteq> Some epoch \<and> s \<notin> S)
    (sorted_list_of_set (collect_all_segments_locked x))"
  show ?thesis
  proof (cases "\<not> ?guard \<and> (\<exists>u R V S. r1 = Inr u \<and> roots_for_gc_locked x policy = Inr R \<and> collect_reachable_locked x R = Inr (V, S))")
    case True
    then obtain u R V S where r: "epoch \<noteq> 0" "\<not> mi_next_gc_epoch m \<le> epoch" "r1 = Inr u" "roots_for_gc_locked x policy = Inr R"
      "collect_reachable_locked x R = Inr (V, S)"
      by auto
    let ?report = "\<lparr>sr_epoch = epoch, sr_deleted_metadata_nodes = sort (?cand V),
      sr_released_segments = remdups_adj (sort (?free V S))\<rparr>"
    have run: "(res, m') = (Inr ?report, swept policy (?cand V) x)"
      using assms(2) [symmetric] r
      by (simp add: sweep_unmarked_after_mark_def seqM_def [of "ensure_pitr_anchor_checkpoints_locked _"] r1 seqM_steps
          swept_def ensure_def)
    have fin: "finite (collect_all_segments_locked x)"
      by (auto simp: collect_all_segments_locked_def collect_node_segments_def split: metadata_node_kind.splits)
    show ?thesis
      by (rule done_ [of ?report x R V S "?cand V"]) (use run a r fin in auto)
  next
    case False
    with assms(2) a(1) anchored_refl [OF assms(1)] have "(\<exists>e. res = Inl e) \<and> anchored m m'"
      by (auto simp: sweep_unmarked_after_mark_def seqM_def [of "ensure_pitr_anchor_checkpoints_locked _"] r1 seqM_steps
          ensure_def split: if_splits sum.splits)
    then show ?thesis
      using stopped by blast
  qed
qed

lemma sweep_covered:
  assumes "roots_for_gc_locked x policy = Inr R" "collect_reachable_locked x R = Inr (V, S)" "set cand \<inter> V = {}"
  shows "covered x policy cand"
proof -
  have "set R \<subseteq> V"
    using collect_reachable_Inr(1) [OF assms(2)] by (auto intro: reach.root)
  then show ?thesis
    using collect_reachable_Inr(2) [OF assms(2)] assms(1,3) by (auto simp: covered_def)
qed

lemma sweep_plane_ok:
  assumes "plane_ok m" "sweep_unmarked_after_mark policy epoch m = (res, m')"
  shows "plane_ok m'"
  using assms
proof (cases rule: sweep_cases)
  case (stopped e)
  then show ?thesis
    by (simp add: anchored_def keeps_def)
next
  case (done_ report x R V S cand)
  have "plane_ok x"
    using done_(2) by (simp add: anchored_def keeps_def)
  from swept_plane_ok [OF this done_(3) sweep_covered [OF done_(4-6)]] show ?thesis
    by (simp add: done_)
qed

section \<open>Requests and runs\<close>

datatype plane_request =
  Create_Device device_spec
| Create_Keyspace
| Create_File metadata_create_file_request
| Allocate_Node block_range metadata_node_kind
| Persist_Node metadata_node_write
| Publish commit_group_intent
| Fork_Device metadata_fork_request
| Restore_Device device_id restore_point
| Snapshot_Keyspace metadata_snapshot_keyspace_request
| Restore_Keyspace keyspace_id restore_point
| Delete_Device device_id
| Checkpoint_Device device_id
| Checkpoint_Keyspace keyspace_id
| Gc_Roots retention_policy
| Gc_Mark retention_policy
| Gc_Sweep retention_policy nat

primrec perform :: "local_store_config \<Rightarrow> plane_request \<Rightarrow> metadata_inner \<Rightarrow> metadata_inner" where
  "perform cfg (Create_Device spec) m = snd (create_device cfg spec m)"
| "perform cfg Create_Keyspace m = snd (create_keyspace cfg m)"
| "perform cfg (Create_File request) m = snd (create_file cfg request m)"
| "perform cfg (Allocate_Node cr kind) m = snd (allocate_metadata_node cr kind m)"
| "perform cfg (Persist_Node write) m = snd (persist_metadata_node write m)"
| "perform cfg (Publish intent) m = snd (publish_commit_group cfg intent m)"
| "perform cfg (Fork_Device request) m = snd (fork_device cfg request m)"
| "perform cfg (Restore_Device source point) m = snd (restore_device cfg source point m)"
| "perform cfg (Snapshot_Keyspace request) m = snd (snapshot_keyspace request m)"
| "perform cfg (Restore_Keyspace source point) m = snd (restore_keyspace source point m)"
| "perform cfg (Delete_Device d) m = snd (delete_device d m)"
| "perform cfg (Checkpoint_Device d) m = snd (checkpoint_device d m)"
| "perform cfg (Checkpoint_Keyspace k) m = snd (checkpoint_keyspace k m)"
| "perform cfg (Gc_Roots policy) m = snd (roots_for_gc policy m)"
| "perform cfg (Gc_Mark policy) m = snd (mark_reachable_for_gc policy m)"
| "perform cfg (Gc_Sweep policy epoch) m = snd (sweep_unmarked_after_mark policy epoch m)"

text \<open>Nodes are persisted under identifiers the plane has handed out.\<close>

definition admissible :: "plane_request \<Rightarrow> metadata_inner \<Rightarrow> bool" where
  "admissible request m =
    (case request of Persist_Node write \<Rightarrow> mn_node_id (mw_node write) < mi_next_metadata_node_id m | _ \<Rightarrow> True)"

inductive plane_reachable :: "local_store_config \<Rightarrow> metadata_inner \<Rightarrow> bool" for cfg where
  initial: "plane_reachable cfg metadata_new"
| request: "plane_reachable cfg m \<Longrightarrow> admissible r m \<Longrightarrow> plane_reachable cfg (perform cfg r m)"

lemma perform_keeps:
  assumes "plane_ok m" "admissible r m" "\<nexists>policy epoch. r = Gc_Sweep policy epoch"
  shows "keeps m (perform cfg r m)"
proof -
  note run = prod.collapse [symmetric]
  have "keeps m (snd (persist_metadata_node w m))" if "r = Persist_Node w" for w
    using assms(2) that by (intro persist_node_keeps [OF assms(1) _ run]) (simp add: admissible_def)
  then show ?thesis
    using assms(3)
    by (cases r) (simp_all add: create_device_keeps [OF assms(1) run]
      create_keyspace_keeps [OF assms(1) run]
      create_file_keeps [OF assms(1) run]
      allocate_node_keeps [OF assms(1) run]
      publish_keeps [OF assms(1) run]
      fork_device_keeps [OF assms(1) run]
      restore_device_keeps [OF assms(1) run]
      snapshot_keyspace_keeps [OF assms(1) run]
      restore_keyspace_keeps [OF assms(1) run]
      delete_device_keeps [OF assms(1) run]
      checkpoint_device_keeps [OF assms(1) run]
      checkpoint_keyspace_keeps [OF assms(1) run]
      roots_keeps [OF assms(1) run]
      mark_keeps [OF assms(1) run])
qed

lemma perform_ok:
  assumes "plane_ok m" "admissible r m"
  shows "plane_ok (perform cfg r m)"
proof (cases "\<exists>policy epoch. r = Gc_Sweep policy epoch")
  case True
  then show ?thesis
    using sweep_plane_ok [OF assms(1) prod.collapse [symmetric]] by auto
next
  case False
  then show ?thesis
    using perform_keeps [OF assms] by (simp add: keeps_def)
qed

lemma reachable_ok: "plane_reachable cfg m \<Longrightarrow> plane_ok m"
  by (induction rule: plane_reachable.induct) (simp_all add: plane_ok_new perform_ok)

primrec run_plane :: "local_store_config \<Rightarrow> plane_request list \<Rightarrow> metadata_inner \<Rightarrow> metadata_inner" where
  "run_plane cfg [] m = m"
| "run_plane cfg (r # rs) m = run_plane cfg rs (perform cfg r m)"

text \<open>A predicate of every request and the state it meets.\<close>

primrec every_step :: "local_store_config \<Rightarrow> (plane_request \<Rightarrow> metadata_inner \<Rightarrow> bool) \<Rightarrow> plane_request list
    \<Rightarrow> metadata_inner \<Rightarrow> bool" where
  "every_step cfg P [] m \<longleftrightarrow> True"
| "every_step cfg P (r # rs) m \<longleftrightarrow> P r m \<and> every_step cfg P rs (perform cfg r m)"

text \<open>The request leaves sequence number \<open>s\<close> of the owner inside the retention window.\<close>

definition retains :: "mapping_owner \<Rightarrow> commit_seq \<Rightarrow> plane_request \<Rightarrow> metadata_inner \<Rightarrow> bool" where
  "retains owner s request m =
    (case request of
      Gc_Sweep policy epoch \<Rightarrow> owner_has_retained_pitr_locked m policy owner \<and> retain_pitr_commit_locked m policy s
    | _ \<Rightarrow> True)"

end
