(* ===== verification/Metadata_Travel.thy ===== *)
theory Metadata_Travel
  imports Metadata_History
begin

text \<open>
  Time travel.  A past state of a device or a keyspace that can be restored now can be restored,
  bit for bit, after any further requests whose sweeps keep it inside their retention window.
\<close>

section \<open>Trees that stay what they are\<close>

text \<open>Every node of the trees below \<open>roots\<close> is the same in both states.\<close>

definition intact :: "metadata_inner \<Rightarrow> metadata_node_id set \<Rightarrow> metadata_inner \<Rightarrow> bool" where
  "intact m roots m' \<longleftrightarrow>
    (\<forall>i\<in>reach (mi_metadata_nodes m) roots. bt_get (mi_metadata_nodes m') i = bt_get (mi_metadata_nodes m) i)"

definition complete :: "metadata_inner \<Rightarrow> metadata_node_id set \<Rightarrow> bool" where
  "complete m roots \<longleftrightarrow> (\<forall>i\<in>reach (mi_metadata_nodes m) roots. node_present m i)"

lemma child_ids_cong: "bt_get nodes i = bt_get nodes' i \<Longrightarrow> child_ids nodes i = child_ids nodes' i"
  by (simp add: child_ids_def)

lemma intact_reach:
  assumes "intact m roots m'"
  shows "reach (mi_metadata_nodes m) roots \<subseteq> reach (mi_metadata_nodes m') roots"
proof
  fix i
  assume "i \<in> reach (mi_metadata_nodes m) roots"
  then show "i \<in> reach (mi_metadata_nodes m') roots"
  proof (induction rule: reach.induct)
    case (root r)
    then show ?case
      by (rule reach.root)
  next
    case (child i c)
    then have "child_ids (mi_metadata_nodes m) i = child_ids (mi_metadata_nodes m') i"
      using assms by (intro child_ids_cong) (simp add: intact_def)
    with child show ?case
      by (auto intro: reach.child)
  qed
qed

lemma intact_grows: "intact m roots m' \<Longrightarrow> complete m roots \<Longrightarrow> objects_grow m' m'' \<Longrightarrow> intact m roots m''"
  by (fastforce simp: intact_def complete_def objects_grow_def bt_has_iff)

lemma intact_swept:
  assumes "intact m roots x" "roots \<subseteq> set R" "collect_reachable_locked x R = Inr (V, S)" "set cand \<inter> V = {}"
  shows "intact m roots (swept policy cand x)"
  unfolding intact_def
proof
  fix i
  assume i: "i \<in> reach (mi_metadata_nodes m) roots"
  have "reach (mi_metadata_nodes m) roots \<subseteq> V"
    using intact_reach [OF assms(1)] reach_mono [OF assms(2), of "mi_metadata_nodes x"] collect_reachable_Inr(1) [OF assms(3)]
    by blast
  with i assms(4) have "i \<notin> set cand"
    by blast
  then show "bt_get (mi_metadata_nodes (swept policy cand x)) i = bt_get (mi_metadata_nodes m) i"
    using i assms(1) by (simp add: swept_node intact_def)
qed

text \<open>What replay finds in a swept state is below the roots the sweep started from.\<close>

lemma swept_device_covered:
  assumes "plane_ok x" "roots_for_gc_locked x policy = Inr R"
    and "replay_device_roots_locked (swept policy cand x) d s ex = Inr roots" "bt_ok (mi_checkpoints (swept policy cand x))"
  shows "set roots \<subseteq> set R"
proof
  fix r
  assume r: "r \<in> set roots"
  let ?m = "swept policy cand x"
  have ok: "devices_ok x" "checkpoints_ok x"
    using assms(1) by (simp_all add: plane_ok_def)
  obtain c base where c: "latest_device_checkpoint_at_or_before_locked ?m d s ex = Some c"
    and base: "checkpoint_block_roots c = Inr base"
    and fold: "foldR replay_shard_commit base (filter (\<lambda>x. cp_commit_seq c < sc_commit_seq x \<and> sc_commit_seq x \<le> s)
      (shard_commits_for_device_locked ?m d)) = Inr roots"
    using assms(3) unfolding replay_device_roots_locked_def by auto
  have "c \<in> owner_checkpoints ?m (BlockDevice d)"
    using latest_device_checkpoint [OF assms(4) c] by simp
  then obtain j where j: "bt_get (mi_checkpoints x) j = Some c" "owner_has_retained_pitr_locked x policy (cp_owner c)"
    "retain_checkpoint_for_pitr_locked x policy c" "cp_owner c = BlockDevice d"
    by (auto simp: owner_checkpoints_def swept_checkpoint [OF ok])
  have "set base \<subseteq> set R"
    using roots_cover_checkpoint(1) [OF assms(2) j(1-3)] base j(4)
    by (cases "cp_roots c") (auto simp: checkpoint_block_roots_def)
  moreover have "sc_new_root e \<in> set R" if "e \<in> set (shard_commits_for_device_locked ?m d)" for e
  proof -
    from that have e: "e \<in> set (mi_shard_commits x)" "retain_shard_commit_for_pitr_locked x policy e"
      by (auto simp: shard_commits_for_device_locked_def swept_shard_commits [OF ok(1)] retain_shard_commit_for_pitr_locked_def)
    then show ?thesis
      by (rule roots_cover_commit [OF assms(2) ok])
  qed
  ultimately show "r \<in> set R"
    using shard_log.fold_slots [OF fold r] by auto
qed

section \<open>Devices\<close>

definition device_tracked :: "metadata_inner \<Rightarrow> device_id \<Rightarrow> commit_seq \<Rightarrow> metadata_node_id list \<Rightarrow> bool" where
  "device_tracked m d s roots \<longleftrightarrow>
    plane_ok m \<and> device_any_head m d \<noteq> None \<and> device_timeline_contains_commit_locked m d s \<and> s < mi_next_commit_seq m
    \<and> (\<exists>c\<in>owner_checkpoints m (BlockDevice d). cp_commit_seq c \<le> s) \<and> (\<exists>lo H. device_timeline m d lo H \<and> H s = roots)"

lemma device_contains_iff:
  assumes "bt_ok (mi_checkpoints m)"
  shows "device_timeline_contains_commit_locked m d s \<longleftrightarrow>
    (\<exists>c\<in>owner_checkpoints m (BlockDevice d). cp_commit_seq c = s) \<or> (\<exists>c\<in>set (mi_shard_commits m). sc_device_id c = d \<and> sc_commit_seq c = s)"
  using assms by (force simp: device_timeline_contains_commit_locked_def list_ex_iff owner_checkpoints_def bt_values_def bt_get_iff_mem)

lemma tracked_replay:
  assumes "device_tracked m d s roots"
  shows "replay_device_roots_locked m d s None = Inr roots"
proof -
  have ok: "bt_ok (mi_checkpoints m)"
    using assms by (simp add: device_tracked_def plane_ok_def checkpoints_ok_def)
  obtain lo H c where H: "device_timeline m d lo H" "H s = roots" and c: "c \<in> owner_checkpoints m (BlockDevice d)" "cp_commit_seq c \<le> s"
    using assms by (auto simp: device_tracked_def)
  then obtain c' where "latest_device_checkpoint_at_or_before_locked m d s None = Some c'"
    using latest_device_checkpoint_None [OF ok, of d s] by fastforce
  from replay_device [OF ok H(1) this] H(2) show ?thesis
    by simp
qed

lemma replay_tracked:
  assumes "plane_ok m" "device_timeline_contains_commit_locked m d s" "replay_device_roots_locked m d s None = Inr roots"
  shows "device_tracked m d s roots"
proof -
  have ok: "bt_ok (mi_checkpoints m)" "devices_ok m" "checkpoints_ok m"
    using assms(1) by (simp_all add: plane_ok_def checkpoints_ok_def)
  obtain c where c: "latest_device_checkpoint_at_or_before_locked m d s None = Some c"
    using assms(3) unfolding replay_device_roots_locked_def by auto
  have mem: "c \<in> owner_checkpoints m (BlockDevice d)" "cp_commit_seq c \<le> s"
    using latest_device_checkpoint [OF ok(1) c] by simp_all
  then have "checkpoint_present m c" "cp_owner c = BlockDevice d"
    using ok(3) by (auto simp: owner_checkpoints_def checkpoints_ok_def)
  then have alive: "device_any_head m d \<noteq> None"
    by (simp add: checkpoint_present_def)
  then obtain lo H where H: "device_timeline m d lo H"
    using ok(2) unfolding devices_ok_def by blast
  have "H s = roots"
    using replay_device [OF ok(1) H c] assms(3) by simp
  moreover have "s < mi_next_commit_seq m"
    using assms(2) H unfolding device_contains_iff [OF ok(1)] device_timeline_def dev.consistent_def
    by (auto simp: shard_commits_for_device_locked_def)
  ultimately show ?thesis
    using assms(1,2) alive mem H unfolding device_tracked_def by blast
qed

lemma tracked_keeps:
  assumes "device_tracked m d s roots" "keeps m m'"
  shows "device_tracked m' d s roots"
proof -
  have ok: "plane_ok m'" "bt_ok (mi_checkpoints m')" "bt_ok (mi_checkpoints m)"
    using assms by (simp_all add: keeps_def plane_ok_def checkpoints_ok_def device_tracked_def)
  have g: "records_grow m m'" "history_kept m m'" "mi_next_commit_seq m \<le> mi_next_commit_seq m'"
    using assms(2) by (simp_all add: keeps_def grows_def counters_grow_def)
  have cps: "owner_checkpoints m o' \<subseteq> owner_checkpoints m' o'" for o'
    using g(1) by (auto simp: owner_checkpoints_def records_grow_def)
  obtain lo H where H: "device_timeline m d lo H" "H s = roots"
    using assms(1) by (auto simp: device_tracked_def)
  have old: "device_any_head m d \<noteq> None" "s < mi_next_commit_seq m"
    using assms(1) by (simp_all add: device_tracked_def)
  obtain H' where "device_timeline m' d lo H'" "H' s = roots"
    using g(2) old H unfolding history_kept_def by blast
  moreover have "device_any_head m' d \<noteq> None" "s < mi_next_commit_seq m'"
    using g old by (auto simp: records_grow_def)
  moreover have "device_timeline_contains_commit_locked m' d s"
    using assms(1) cps g(1) unfolding device_tracked_def device_contains_iff [OF ok(2)] device_contains_iff [OF ok(3)] records_grow_def
    by blast
  moreover have "\<exists>c\<in>owner_checkpoints m' (BlockDevice d). cp_commit_seq c \<le> s"
    using assms(1) cps unfolding device_tracked_def by blast
  ultimately show ?thesis
    using ok(1) unfolding device_tracked_def by blast
qed

lemma window_not_before:
  "retain_pitr_commit_locked m policy s \<Longrightarrow> pitr_retention_floor_locked m policy = Some floor \<Longrightarrow> floor \<le> s"
  by (auto simp: retain_pitr_commit_locked_def pitr_retention_floor_locked_def saturating_sub_def split: if_splits)

lemma tracked_swept:
  assumes "device_tracked x d s roots" "anchors_in_place x policy" "plane_ok (swept policy cand x)"
    and "owner_has_retained_pitr_locked x policy (BlockDevice d)" "retain_pitr_commit_locked x policy s"
  shows "device_tracked (swept policy cand x) d s roots"
proof -
  let ?m = "swept policy cand x"
  have ok: "plane_ok x" "devices_ok x" "checkpoints_ok x" "bt_ok (mi_checkpoints x)" "bt_ok (mi_checkpoints ?m)"
    using assms(1,3) by (simp_all add: device_tracked_def plane_ok_def checkpoints_ok_def)
  have own: "owner_has_head x policy (BlockDevice d)" and grace: "rp_pitr_grace_commits policy \<noteq> 0"
    using assms(4) by (simp_all add: owner_has_retained_pitr_locked_def split: if_splits)
  obtain a floor where a: "retained_pitr_anchor_locked x policy (BlockDevice d) = Some a"
    "pitr_retention_floor_locked x policy = Some floor" "cp_commit_seq a \<le> floor" "a \<in> owner_checkpoints ?m (BlockDevice d)"
    using swept_anchor [OF ok(1) assms(2) grace own] by metis
  have le: "cp_commit_seq a \<le> s"
    using window_not_before [OF assms(5) a(2)] a(3) by simp
  obtain lo H where H: "device_timeline x d lo H" "H s = roots"
    using assms(1) by (auto simp: device_tracked_def)
  obtain lo' where "device_timeline ?m d lo' H"
    using swept_device_timeline [OF ok(1) assms(2) own H(1)] by blast
  moreover have "device_any_head ?m d \<noteq> None"
    using assms(1) own by (simp add: swept_any_head [OF ok(2)] device_tracked_def del: owner_has_head.simps)
  moreover have "device_timeline_contains_commit_locked ?m d s"
  proof -
    consider c where "c \<in> owner_checkpoints x (BlockDevice d)" "cp_commit_seq c = s"
      | c where "c \<in> set (mi_shard_commits x)" "sc_device_id c = d" "sc_commit_seq c = s"
      using assms(1) unfolding device_tracked_def device_contains_iff [OF ok(4)] by blast
    then show ?thesis
    proof cases
      case 1
      then show ?thesis
        using assms(4,5) unfolding device_contains_iff [OF ok(5)] swept_owner_checkpoints [OF ok(2,3)]
        by (auto simp: retain_checkpoint_for_pitr_locked_def)
    next
      case 2
      show ?thesis
      proof (cases "cp_commit_seq a = s")
        case True
        with a(4) show ?thesis
          unfolding device_contains_iff [OF ok(5)] by blast
      next
        case False
        with le 2 a(1) assms(4) have "c \<in> set (mi_shard_commits ?m)"
          by (simp add: swept_shard_commits [OF ok(2)])
        with 2 show ?thesis
          unfolding device_contains_iff [OF ok(5)] by blast
      qed
    qed
  qed
  moreover have "s < mi_next_commit_seq ?m"
    using assms(1) by (simp add: device_tracked_def swept_heads)
  ultimately show ?thesis
    using assms(3) a(4) le H(2) unfolding device_tracked_def by blast
qed

lemma anchored_window:
  assumes "anchored m x"
  shows "owner_has_retained_pitr_locked x policy = owner_has_retained_pitr_locked m policy"
    "retain_pitr_commit_locked x policy = retain_pitr_commit_locked m policy"
  using assms anchored_same(2) [OF assms, of policy]
  by (simp_all add: fun_eq_iff owner_has_retained_pitr_locked_def retain_pitr_commit_locked_def current_commit_seq_locked_def
      anchored_def)

lemma device_step:
  assumes "device_tracked m d s roots" "intact m0 (set roots) m" "complete m0 (set roots)"
    and "admissible r m" "retains (BlockDevice d) s r m"
  shows "device_tracked (perform cfg r m) d s roots \<and> intact m0 (set roots) (perform cfg r m)"
proof (cases "\<exists>policy epoch. r = Gc_Sweep policy epoch")
  case False
  have "plane_ok m"
    using assms(1) by (simp add: device_tracked_def)
  from perform_keeps [OF this assms(4) False] show ?thesis
    using tracked_keeps [OF assms(1)] intact_grows [OF assms(2,3)] by (auto simp: keeps_def grows_def)
next
  case True
  then obtain policy epoch where r: "r = Gc_Sweep policy epoch"
    by blast
  obtain res m' where run: "sweep_unmarked_after_mark policy epoch m = (res, m')"
    by fastforce
  have ok: "plane_ok m"
    using assms(1) by (simp add: device_tracked_def)
  from sweep_plane_ok [OF ok run] have ok': "plane_ok m'" .
  have kept: "owner_has_retained_pitr_locked m policy (BlockDevice d)" "retain_pitr_commit_locked m policy s"
    using assms(5) by (simp_all add: retains_def r)
  have same: "device_tracked x d s roots \<and> intact m0 (set roots) x" if "anchored m x" for x
    using that tracked_keeps [OF assms(1)] intact_grows [OF assms(2,3)] by (auto simp: anchored_def keeps_def grows_def)
  from ok run have "device_tracked m' d s roots \<and> intact m0 (set roots) m'"
  proof (cases rule: sweep_cases)
    case (stopped e)
    from same [OF this(2)] show ?thesis .
  next
    case (done_ report x R V S cand)
    have okx: "plane_ok x"
      using done_(2) by (simp add: anchored_def keeps_def)
    have t: "device_tracked m' d s roots"
      unfolding done_(10)
      by (rule tracked_swept) (use same [OF done_(2)] done_(3) ok' [unfolded done_(10)] kept anchored_window [OF done_(2)] in simp_all)
    have "set roots \<subseteq> set R"
      using swept_device_covered [OF okx done_(4), of cand] tracked_replay [OF t] ok'
      by (simp add: done_(10) plane_ok_def checkpoints_ok_def)
    from intact_swept [OF _ this done_(5,6)] same [OF done_(2)] t show ?thesis
      by (simp add: done_(10))
  qed
  then show ?thesis
    by (simp add: r run)
qed

lemma device_run:
  "device_tracked m d s roots \<Longrightarrow> intact m0 (set roots) m \<Longrightarrow> complete m0 (set roots) \<Longrightarrow>
    every_step cfg admissible rs m \<Longrightarrow> every_step cfg (retains (BlockDevice d) s) rs m \<Longrightarrow>
    device_tracked (run_plane cfg rs m) d s roots \<and> intact m0 (set roots) (run_plane cfg rs m)"
  by (induction rs arbitrary: m) (use device_step in auto)

text \<open>A tracked state can be restored as long as there are identifiers left.\<close>

definition ids_left :: "metadata_inner \<Rightarrow> bool" where
  "ids_left m \<longleftrightarrow> mi_next_device_id m + 1 < u128_limit \<and> mi_next_commit_seq m + 1 < u64_limit
    \<and> mi_next_checkpoint_id m + 1 < u128_limit"

lemma tracked_restore:
  assumes "device_tracked m d s roots" "ids_left m" "length roots = cfg_shard_count cfg" "roots \<noteq> []"
  shows "\<exists>head m'. restore_device cfg d (At_Commit s) m = (Inr head, m') \<and> dh_shard_roots head = roots
    \<and> dh_device_id head = mi_next_device_id m \<and> bt_get (mi_device_heads m') (mi_next_device_id m) = Some head"
proof -
  have ok: "plane_ok m" "device_any_head m d \<noteq> None" "device_timeline_contains_commit_locked m d s"
    using assms(1) by (simp_all add: device_tracked_def)
  obtain spec where spec: "bt_get (mi_device_specs m) d = Some spec"
    using ok(1,2) unfolding plane_ok_def devices_ok_def bt_has_iff by blast
  note replay = tracked_replay [OF assms(1)]
  have present: "forR (\<lambda>root. ensure (node_present m root) (not_found K_metadata_node)) roots = Inr ()"
    using replayed_device_present [OF ok(1) replay] by simp
  have valid: "validate_device_head h (cfg_shard_count cfg) = Inr ()" if "dh_shard_roots h = roots" for h
    using assms(3) that length_greater_0_conv [THEN iffD2, OF assms(4)] by (simp add: validate_device_head_def ensure_def)
  have target: "target_commit_for_restore_locked m d (At_Commit s) = Inr s"
    using ok(3) by (simp add: ensure_def)
  show ?thesis
    using assms(2)
    by (simp add: restore_device_def seqM_steps spec ok_or_def target replay present alloc_device_id_def seqM_alloc
        install_device_run Let_def valid fresh_head_def insert_checkpoint_run ids_left_def with_checkpoint_def add_device_def
        del: target_commit_for_restore_locked.simps)
qed

end
