(* ===== verification/Metadata_Travel_Files.thy ===== *)
theory Metadata_Travel_Files
  imports Metadata_Travel
begin

text \<open>Time travel for keyspaces: the catalog shards of a past state and the trees of its files.\<close>

definition file_roots :: "metadata_inner \<Rightarrow> keyspace_catalog_shard_id list \<Rightarrow> metadata_node_id set" where
  "file_roots m shards = (\<Union>i\<in>set shards. shard_file_roots m i)"

definition shards_kept :: "metadata_inner \<Rightarrow> keyspace_catalog_shard_id list \<Rightarrow> metadata_inner \<Rightarrow> bool" where
  "shards_kept m shards m' \<longleftrightarrow>
    (\<forall>i\<in>set shards. bt_get (mi_keyspace_catalog_shards m') i = bt_get (mi_keyspace_catalog_shards m) i)"

lemma shards_kept_roots: "shards_kept m shards m' \<Longrightarrow> file_roots m' shards = file_roots m shards"
  by (simp add: shards_kept_def file_roots_def shard_file_roots_def)

lemma shards_kept_grows:
  "shards_kept m shards m' \<Longrightarrow> catalog_present m shards \<Longrightarrow> objects_grow m' m'' \<Longrightarrow> shards_kept m shards m''"
  by (fastforce simp: shards_kept_def catalog_present_def shard_present_def objects_grow_def)

lemma swept_keyspace_covered:
  assumes "plane_ok x" "roots_for_gc_locked x policy = Inr R"
    and "replay_keyspace_root_locked (swept policy cand x) k s ex = Inr root" "bt_ok (mi_checkpoints (swept policy cand x))"
  shows "file_roots x (kr_shard_roots root) \<subseteq> set R"
proof -
  let ?m = "swept policy cand x"
  have ok: "devices_ok x" "checkpoints_ok x" "bt_ok (mi_keyspace_heads x)"
    using assms(1) by (simp_all add: plane_ok_def keyspaces_ok_def)
  obtain c i base st where c: "latest_keyspace_checkpoint_at_or_before_locked ?m k s ex = Some c"
    and i: "checkpoint_keyspace_root c = Inr i" "keyspace_root_locked ?m i = Inr base"
    and st: "foldR replay_keyspace_commit (kr_shard_roots base, kr_file_count base)
      (filter (\<lambda>x. cp_commit_seq c < kc_commit_seq x \<and> kc_commit_seq x \<le> s) (keyspace_commits_for_keyspace_locked ?m k)) = Inr st"
    and root: "kr_shard_roots root = fst st"
    using assms(3) unfolding replay_keyspace_root_locked_def by auto
  have "c \<in> owner_checkpoints ?m (NativeKeyspace k)"
    using latest_keyspace_checkpoint [OF assms(4) c] by simp
  then obtain j where j: "bt_get (mi_checkpoints x) j = Some c" "owner_has_retained_pitr_locked x policy (cp_owner c)"
    "retain_checkpoint_for_pitr_locked x policy c" "cp_owner c = NativeKeyspace k"
    by (auto simp: owner_checkpoints_def swept_checkpoint [OF ok(1,2)])
  have "cp_roots c = CP_NativeKeyspace i" "bt_get (mi_keyspace_roots x) i = Some base"
    using i by (cases "cp_roots c"; simp add: checkpoint_keyspace_root_def keyspace_root_locked_def swept_heads)+
  from roots_cover_checkpoint(2) [OF assms(2) j(1-3,4) this]
  have base: "\<forall>l\<in>set (kr_shard_roots base). shard_file_roots x l \<subseteq> set R"
    by blast
  have "\<forall>l\<in>set (fst st). shard_file_roots x l \<subseteq> set R"
  proof (rule foldR_invariant [OF st, where P = "\<lambda>st. \<forall>l\<in>set (fst st). shard_file_roots x l \<subseteq> set R"])
    fix a e b
    assume a: "\<forall>l\<in>set (fst a). shard_file_roots x l \<subseteq> set R" and b: "replay_keyspace_commit a e = Inr b"
      and "e \<in> set (filter (\<lambda>x. cp_commit_seq c < kc_commit_seq x \<and> kc_commit_seq x \<le> s)
        (keyspace_commits_for_keyspace_locked ?m k))"
    then have "e \<in> set (mi_keyspace_commits x)" "retain_keyspace_commit_for_pitr_locked x policy e"
      by (auto simp: keyspace_commits_for_keyspace_locked_def swept_keyspace_commits [OF ok(3)] retain_keyspace_commit_for_pitr_locked_def)
    then have "shard_file_roots x (kc_new_shard e) \<subseteq> set R"
      by (rule roots_cover_file_commit [OF assms(2) ok(1,2)])
    with a b set_update_subset_insert [of "fst a" "kc_shard_index e" "kc_new_shard e"]
    show "\<forall>l\<in>set (fst b). shard_file_roots x l \<subseteq> set R"
      by (auto simp: replay_keyspace_commit_def dest!: subsetD)
  qed (simp add: base)
  then show ?thesis
    by (auto simp: root file_roots_def)
qed

definition keyspace_tracked ::
  "metadata_inner \<Rightarrow> keyspace_id \<Rightarrow> commit_seq \<Rightarrow> keyspace_catalog_shard_id list \<times> nat \<Rightarrow> bool" where
  "keyspace_tracked m k s st \<longleftrightarrow>
    plane_ok m \<and> bt_has (mi_keyspace_heads m) k \<and> keyspace_timeline_contains_commit_locked m k s \<and> s < mi_next_commit_seq m
    \<and> (\<exists>c\<in>owner_checkpoints m (NativeKeyspace k). cp_commit_seq c \<le> s) \<and> (\<exists>lo H. keyspace_timeline m k lo H \<and> H s = st)"

lemma keyspace_contains_iff:
  assumes "bt_ok (mi_checkpoints m)"
  shows "keyspace_timeline_contains_commit_locked m k s \<longleftrightarrow>
    (\<exists>c\<in>owner_checkpoints m (NativeKeyspace k). cp_commit_seq c = s) \<or> (\<exists>c\<in>set (mi_keyspace_commits m). kc_keyspace_id c = k \<and> kc_commit_seq c = s)"
  using assms by (force simp: keyspace_timeline_contains_commit_locked_def list_ex_iff owner_checkpoints_def bt_values_def bt_get_iff_mem)

lemma keyspace_tracked_replay:
  assumes "keyspace_tracked m k s st"
  shows "\<exists>i. replay_keyspace_root_locked m k s None = Inr \<lparr>kr_root_id = i, kr_shard_roots = fst st, kr_file_count = snd st\<rparr>"
proof -
  have ok: "bt_ok (mi_checkpoints m)"
    using assms by (simp add: keyspace_tracked_def plane_ok_def checkpoints_ok_def)
  obtain lo H c where H: "keyspace_timeline m k lo H" "H s = st" and c: "c \<in> owner_checkpoints m (NativeKeyspace k)" "cp_commit_seq c \<le> s"
    using assms by (auto simp: keyspace_tracked_def)
  then obtain c' where "latest_keyspace_checkpoint_at_or_before_locked m k s None = Some c'"
    using latest_keyspace_checkpoint_None [OF ok, of k s] by fastforce
  from replay_keyspace [OF ok H(1) this] H(2) show ?thesis
    by simp
qed

lemma replay_keyspace_tracked:
  assumes "plane_ok m" "keyspace_timeline_contains_commit_locked m k s" "replay_keyspace_root_locked m k s None = Inr root"
  shows "keyspace_tracked m k s (kr_shard_roots root, kr_file_count root)"
proof -
  have ok: "bt_ok (mi_checkpoints m)" "keyspaces_ok m" "checkpoints_ok m"
    using assms(1) by (simp_all add: plane_ok_def checkpoints_ok_def)
  obtain c where c: "latest_keyspace_checkpoint_at_or_before_locked m k s None = Some c"
    using assms(3) unfolding replay_keyspace_root_locked_def by auto
  have mem: "c \<in> owner_checkpoints m (NativeKeyspace k)" "cp_commit_seq c \<le> s"
    using latest_keyspace_checkpoint [OF ok(1) c] by simp_all
  then have "checkpoint_present m c" "cp_owner c = NativeKeyspace k"
    using ok(3) by (auto simp: owner_checkpoints_def checkpoints_ok_def)
  then have alive: "bt_has (mi_keyspace_heads m) k"
    by (simp add: checkpoint_present_def)
  then obtain lo H where H: "keyspace_timeline m k lo H"
    using ok(2) unfolding keyspaces_ok_def bt_has_iff by blast
  have "H s = (kr_shard_roots root, kr_file_count root)"
    using replay_keyspace [OF ok(1) H c] assms(3) by (auto simp: prod_eq_iff)
  moreover have "s < mi_next_commit_seq m"
    using assms(2) H unfolding keyspace_contains_iff [OF ok(1)] keyspace_timeline_def ks.consistent_def
    by (auto simp: keyspace_commits_for_keyspace_locked_def)
  ultimately show ?thesis
    using assms(1,2) alive mem H unfolding keyspace_tracked_def by blast
qed

lemma keyspace_tracked_keeps:
  assumes "keyspace_tracked m k s st" "keeps m m'"
  shows "keyspace_tracked m' k s st"
proof -
  have ok: "plane_ok m'" "bt_ok (mi_checkpoints m')" "bt_ok (mi_checkpoints m)"
    using assms by (simp_all add: keeps_def plane_ok_def checkpoints_ok_def keyspace_tracked_def)
  have g: "records_grow m m'" "history_kept m m'" "mi_next_commit_seq m \<le> mi_next_commit_seq m'"
    using assms(2) by (simp_all add: keeps_def grows_def counters_grow_def)
  have cps: "owner_checkpoints m o' \<subseteq> owner_checkpoints m' o'" for o'
    using g(1) by (auto simp: owner_checkpoints_def records_grow_def)
  obtain lo H where H: "keyspace_timeline m k lo H" "H s = st"
    using assms(1) by (auto simp: keyspace_tracked_def)
  have old: "bt_has (mi_keyspace_heads m) k" "s < mi_next_commit_seq m"
    using assms(1) by (simp_all add: keyspace_tracked_def)
  obtain H' where "keyspace_timeline m' k lo H'" "H' s = st"
    using g(2) old H unfolding history_kept_def by blast
  moreover have "bt_has (mi_keyspace_heads m') k" "s < mi_next_commit_seq m'"
    using g old by (auto simp: records_grow_def)
  moreover have "keyspace_timeline_contains_commit_locked m' k s"
    using assms(1) cps g(1) unfolding keyspace_tracked_def keyspace_contains_iff [OF ok(2)] keyspace_contains_iff [OF ok(3)] records_grow_def
    by blast
  moreover have "\<exists>c\<in>owner_checkpoints m' (NativeKeyspace k). cp_commit_seq c \<le> s"
    using assms(1) cps unfolding keyspace_tracked_def by blast
  ultimately show ?thesis
    using ok(1) unfolding keyspace_tracked_def by blast
qed

lemma keyspace_tracked_swept:
  assumes "keyspace_tracked x k s st" "anchors_in_place x policy" "plane_ok (swept policy cand x)"
    and "owner_has_retained_pitr_locked x policy (NativeKeyspace k)" "retain_pitr_commit_locked x policy s"
  shows "keyspace_tracked (swept policy cand x) k s st"
proof -
  let ?m = "swept policy cand x"
  have ok: "plane_ok x" "devices_ok x" "checkpoints_ok x" "bt_ok (mi_checkpoints x)" "bt_ok (mi_checkpoints ?m)"
    "bt_ok (mi_keyspace_heads x)"
    using assms(1,3) by (simp_all add: keyspace_tracked_def plane_ok_def checkpoints_ok_def keyspaces_ok_def)
  have own: "owner_has_head x policy (NativeKeyspace k)" and grace: "rp_pitr_grace_commits policy \<noteq> 0"
    using assms(4) by (simp_all add: owner_has_retained_pitr_locked_def split: if_splits)
  obtain a floor where a: "retained_pitr_anchor_locked x policy (NativeKeyspace k) = Some a"
    "pitr_retention_floor_locked x policy = Some floor" "cp_commit_seq a \<le> floor" "a \<in> owner_checkpoints ?m (NativeKeyspace k)"
    using swept_anchor [OF ok(1) assms(2) grace own] by metis
  have le: "cp_commit_seq a \<le> s"
    using window_not_before [OF assms(5) a(2)] a(3) by simp
  obtain lo H where H: "keyspace_timeline x k lo H" "H s = st"
    using assms(1) by (auto simp: keyspace_tracked_def)
  have head: "bt_has (mi_keyspace_heads x) k"
    using own by simp
  obtain lo' where "keyspace_timeline ?m k lo' H"
    using swept_keyspace_timeline [OF ok(1) assms(2) head H(1)] by blast
  moreover have "keyspace_timeline_contains_commit_locked ?m k s"
  proof -
    consider c where "c \<in> owner_checkpoints x (NativeKeyspace k)" "cp_commit_seq c = s"
      | c where "c \<in> set (mi_keyspace_commits x)" "kc_keyspace_id c = k" "kc_commit_seq c = s"
      using assms(1) unfolding keyspace_tracked_def keyspace_contains_iff [OF ok(4)] by blast
    then show ?thesis
    proof cases
      case 1
      then show ?thesis
        using assms(4,5) unfolding keyspace_contains_iff [OF ok(5)] swept_owner_checkpoints [OF ok(2,3)]
        by (auto simp: retain_checkpoint_for_pitr_locked_def)
    next
      case 2
      show ?thesis
      proof (cases "cp_commit_seq a = s")
        case True
        with a(4) show ?thesis
          unfolding keyspace_contains_iff [OF ok(5)] by blast
      next
        case False
        with le 2 a(1) assms(4) have "c \<in> set (mi_keyspace_commits ?m)"
          by (simp add: swept_keyspace_commits [OF ok(6)])
        with 2 show ?thesis
          unfolding keyspace_contains_iff [OF ok(5)] by blast
      qed
    qed
  qed
  moreover have "s < mi_next_commit_seq ?m" "bt_has (mi_keyspace_heads ?m) k"
    using assms(1) head by (simp_all add: keyspace_tracked_def swept_heads)
  ultimately show ?thesis
    using assms(3) a(4) le H(2) unfolding keyspace_tracked_def by blast
qed

lemma keyspace_step:
  assumes "keyspace_tracked m k s st" "intact m0 (file_roots m0 (fst st)) m" "shards_kept m0 (fst st) m"
    and "complete m0 (file_roots m0 (fst st))" "catalog_present m0 (fst st)"
    and "admissible r m" "retains (NativeKeyspace k) s r m"
  shows "keyspace_tracked (perform cfg r m) k s st \<and> intact m0 (file_roots m0 (fst st)) (perform cfg r m)
    \<and> shards_kept m0 (fst st) (perform cfg r m)"
proof (cases "\<exists>policy epoch. r = Gc_Sweep policy epoch")
  case False
  have "plane_ok m"
    using assms(1) by (simp add: keyspace_tracked_def)
  from perform_keeps [OF this assms(6) False] show ?thesis
    using keyspace_tracked_keeps [OF assms(1)] intact_grows [OF assms(2,4)] shards_kept_grows [OF assms(3,5)]
    by (auto simp: keeps_def grows_def)
next
  case True
  then obtain policy epoch where r: "r = Gc_Sweep policy epoch"
    by blast
  obtain res m' where run: "sweep_unmarked_after_mark policy epoch m = (res, m')"
    by fastforce
  have ok: "plane_ok m"
    using assms(1) by (simp add: keyspace_tracked_def)
  from sweep_plane_ok [OF ok run] have ok': "plane_ok m'" .
  have kept: "owner_has_retained_pitr_locked m policy (NativeKeyspace k)" "retain_pitr_commit_locked m policy s"
    using assms(7) by (simp_all add: retains_def r)
  have same: "keyspace_tracked x k s st \<and> intact m0 (file_roots m0 (fst st)) x \<and> shards_kept m0 (fst st) x" if "anchored m x" for x
    using that keyspace_tracked_keeps [OF assms(1)] intact_grows [OF assms(2,4)] shards_kept_grows [OF assms(3,5)]
    by (auto simp: anchored_def keeps_def grows_def)
  from ok run have "keyspace_tracked m' k s st \<and> intact m0 (file_roots m0 (fst st)) m' \<and> shards_kept m0 (fst st) m'"
  proof (cases rule: sweep_cases)
    case (stopped e)
    from same [OF this(2)] show ?thesis .
  next
    case (done_ report x R V S cand)
    have okx: "plane_ok x"
      using done_(2) by (simp add: anchored_def keeps_def)
    have t: "keyspace_tracked m' k s st"
      unfolding done_(10)
      by (rule keyspace_tracked_swept) (use same [OF done_(2)] done_(3) ok' [unfolded done_(10)] kept anchored_window [OF done_(2)] in simp_all)
    obtain i where "replay_keyspace_root_locked m' k s None = Inr \<lparr>kr_root_id = i, kr_shard_roots = fst st, kr_file_count = snd st\<rparr>"
      using keyspace_tracked_replay [OF t] by blast
    from swept_keyspace_covered [OF okx done_(4) this [unfolded done_(10)]] ok'
    have "file_roots x (fst st) \<subseteq> set R"
      by (simp add: done_(10) plane_ok_def checkpoints_ok_def)
    then have "file_roots m0 (fst st) \<subseteq> set R"
      using shards_kept_roots same [OF done_(2)] by blast
    from intact_swept [OF _ this done_(5,6)] same [OF done_(2)] t show ?thesis
      by (simp add: done_(10) shards_kept_def swept_heads)
  qed
  then show ?thesis
    by (simp add: r run)
qed

lemma keyspace_run:
  "keyspace_tracked m k s st \<Longrightarrow> intact m0 (file_roots m0 (fst st)) m \<Longrightarrow> shards_kept m0 (fst st) m \<Longrightarrow>
    complete m0 (file_roots m0 (fst st)) \<Longrightarrow> catalog_present m0 (fst st) \<Longrightarrow>
    every_step cfg admissible rs m \<Longrightarrow> every_step cfg (retains (NativeKeyspace k) s) rs m \<Longrightarrow>
    keyspace_tracked (run_plane cfg rs m) k s st \<and> intact m0 (file_roots m0 (fst st)) (run_plane cfg rs m)
    \<and> shards_kept m0 (fst st) (run_plane cfg rs m)"
  by (induction rs arbitrary: m) (use keyspace_step in auto)

end
