(* ===== verification/Metadata_Samples.thy ===== *)
theory Metadata_Samples
  imports Metadata_History
begin

text \<open>
  A small metadata plane, run step by step: one device of eight blocks, a publish, a mark and a
  sweep; and one keyspace.  The states are written out, so that the theorems about runs can be
  applied to them.
\<close>

section \<open>Evaluation\<close>

lemma seqM_assoc: "seqM (seqM a b) c m = seqM a (\<lambda>x. seqM (b x) c) m"
  by (simp add: seqM_def split: sum.splits prod.splits)

lemma seqM_returnM: "seqM (returnM x) f m = f x m"
  by (simp add: run_defs)

lemma run_done: "returnM x m = (Inr x, m)" "modM f m = (Inr (), f m)" "liftM r m = (r, m)" "askM g m = (g m, m)"
  by (simp_all add: run_defs split: sum.splits)

lemmas plane_eval = seqM_steps seqM_alloc seqM_assoc seqM_returnM run_done ensure_def ok_or_def Let_def alloc_defs
  u64_limit_def u128_limit_def checked_mul_u64_def checked_add_u64_def metadata_new_def saturating_sub_def bt_has_iff
  bt_values_def bt_keys_def bt_retain_def

lemmas gc_eval = ensure_pitr_anchor_checkpoints_locked_def forM_def ensure_block_anchor_def checkpoint_exists_locked_def
  block_pitr_anchor_targets_locked_def keyspace_pitr_anchor_targets_locked_def pitr_retention_floor_locked_def
  with_pitr_grace_commits_def retain_deleted_devices_def current_commit_seq_locked_def
  roots_for_gc_locked_def checkpoint_gc_roots_def owner_has_retained_pitr_locked_def retain_checkpoint_for_pitr_locked_def
  retain_pitr_commit_locked_def checkpoint_block_roots_def retain_shard_commit_for_pitr_locked_def
  retained_pitr_anchor_locked_def latest_checkpoint_at_or_before_floor_locked_def collect_reachable_locked_def
  collect_all_segments_locked_def collect_node_segments_def trim_history_def remove_nodes_def
  expired_devices_locked_def retained_checkpoint_ids_locked_def retained_shard_commit_cutoffs_locked_def
  retained_keyspace_commit_cutoffs_locked_def retained_cutoffs_def max_by_key_def

lemma seq_small_tree:
  assumes "0 < range_blocks r" "range_blocks r \<le> cfg_metadata_leaf_blocks cfg" "range_start r + range_blocks r < u64_limit"
    and "mi_next_metadata_node_id m + 1 < u128_limit"
  shows "seqM (create_empty_tree cfg r) f m =
    (let i = mi_next_metadata_node_id m; node = \<lparr>mn_node_id = i, mn_covered_range = r, mn_kind = Leaf [] []\<rparr> in
     f node (m\<lparr>mi_next_metadata_node_id := i + 1, mi_metadata_nodes := bt_insert i node (mi_metadata_nodes m)\<rparr>))"
proof -
  have v: "validate_non_empty r = Inr ()"
    using assms by (simp add: validate_non_empty_def end_exclusive_def is_empty_def checked_add_u64_def ensure_def ok_or_def)
  have n: "validate_node \<lparr>mn_node_id = i, mn_covered_range = r, mn_kind = Leaf [] []\<rparr> [] = Inr ()" for i
    by (simp add: validate_node_def v validate_leaf_entries_def validate_run_backed_file_extents_def)
  show ?thesis
    using assms(2,4)
    by (simp add: create_empty_tree_def seqM_steps seqM_assoc v insert_new_node_def alloc_metadata_node_id_def seqM_alloc
        Let_def n seqM_returnM)
qed

lemma seq_checkpoint:
  "mi_next_checkpoint_id m + 1 < u128_limit \<Longrightarrow>
    seqM (insert_checkpoint o' q roots) f m = f (mi_next_checkpoint_id m) (with_checkpoint o' q roots m)"
  by (simp add: seqM_def insert_checkpoint_run)

section \<open>A device\<close>

definition sample_spec :: device_spec where
  "sample_spec = \<lparr>logical_blocks = 8, block_size = 4096\<rparr>"

definition sample_head :: "nat \<Rightarrow> device_head" where
  "sample_head n = \<lparr>dh_device_id = 1, dh_generation = n, dh_shard_roots = [1], dh_latest_commit = n\<rparr>"

definition sample_plane :: metadata_inner where
  "sample_plane = metadata_new\<lparr>
    mi_next_device_id := 2, mi_next_metadata_node_id := 2, mi_next_checkpoint_id := 2,
    mi_device_heads := [(1, sample_head 0)], mi_device_specs := [(1, sample_spec)],
    mi_metadata_nodes := [(1, \<lparr>mn_node_id = 1, mn_covered_range = \<lparr>range_start = 0, range_blocks = 8\<rparr>, mn_kind = Leaf [] []\<rparr>)],
    mi_checkpoints := [(1, \<lparr>cp_checkpoint_id = 1, cp_commit_seq = 0, cp_time = 0, cp_owner = BlockDevice 1,
      cp_roots = CP_BlockShard [1]\<rparr>)]\<rparr>"

lemma sample_created: "perform default_config (Create_Device sample_spec) metadata_new = sample_plane"
  by (simp add: sample_plane_def create_device_def sample_spec_def sample_head_def default_config_def plane_eval
    validate_config_def validate_spec_def create_shard_root_def seq_small_tree is_power_of_two.simps seq_checkpoint
    mk_range_def with_checkpoint_def new_checkpoint_def validate_device_head_def)

lemma sample_reachable: "plane_reachable default_config sample_plane"
  using plane_reachable.request [OF plane_reachable.initial, of "Create_Device sample_spec" default_config]
  by (simp add: sample_created admissible_def del: perform.simps)

definition sample_update :: root_update where
  "sample_update = BlockShard \<lparr>su_shard_id = 0, su_old_root = 1, su_new_root = 1\<rparr>"

definition sample_publish :: plane_request where
  "sample_publish = Publish \<lparr>ci_owner = BlockDevice 1, ci_fence = DeviceGeneration 0, ci_updates = [sample_update]\<rparr>"

definition sample_published :: metadata_inner where
  "sample_published = sample_plane\<lparr>
    mi_next_commit_seq := 2, mi_next_commit_group_id := 2, mi_device_heads := [(1, sample_head 1)],
    mi_shard_commits := [\<lparr>sc_commit_seq = 1, sc_commit_group = 1, sc_time = 1, sc_device_id = 1, sc_shard_id = 0,
      sc_old_root = 1, sc_new_root = 1\<rparr>],
    mi_commit_groups := [(1, \<lparr>cg_commit_group = 1, cg_commit_seq = 1, cg_owner = BlockDevice 1, cg_updates = [sample_update]\<rparr>)]\<rparr>"

lemma sample_publish_run: "perform default_config sample_publish sample_plane = sample_published"
  by (simp add: sample_published_def sample_plane_def sample_publish_def sample_update_def sample_head_def publish_commit_group_def
      publish_block_commit_def get_head_def plane_eval publish_block_step_def next_generation_def)

definition sample_policy :: retention_policy where
  "sample_policy = with_pitr_grace_commits retain_deleted_devices 8"

definition sample_marked :: metadata_inner where
  "sample_marked = sample_published\<lparr>mi_next_gc_epoch := 2, mi_metadata_last_mark_epoch := [(1, 1)]\<rparr>"

lemma sample_mark_run: "perform default_config (Gc_Mark sample_policy) sample_published = sample_marked"
  by (simp add: sample_marked_def sample_published_def sample_plane_def sample_head_def sample_policy_def
      mark_reachable_for_gc_def plane_eval gc_eval)

lemma sample_sweep_run: "sweep_unmarked_after_mark sample_policy 1 sample_marked =
    (Inr \<lparr>sr_epoch = 1, sr_deleted_metadata_nodes = [], sr_released_segments = []\<rparr>, sample_marked)"
  by (simp add: sample_marked_def sample_published_def sample_plane_def sample_head_def sample_policy_def
      sweep_unmarked_after_mark_def plane_eval gc_eval)

definition sample_requests :: "plane_request list" where
  "sample_requests = [sample_publish, Gc_Mark sample_policy, Gc_Sweep sample_policy 1]"

lemma sample_run: "run_plane default_config sample_requests sample_plane = sample_marked"
  by (simp add: sample_requests_def sample_publish_run sample_mark_run del: perform.simps)
    (simp add: sample_sweep_run [unfolded One_nat_def])

section \<open>A keyspace\<close>

lemma empty_shards_run:
  "mi_next_keyspace_catalog_shard_id m + length xs < u128_limit \<Longrightarrow>
    mapM (\<lambda>_. insert_keyspace_catalog_shard_locked []) xs m =
      (let i = mi_next_keyspace_catalog_shard_id m; is = [i..<i + length xs] in
       (Inr (map (\<lambda>i. \<lparr>cs_shard_id = i, cs_files = []\<rparr>) is),
        m\<lparr>mi_next_keyspace_catalog_shard_id := i + length xs,
          mi_keyspace_catalog_shards := foldl (\<lambda>t i. bt_insert i \<lparr>cs_shard_id = i, cs_files = []\<rparr> t) (mi_keyspace_catalog_shards m) is\<rparr>))"
proof (induction xs arbitrary: m)
  case (Cons x xs)
  have v: "validate_catalog_shard \<lparr>cs_shard_id = i, cs_files = []\<rparr> = Inr ()" for i
    by (simp add: validate_catalog_shard_def bt_values_def)
  from Cons show ?case
    by (simp add: insert_keyspace_catalog_shard_locked_def seqM_assoc alloc_keyspace_catalog_shard_id_def seqM_alloc Let_def seqM_steps v
        seqM_returnM run_done upt_conv_Cons seqM_def [of "mapM _ _"] del: upt_Suc)
qed (simp add: run_done)

lemma foldl_shards_get:
  "bt_get (foldl (\<lambda>t i. bt_insert i (f i) t) t is) k = (if k \<in> set is then Some (f k) else bt_get t k)"
  by (induction "is" arbitrary: t) auto

definition sample_shards :: "keyspace_catalog_shard_id list" where
  "sample_shards = [1..<257]"

definition sample_keyspace_plane :: metadata_inner where
  "sample_keyspace_plane = metadata_new\<lparr>
    mi_next_keyspace_id := 2, mi_next_keyspace_catalog_shard_id := 257, mi_next_keyspace_root_id := 2, mi_next_checkpoint_id := 2,
    mi_keyspace_catalog_shards := foldl (\<lambda>t i. bt_insert i \<lparr>cs_shard_id = i, cs_files = []\<rparr> t) [] sample_shards,
    mi_keyspace_roots := [(1, \<lparr>kr_root_id = 1, kr_shard_roots = sample_shards, kr_file_count = 0\<rparr>)],
    mi_keyspace_heads := [(1, \<lparr>kh_keyspace_id = 1, kh_generation = 0, kh_shard_roots = sample_shards, kh_file_count = 0,
      kh_latest_commit = 0\<rparr>)],
    mi_checkpoints := [(1, \<lparr>cp_checkpoint_id = 1, cp_commit_seq = 0, cp_time = 0, cp_owner = NativeKeyspace 1,
      cp_roots = CP_NativeKeyspace 1\<rparr>)]\<rparr>"

lemma sample_shards_nonempty: "sample_shards \<noteq> []"
  by (simp add: sample_shards_def)

lemma sample_keyspace_created: "perform default_config Create_Keyspace metadata_new = sample_keyspace_plane"
proof -
  let ?m = "metadata_new\<lparr>mi_next_keyspace_id := 2\<rparr>"
  let ?x = "?m\<lparr>mi_next_keyspace_catalog_shard_id := 257,
    mi_keyspace_catalog_shards := foldl (\<lambda>t i. bt_insert i \<lparr>cs_shard_id = i, cs_files = []\<rparr> t) [] sample_shards\<rparr>"
  have shards: "mapM (\<lambda>_. insert_keyspace_catalog_shard_locked []) [0..<KEYSPACE_CATALOG_SHARD_COUNT] ?m =
      (Inr (map (\<lambda>i. \<lparr>cs_shard_id = i, cs_files = []\<rparr>) sample_shards), ?x)"
    by (subst empty_shards_run)
      (simp_all add: Let_def metadata_new_def KEYSPACE_CATALOG_SHARD_COUNT_def u128_limit_def sample_shards_def del: upt_rec_numeral)
  have ids: "map (cs_shard_id \<circ> (\<lambda>i. \<lparr>cs_shard_id = i, cs_files = []\<rparr>)) sample_shards = sample_shards"
    by (simp add: comp_def)
  have root: "insert_empty_keyspace_root_locked ?m =
      (Inr \<lparr>kr_root_id = 1, kr_shard_roots = sample_shards, kr_file_count = 0\<rparr>,
       ?x\<lparr>mi_next_keyspace_root_id := 2,
         mi_keyspace_roots := [(1, \<lparr>kr_root_id = 1, kr_shard_roots = sample_shards, kr_file_count = 0\<rparr>)]\<rparr>)"
    unfolding insert_empty_keyspace_root_locked_def
      seqM_known [where g = "mapM (\<lambda>_. insert_keyspace_catalog_shard_locked []) [0..<KEYSPACE_CATALOG_SHARD_COUNT]" and m = ?m, OF shards]
    by (simp add: insert_keyspace_root_locked_def plane_eval validate_keyspace_root_def ids sample_shards_nonempty)
  have valid: "validate_config default_config = Inr ()"
    by (simp add: default_config_def is_power_of_two.simps)
  have "mi_next_keyspace_id metadata_new + 1 < u128_limit" "metadata_new\<lparr>mi_next_keyspace_id := mi_next_keyspace_id metadata_new + 1\<rparr> = ?m"
    by (simp_all add: metadata_new_def u128_limit_def)
  then show ?thesis
    by (simp add: create_keyspace_def seqM_steps valid alloc_keyspace_id_def seqM_alloc seqM_known [where g = insert_empty_keyspace_root_locked and m = ?m, OF root] Let_def)
      (simp add: plane_eval seq_checkpoint with_checkpoint_def new_checkpoint_def sample_keyspace_plane_def)
qed

lemma sample_keyspace_reachable: "plane_reachable default_config sample_keyspace_plane"
  using plane_reachable.request [OF plane_reachable.initial, of Create_Keyspace default_config]
  by (simp add: sample_keyspace_created admissible_def del: perform.simps)

end
