(* ===== verification/Metadata_Safety.thy ===== *)
theory Metadata_Safety
  imports Metadata_Travel_Files Metadata_Samples
begin

text \<open>
  The promises of the metadata plane, over every sequence of its requests: heads, checkpoints and
  the replayed past agree, the past inside the retention window stays restorable, garbage
  collection removes nothing that is in use, and publishing is a compare-and-swap.
\<close>

section \<open>Heads and replay agree\<close>



section \<open>The past stays restorable\<close>

text \<open>
  C6: Point-in-time recovery of devices.  If in a reachable state the device can be restored at
  commit \<open>s\<close> with the tree roots \<open>roots\<close>, then after any further requests (publishes,
  forks, deletions, garbage collections), as long as every sweep among them had \<open>s\<close> inside
  its retention window for that device, restoring at \<open>s\<close> succeeds, yields a new device with
  the same roots, and every node below them is the node it was.
\<close>

theorem device_restore_point_survives:
  assumes "plane_reachable cfg m"
    and "target_commit_for_restore_locked m d (At_Commit s) = Inr s" "replay_device_roots_locked m d s None = Inr roots"
    and "\<forall>i\<in>reach (mi_metadata_nodes m) (set roots). bt_has (mi_metadata_nodes m) i"
    and "every_step cfg admissible rs m" "every_step cfg (retains (BlockDevice d) s) rs m"
    and "ids_left (run_plane cfg rs m)" "length roots = cfg_shard_count cfg" "roots \<noteq> []"
  shows "\<exists>head m'. restore_device cfg d (At_Commit s) (run_plane cfg rs m) = (Inr head, m')
      \<and> dh_shard_roots head = roots
      \<and> (\<forall>i\<in>reach (mi_metadata_nodes m) (set roots). get_metadata_node m' i = get_metadata_node m i)"
proof -
  let ?m = "run_plane cfg rs m"
  have "device_timeline_contains_commit_locked m d s"
    using assms(2) by simp
  then have t: "device_tracked m d s roots"
    by (rule replay_tracked [OF reachable_ok [OF assms(1)] _ assms(3)])
  have r: "device_tracked ?m d s roots \<and> intact m (set roots) ?m"
    by (rule device_run [OF t _ _ assms(5,6)]) (use assms(4) in \<open>simp_all add: intact_def complete_def\<close>)
  then obtain head m' where run: "restore_device cfg d (At_Commit s) ?m = (Inr head, m')" "dh_shard_roots head = roots"
    using tracked_restore [OF _ assms(7-9)] by blast
  have "keeps ?m m'"
    by (rule restore_device_keeps [OF _ run(1)]) (use r in \<open>simp add: device_tracked_def\<close>)
  then have "intact m (set roots) m'"
    using r intact_grows [of m "set roots" ?m m'] assms(4) by (simp add: keeps_def grows_def complete_def)
  with run show ?thesis
    by (auto simp: intact_def get_metadata_node_def)
qed

lemma sample_reach: "reach (mi_metadata_nodes sample_plane) {1} = {1}"
  using reach_least [of "{1}" "{1}" "mi_metadata_nodes sample_plane"]
  by (auto simp: child_ids_def sample_plane_def intro: reach.root)

lemma sample_steps:
  "every_step default_config admissible sample_requests sample_plane"
  "every_step default_config (retains (BlockDevice 1) 0) sample_requests sample_plane"
  by (simp_all add: sample_requests_def sample_publish_run sample_mark_run del: perform.simps)
    (simp_all add: admissible_def retains_def sample_publish_def sample_policy_def sample_marked_def sample_published_def
      sample_plane_def plane_eval gc_eval)

theorem device_restore_point_survives_witness:
  "\<exists>head m'. restore_device default_config 1 (At_Commit 0) (run_plane default_config sample_requests sample_plane) = (Inr head, m')
    \<and> dh_shard_roots head = [1] \<and> get_metadata_node m' 1 = get_metadata_node sample_plane 1"
proof -
  have t: "target_commit_for_restore_locked sample_plane 1 (At_Commit 0) = Inr 0"
    by (simp add: device_timeline_contains_commit_locked_def sample_plane_def plane_eval)
  have r: "replay_device_roots_locked sample_plane 1 0 None = Inr [1]"
    by (simp add: replay_device_roots_locked_def latest_device_checkpoint_at_or_before_locked_def sample_plane_def plane_eval
        max_by_key_def checkpoint_block_roots_def shard_commits_for_device_locked_def)
  have p: "\<forall>i\<in>reach (mi_metadata_nodes sample_plane) (set [1]). bt_has (mi_metadata_nodes sample_plane) i"
    using sample_reach by (simp add: sample_plane_def bt_has_iff)
  have l: "ids_left (run_plane default_config sample_requests sample_plane)"
    unfolding sample_run by (simp add: ids_left_def sample_marked_def sample_published_def sample_plane_def plane_eval)
  have n: "length [1] = cfg_shard_count default_config" "[1] \<noteq> []"
    by (simp_all add: default_config_def)
  show ?thesis
    using device_restore_point_survives [OF sample_reachable t r p sample_steps l n] sample_reach by auto
qed



section \<open>Garbage collection\<close>

text \<open>The roots in use after a sweep: of live devices, of files, and of everything that can be replayed.\<close>

definition in_use :: "metadata_inner \<Rightarrow> metadata_node_id \<Rightarrow> bool" where
  "in_use m r \<longleftrightarrow>
    (\<exists>d h. bt_get (mi_device_heads m) d = Some h \<and> r \<in> set (dh_shard_roots h))
    \<or> (\<exists>k h. bt_get (mi_keyspace_heads m) k = Some h \<and> r \<in> file_roots m (kh_shard_roots h))
    \<or> (\<exists>d s roots. replay_device_roots_locked m d s None = Inr roots \<and> r \<in> set roots)
    \<or> (\<exists>k s root. replay_keyspace_root_locked m k s None = Inr root \<and> r \<in> file_roots m (kr_shard_roots root))"

lemma swept_file_roots: "file_roots (swept policy cand x) = file_roots x"
  by (intro ext) (simp add: file_roots_def shard_file_roots_def swept_heads)

lemma in_use_covered:
  assumes "plane_ok x" "roots_for_gc_locked x policy = Inr R" "plane_ok (swept policy cand x)" "in_use (swept policy cand x) r"
  shows "r \<in> set R"
proof -
  have ok: "devices_ok x" "checkpoints_ok x" "bt_ok (mi_checkpoints (swept policy cand x))"
    using assms(1,3) by (simp_all add: plane_ok_def checkpoints_ok_def)
  have live: "r \<in> set R" if "bt_get (mi_device_heads x) d = Some h" "r \<in> set (dh_shard_roots h)" for d h
  proof -
    have "device_any_head x d = Some h" "owner_has_head x policy (BlockDevice d)"
      using that(1) by (simp_all add: device_any_head_def bt_has_iff)
    then show ?thesis
      using roots_cover_head [OF assms(2) ok(1,2)] that(2) by blast
  qed
  have files: "r \<in> set R" if "bt_get (mi_keyspace_heads x) k = Some h" "r \<in> file_roots x (kh_shard_roots h)" for k h
    using roots_cover_files [OF assms(2) ok(1,2) that(1)] that(2) by (auto simp: file_roots_def)
  show ?thesis
    using assms(4) live files swept_device_covered [OF assms(1,2) _ ok(3)] swept_keyspace_covered [OF assms(1,2) _ ok(3)]
    unfolding in_use_def swept_heads swept_file_roots by blast
qed

text \<open>
  C7: A sweep never removes what is still in use.  Take any root that, after a successful sweep, a
  live device head, a file of a live keyspace, or a replay of any device or keyspace at any
  sequence number refers to.  Then every node below it was stored before the sweep, is stored
  unchanged after it, is not among the nodes reported as deleted, and refers to no segment reported
  as released.
\<close>

theorem sweep_keeps_everything_in_use:
  assumes "plane_reachable cfg m" "sweep_unmarked_after_mark policy epoch m = (Inr report, m')" "in_use m' r"
  shows "\<forall>i\<in>reach (mi_metadata_nodes m) {r}.
    (\<exists>node. get_metadata_node m i = Inr node \<and> get_metadata_node m' i = Inr node
      \<and> collect_node_segments node \<inter> set (sr_released_segments report) = {})
    \<and> i \<notin> set (sr_deleted_metadata_nodes report)"
proof
  fix i
  assume i: "i \<in> reach (mi_metadata_nodes m) {r}"
  have okm: "plane_ok m"
    using assms(1) by (rule reachable_ok)
  from okm assms(2) show "(\<exists>node. get_metadata_node m i = Inr node \<and> get_metadata_node m' i = Inr node
      \<and> collect_node_segments node \<inter> set (sr_released_segments report) = {})
    \<and> i \<notin> set (sr_deleted_metadata_nodes report)"
  proof (cases rule: sweep_cases)
    case (done_ report' x R V S cand)
    have okx: "plane_ok x" and nodes: "mi_metadata_nodes x = mi_metadata_nodes m"
      using done_(2) by (simp_all add: anchored_def keeps_def)
    have "plane_ok m'"
      by (rule sweep_plane_ok [OF okm assms(2)])
    then have "r \<in> set R"
      using in_use_covered [OF okx done_(4)] assms(3) by (simp add: done_(10))
    then have "i \<in> V"
      using i reach_mono [of "{r}" "set R" "mi_metadata_nodes m"] collect_reachable_Inr(1) [OF done_(5)] by (auto simp: nodes)
    then obtain node where node: "bt_get (mi_metadata_nodes m) i = Some node"
      using collect_reachable_Inr(2) [OF done_(5)] by (auto simp: bt_has_iff nodes)
    then have "collect_node_segments node \<subseteq> S"
      using collect_reachable_Inr(3) [OF done_(5)] \<open>i \<in> V\<close> by (fastforce simp: segments_at_def nodes)
    with node done_ \<open>i \<in> V\<close> show ?thesis
      by (auto simp: get_metadata_node_def swept_node nodes)
  qed simp
qed

lemma sample_marked_reachable: "plane_reachable default_config sample_marked"
proof -
  have "plane_reachable default_config sample_published"
    using plane_reachable.request [OF sample_reachable, of sample_publish]
    by (simp add: sample_publish_run admissible_def sample_publish_def [symmetric] del: perform.simps)
      (simp add: sample_publish_def)
  from plane_reachable.request [OF this, of "Gc_Mark sample_policy"] show ?thesis
    by (simp add: sample_mark_run admissible_def del: perform.simps)
qed

theorem sweep_keeps_everything_in_use_witness:
  "\<exists>report node. sweep_unmarked_after_mark sample_policy 1 sample_marked = (Inr report, sample_marked)
    \<and> in_use sample_marked 1 \<and> get_metadata_node sample_marked 1 = Inr node
    \<and> collect_node_segments node \<inter> set (sr_released_segments report) = {}
    \<and> 1 \<notin> set (sr_deleted_metadata_nodes report)"
proof -
  have u: "in_use sample_marked 1"
    unfolding in_use_def
    by (rule disjI1) (simp add: sample_marked_def sample_published_def sample_plane_def sample_head_def)
  have r: "1 \<in> reach (mi_metadata_nodes sample_marked) {1}"
    by (simp add: reach.root)
  from sweep_keeps_everything_in_use [OF sample_marked_reachable sample_sweep_run u, THEN bspec, OF r] u sample_sweep_run
  show ?thesis
    by auto
qed

end
