(* ===== verification/Metadata_Frame.thy ===== *)
theory Metadata_Frame
  imports Metadata_Safety
begin

text \<open>
  What each request leaves alone.  Device heads and keyspace heads are changed only by the requests
  that name them; every other owner keeps its head.
\<close>

section \<open>Frame rules\<close>

lemma keepsM_if: "keepsM P a \<Longrightarrow> keepsM P b \<Longrightarrow> keepsM P (if c then a else b)"
  by simp

lemma keepsM_Let: "(\<And>x. keepsM P (f x)) \<Longrightarrow> keepsM P (Let x f)"
  by simp

lemma keepsM_case_prod: "(\<And>a b. keepsM P (f a b)) \<Longrightarrow> keepsM P (case_prod f x)"
  by (cases x) simp

lemma keepsM_case_option: "keepsM P a \<Longrightarrow> (\<And>x. keepsM P (f x)) \<Longrightarrow> keepsM P (case_option a f x)"
  by (cases x) simp_all

lemmas keepsM_rules = keepsM_pure keepsM_seqM keepsM_if keepsM_Let keepsM_case_prod keepsM_case_option keepsM_mapM keepsM_forM
  keepsM_foldM keepsM_modM

text \<open>Predicates of the heads only.\<close>

definition on_heads :: "((device_id, device_head) btree \<Rightarrow> (keyspace_id, keyspace_head) btree \<Rightarrow> bool) \<Rightarrow> metadata_inner \<Rightarrow> bool" where
  "on_heads Q m = Q (mi_device_heads m) (mi_keyspace_heads m)"

lemma allocs_frame:
  "keepsM (on_heads Q) alloc_device_id" "keepsM (on_heads Q) alloc_keyspace_id" "keepsM (on_heads Q) alloc_file_id"
  "keepsM (on_heads Q) alloc_metadata_node_id" "keepsM (on_heads Q) alloc_keyspace_root_id"
  "keepsM (on_heads Q) alloc_keyspace_catalog_shard_id" "keepsM (on_heads Q) alloc_commit_group_id"
  "keepsM (on_heads Q) alloc_commit_seq" "keepsM (on_heads Q) alloc_checkpoint_id" "keepsM (on_heads Q) alloc_gc_epoch"
  "keepsM (on_heads Q) (reserve_device_id_at_least_after d)" "keepsM (on_heads Q) (reserve_keyspace_id_at_least_after k)"
  by (auto simp: alloc_defs alloc_id_def reserve_device_id_at_least_after_def reserve_keyspace_id_at_least_after_def on_heads_def
      intro!: keepsM_rules)

lemma insert_frame:
  "keepsM (on_heads Q) (insert_checkpoint o' q roots)" "keepsM (on_heads Q) (insert_new_node r kind)"
  "keepsM (on_heads Q) (insert_keyspace_catalog_shard_locked files)" "keepsM (on_heads Q) (insert_keyspace_root_locked rs n)"
  by (auto simp: insert_checkpoint_def insert_new_node_def insert_keyspace_catalog_shard_locked_def insert_keyspace_root_locked_def
      intro!: keepsM_rules allocs_frame) (simp_all add: on_heads_def)

lemma tree_frame: "keepsM (on_heads Q) (create_empty_tree_fuel n cfg r)"
  by (induction n arbitrary: r) (auto intro!: keepsM_rules insert_frame simp: Let_def)

lemma catalog_frame:
  "keepsM (on_heads Q) insert_empty_keyspace_root_locked" "keepsM (on_heads Q) (update_keyspace_file_locked rs n f e)"
  by (auto simp: insert_empty_keyspace_root_locked_def update_keyspace_file_locked_def intro!: keepsM_rules insert_frame)

lemmas frame_rules = keepsM_rules allocs_frame insert_frame tree_frame catalog_frame

lemma anchors_frame: "keepsM (on_heads Q) (ensure_pitr_anchor_checkpoints_locked policy)"
  by (auto simp: ensure_pitr_anchor_checkpoints_locked_def ensure_block_anchor_def ensure_keyspace_anchor_def intro!: frame_rules)

lemma gc_frame:
  "keepsM (on_heads Q) (roots_for_gc policy)" "keepsM (on_heads Q) (mark_reachable_for_gc policy)"
  "keepsM (on_heads Q) (sweep_unmarked_after_mark policy epoch)"
  by (auto simp: roots_for_gc_def mark_reachable_for_gc_def sweep_unmarked_after_mark_def intro!: frame_rules anchors_frame)
    (simp_all add: on_heads_def remove_nodes_def trim_history_def Let_def)

lemma neutral_frame:
  "keepsM (on_heads Q) (allocate_metadata_node r kind)" "keepsM (on_heads Q) (persist_metadata_node w)"
  "keepsM (on_heads Q) (checkpoint_device d)" "keepsM (on_heads Q) (checkpoint_keyspace k)"
  by (auto simp: allocate_metadata_node_def persist_metadata_node_def checkpoint_device_def checkpoint_keyspace_def Let_def
      intro!: frame_rules) (simp_all add: on_heads_def)

section \<open>Requests with a target\<close>

definition apart_from_device :: "device_id \<Rightarrow> ((device_id, device_head) btree \<Rightarrow> (keyspace_id, keyspace_head) btree \<Rightarrow> bool) \<Rightarrow> bool" where
  "apart_from_device d Q \<longleftrightarrow> (\<forall>ds ks h. Q ds ks \<longrightarrow> Q (bt_insert d h ds) ks \<and> Q (bt_remove d ds) ks)"

definition apart_from_keyspace :: "keyspace_id \<Rightarrow> ((device_id, device_head) btree \<Rightarrow> (keyspace_id, keyspace_head) btree \<Rightarrow> bool) \<Rightarrow> bool" where
  "apart_from_keyspace k Q \<longleftrightarrow> (\<forall>ds ks h. Q ds ks \<longrightarrow> Q ds (bt_insert k h ks))"

lemma advance_frame:
  assumes "apart_from_keyspace k Q" "\<And>m. on_heads Q (wh m) = on_heads Q m"
  shows "keepsM (on_heads Q) (advance_keyspace k cur q g f e wh fc)"
  using assms unfolding advance_keyspace_def
  by (intro frame_rules) (simp_all add: on_heads_def apart_from_keyspace_def)

lemma keyspace_request_frame:
  assumes "apart_from_keyspace k Q"
  shows "keepsM (on_heads Q) (publish_keyspace_commit cfg k fence us)" "mf_keyspace_id request = k \<Longrightarrow> keepsM (on_heads Q) (create_file cfg request)"
    "keepsM (on_heads Q) (install_keyspace k roots n)"
proof -
  have p: "on_heads Q (publish_stream_progress k f n st m) = on_heads Q m" for f n st m
    by (auto simp: publish_stream_progress_def on_heads_def Let_def split: option.splits)
  show "keepsM (on_heads Q) (publish_keyspace_commit cfg k fence us)"
    unfolding publish_keyspace_commit_def
    by (intro frame_rules advance_frame [OF assms]) (simp_all add: p, simp_all add: on_heads_def)
  show "keepsM (on_heads Q) (create_file cfg request)" if "mf_keyspace_id request = k"
    unfolding create_file_def create_empty_tree_def that
    by (intro frame_rules advance_frame [OF assms]) (simp_all add: on_heads_def)
  show "keepsM (on_heads Q) (install_keyspace k roots n)"
    using assms unfolding install_keyspace_def
    by (intro frame_rules) (simp add: on_heads_def apart_from_keyspace_def)
qed

lemma device_request_frame:
  assumes "apart_from_device d Q"
  shows "keepsM (on_heads Q) (publish_block_commit d fence us)" "keepsM (on_heads Q) (delete_device d)"
    "(\<And>n m. on_heads Q (rec n m) = on_heads Q m) \<Longrightarrow> keepsM (on_heads Q) (install_device cfg d spec roots rec)"
  using assms unfolding publish_block_commit_def delete_device_def install_device_def
  by (intro frame_rules; simp add: on_heads_def apart_from_device_def)+

text \<open>A request touches the head of at most one device or keyspace: the one it names, or a new one.\<close>

definition touches_device :: "plane_request \<Rightarrow> metadata_inner \<Rightarrow> device_id option" where
  "touches_device r m =
    (case r of
      Create_Device _ \<Rightarrow> Some (mi_next_device_id m)
    | Publish intent \<Rightarrow> (case ci_owner intent of BlockDevice d \<Rightarrow> Some d | NativeKeyspace _ \<Rightarrow> None)
    | Fork_Device request \<Rightarrow> Some (case mk_target request of Some d \<Rightarrow> d | None \<Rightarrow> mi_next_device_id m)
    | Restore_Device _ _ \<Rightarrow> Some (mi_next_device_id m)
    | Delete_Device d \<Rightarrow> Some d
    | _ \<Rightarrow> None)"

definition touches_keyspace :: "plane_request \<Rightarrow> metadata_inner \<Rightarrow> keyspace_id option" where
  "touches_keyspace r m =
    (case r of
      Create_Keyspace \<Rightarrow> Some (mi_next_keyspace_id m)
    | Create_File request \<Rightarrow> Some (mf_keyspace_id request)
    | Publish intent \<Rightarrow> (case ci_owner intent of BlockDevice d \<Rightarrow> None | NativeKeyspace k \<Rightarrow> Some k)
    | Snapshot_Keyspace request \<Rightarrow> Some (case ms_target request of Some k \<Rightarrow> k | None \<Rightarrow> mi_next_keyspace_id m)
    | Restore_Keyspace _ _ \<Rightarrow> Some (mi_next_keyspace_id m)
    | _ \<Rightarrow> None)"

lemma keepsM_run: "keepsM P f \<Longrightarrow> P m \<Longrightarrow> P (snd (f m))"
  by (cases "f m") (simp add: keepsM_def)

lemma reserve_then:
  "seqM (seqM (askM g) (\<lambda>_. seqM r (\<lambda>_. returnM d))) k m = seqM (askM g) (\<lambda>_. seqM r (\<lambda>_. k d)) m"
  by (simp add: run_defs split: sum.splits prod.splits)

lemma on_heads_next: "on_heads Q (m\<lparr>mi_next_device_id := n\<rparr>) = on_heads Q m" "on_heads Q (m\<lparr>mi_next_keyspace_id := n\<rparr>) = on_heads Q m"
  by (simp_all add: on_heads_def)

lemma shard_root_frame: "keepsM (on_heads Q) (create_shard_root cfg spec rs i)"
  unfolding create_shard_root_def create_empty_tree_def by (intro frame_rules)

lemma create_device_frame:
  assumes "apart_from_device (mi_next_device_id m) Q" "on_heads Q m"
  shows "on_heads Q (snd (create_device cfg spec m))"
proof -
  have rest: "keepsM (on_heads Q) (seqM (foldM (create_shard_root cfg spec) [] xs) (\<lambda>shard_roots.
      let head = \<lparr>dh_device_id = mi_next_device_id m, dh_generation = 0, dh_shard_roots = shard_roots, dh_latest_commit = 0\<rparr> in
      seqM (liftM (validate_device_head head n)) (\<lambda>_.
      seqM (modM (\<lambda>x. x\<lparr>mi_device_specs := bt_insert (mi_next_device_id m) spec (mi_device_specs x)\<rparr>)) (\<lambda>_.
      seqM (modM (\<lambda>x. x\<lparr>mi_device_heads := bt_insert (mi_next_device_id m) head (mi_device_heads x)\<rparr>)) (\<lambda>_.
      seqM (insert_checkpoint (BlockDevice (mi_next_device_id m)) 0 (CP_BlockShard shard_roots)) (\<lambda>_.
      returnM head))))))" for xs n
    using assms(1) by (intro frame_rules shard_root_frame) (simp_all add: on_heads_def apart_from_device_def)
  show ?thesis
    unfolding create_device_def
    by (simp add: seqM_steps Let_def alloc_device_id_def seqM_alloc assms(2) on_heads_next keepsM_run [OF rest [unfolded Let_def]]
        split: sum.split)
qed

lemma fork_device_frame:
  assumes "apart_from_device (case mk_target request of Some d \<Rightarrow> d | None \<Rightarrow> mi_next_device_id m) Q" "on_heads Q m"
  shows "on_heads Q (snd (fork_device cfg request m))"
proof (cases "mk_target request")
  case None
  then have "keepsM (on_heads Q) (install_device cfg (mi_next_device_id m) spec roots (\<lambda>q m. m\<lparr>mi_fork_records := f q m\<rparr>))" for spec roots f
    using assms(1) by (intro device_request_frame) (simp_all add: on_heads_def)
  note run = keepsM_run [OF this]
  from None assms(2) show ?thesis
    by (simp add: fork_device_def seqM_steps alloc_device_id_def seqM_alloc on_heads_next run split: sum.split)
next
  case (Some d)
  then have "keepsM (on_heads Q) (seqM (reserve_device_id_at_least_after d)
      (\<lambda>_. install_device cfg d spec roots (\<lambda>q m. m\<lparr>mi_fork_records := f q m\<rparr>)))" for spec roots f
    using assms(1) by (intro frame_rules device_request_frame) (simp_all add: on_heads_def)
  note run = keepsM_run [OF this]
  from Some assms(2) show ?thesis
    by (simp add: fork_device_def seqM_steps reserve_then run split: sum.split)
qed

lemma restore_device_frame:
  assumes "apart_from_device (mi_next_device_id m) Q" "on_heads Q m"
  shows "on_heads Q (snd (restore_device cfg source point m))"
proof -
  have "keepsM (on_heads Q) (install_device cfg (mi_next_device_id m) spec roots (\<lambda>_ m. m))" for spec roots
    using assms(1) by (intro device_request_frame) simp_all
  note run = keepsM_run [OF this]
  show ?thesis
    by (simp add: restore_device_def seqM_steps alloc_device_id_def seqM_alloc on_heads_next assms(2) run split: sum.split)
qed

lemma snapshot_keyspace_frame:
  assumes "apart_from_keyspace (case ms_target request of Some k \<Rightarrow> k | None \<Rightarrow> mi_next_keyspace_id m) Q" "on_heads Q m"
  shows "on_heads Q (snd (snapshot_keyspace request m))"
proof (cases "ms_target request")
  case None
  then have "keepsM (on_heads Q) (install_keyspace (mi_next_keyspace_id m) roots n)" for roots n
    using assms(1) by (intro keyspace_request_frame) simp
  note run = keepsM_run [OF this]
  from None assms(2) show ?thesis
    by (simp add: snapshot_keyspace_def seqM_steps alloc_keyspace_id_def seqM_alloc on_heads_next run split: sum.split)
next
  case (Some k)
  then have "keepsM (on_heads Q) (seqM (reserve_keyspace_id_at_least_after k) (\<lambda>_. install_keyspace k roots n))" for roots n
    using assms(1) by (intro frame_rules keyspace_request_frame) simp
  note run = keepsM_run [OF this]
  from Some assms(2) show ?thesis
    by (simp add: snapshot_keyspace_def seqM_steps reserve_then run split: sum.split)
qed

lemma restore_keyspace_frame:
  assumes "apart_from_keyspace (mi_next_keyspace_id m) Q" "on_heads Q m"
  shows "on_heads Q (snd (restore_keyspace source point m))"
  using assms keepsM_run [OF keyspace_request_frame(3) [OF assms(1)]]
  by (simp add: restore_keyspace_def seqM_steps alloc_keyspace_id_def seqM_alloc on_heads_next split: sum.split)

lemma create_keyspace_frame:
  assumes "apart_from_keyspace (mi_next_keyspace_id m) Q" "on_heads Q m"
  shows "on_heads Q (snd (create_keyspace cfg m))"
proof -
  let ?head = "\<lambda>root. \<lparr>kh_keyspace_id = mi_next_keyspace_id m, kh_generation = 0, kh_shard_roots = kr_shard_roots root,
      kh_file_count = kr_file_count root, kh_latest_commit = 0\<rparr>"
  have "keepsM (on_heads Q) (seqM insert_empty_keyspace_root_locked (\<lambda>root.
      seqM (modM (\<lambda>x. x\<lparr>mi_keyspace_heads := bt_insert (mi_next_keyspace_id m) (?head root) (mi_keyspace_heads x)\<rparr>)) (\<lambda>_.
      seqM (insert_checkpoint (NativeKeyspace (mi_next_keyspace_id m)) 0 (CP_NativeKeyspace (kr_root_id root))) (\<lambda>_.
      returnM (?head root)))))"
    using assms(1) by (intro frame_rules) (simp add: on_heads_def apart_from_keyspace_def)
  note run = keepsM_run [OF this]
  show ?thesis
    by (simp add: create_keyspace_def seqM_steps alloc_keyspace_id_def seqM_alloc Let_def on_heads_next assms(2) run split: sum.split)
qed

section \<open>Isolation\<close>

lemma perform_frame:
  assumes "on_heads Q m" "\<And>d. touches_device r m = Some d \<Longrightarrow> apart_from_device d Q"
    and "\<And>k. touches_keyspace r m = Some k \<Longrightarrow> apart_from_keyspace k Q"
  shows "on_heads Q (perform cfg r m)"
proof (cases r)
  case (Publish intent)
  show ?thesis
  proof (cases "ci_owner intent")
    case (BlockDevice d)
    with assms Publish keepsM_run [OF device_request_frame(1)] show ?thesis
      by (simp add: publish_commit_group_def touches_device_def)
  next
    case (NativeKeyspace k)
    with assms Publish keepsM_run [OF keyspace_request_frame(1)] show ?thesis
      by (simp add: publish_commit_group_def touches_keyspace_def)
  qed
next
  case (Create_File request)
  with assms keepsM_run [OF keyspace_request_frame(2)] show ?thesis
    by (simp add: touches_keyspace_def)
next
  case (Delete_Device d)
  with assms keepsM_run [OF device_request_frame(2)] show ?thesis
    by (simp add: touches_device_def)
qed (use assms in \<open>simp_all add: touches_device_def touches_keyspace_def create_device_frame create_keyspace_frame
    fork_device_frame restore_device_frame snapshot_keyspace_frame restore_keyspace_frame
    keepsM_run [OF neutral_frame(1)] keepsM_run [OF neutral_frame(2)] keepsM_run [OF neutral_frame(3)] keepsM_run [OF neutral_frame(4)]
    keepsM_run [OF gc_frame(1)] keepsM_run [OF gc_frame(2)] keepsM_run [OF gc_frame(3)]\<close>)

end
