(* ===== verification/Metadata_Publish.thy ===== *)
theory Metadata_Publish
  imports Metadata_Frame
begin

text \<open>Publishing is a compare-and-swap per shard, all or nothing, and owners do not disturb each other.\<close>

section \<open>Compare and swap\<close>

definition applicable :: "metadata_inner \<Rightarrow> metadata_node_id list \<Rightarrow> shard_root_update \<Rightarrow> bool" where
  "applicable m roots x \<longleftrightarrow>
    su_shard_id x < length roots \<and> roots ! su_shard_id x = su_old_root x \<and> bt_has (mi_metadata_nodes m) (su_new_root x)"

definition swapped :: "metadata_node_id list \<Rightarrow> shard_root_update list \<Rightarrow> metadata_node_id list" where
  "swapped roots xs = foldl (\<lambda>rs x. rs[su_shard_id x := su_new_root x]) roots xs"

lemma swapped_length [simp]: "length (swapped roots xs) = length roots"
  by (induction xs arbitrary: roots) (simp_all add: swapped_def)

lemma swapped_other: "i \<notin> su_shard_id ` set xs \<Longrightarrow> swapped roots xs ! i = roots ! i"
  by (induction xs arbitrary: roots) (simp_all add: swapped_def)

lemma swapped_new:
  "distinct (map su_shard_id xs) \<Longrightarrow> x \<in> set xs \<Longrightarrow> su_shard_id x < length roots \<Longrightarrow>
    swapped roots xs ! su_shard_id x = su_new_root x"
proof (induction xs arbitrary: roots)
  case (Cons y xs)
  have step: "swapped roots (y # xs) = swapped (roots[su_shard_id y := su_new_root y]) xs"
    by (simp add: swapped_def)
  show ?case
  proof (cases "x = y")
    case True
    with Cons.prems swapped_other [of "su_shard_id y" xs] show ?thesis
      by (simp add: step image_iff)
  next
    case False
    with Cons show ?thesis
      by (simp add: step)
  qed
qed simp

lemma publish_fold_applies:
  "distinct (map su_shard_id xs) \<Longrightarrow> \<forall>x\<in>set xs. applicable m roots x \<Longrightarrow>
    \<exists>new. foldR (publish_block_step m) (roots, acc) (map BlockShard xs) = Inr (swapped roots xs, new)"
proof (induction xs arbitrary: roots acc)
  case (Cons x xs)
  let ?roots = "roots[su_shard_id x := su_new_root x]"
  have "\<forall>y\<in>set xs. applicable m ?roots y"
  proof
    fix y
    assume y: "y \<in> set xs"
    with Cons.prems(1) have "su_shard_id y \<noteq> su_shard_id x"
      by (force simp: image_iff)
    with y Cons.prems(2) show "applicable m ?roots y"
      by (simp add: applicable_def)
  qed
  from Cons.IH [OF _ this] Cons.prems show ?case
    by (simp add: publish_block_step_def applicable_def ensure_def swapped_def)
qed (simp add: swapped_def)

lemma publish_fold_rejects:
  "distinct (map su_shard_id xs) \<Longrightarrow> \<exists>x\<in>set xs. \<not> applicable m roots x \<Longrightarrow>
    \<exists>e. foldR (publish_block_step m) (roots, acc) (map BlockShard xs) = Inl e
      \<and> ((\<forall>x\<in>set xs. su_shard_id x < length roots \<and> bt_has (mi_metadata_nodes m) (su_new_root x)) \<longrightarrow> e = conflict)"
proof (induction xs arbitrary: roots acc)
  case (Cons x xs)
  show ?case
  proof (cases "applicable m roots x")
    case False
    then show ?thesis
      by (auto simp: publish_block_step_def applicable_def ensure_def)
  next
    case True
    let ?roots = "roots[su_shard_id x := su_new_root x]"
    obtain y where y: "y \<in> set xs" "\<not> applicable m roots y"
      using Cons.prems(2) True by auto
    have "su_shard_id y \<noteq> su_shard_id x"
      using Cons.prems(1) y(1) by (force simp: image_iff)
    with y have "\<exists>y\<in>set xs. \<not> applicable m ?roots y"
      by (intro bexI [of _ y]) (auto simp: applicable_def)
    from Cons.IH [OF _ this] Cons.prems(1) True show ?thesis
      by (simp add: publish_block_step_def applicable_def ensure_def)
  qed
qed simp

text \<open>
  C10: Publishing to a device is an atomic compare-and-swap of shard roots.  In every reachable
  state, for updates of distinct shards: if every update names an existing shard, the root the
  shard has now and a stored new root, the publish succeeds, exactly the named shards move to their
  new roots, the generation grows by one and the commit is the head's latest; otherwise it fails
  (with a conflict when only stale roots are to blame) and nothing at all changes.
\<close>

theorem publish_is_compare_and_swap:
  assumes "plane_reachable cfg m" "get_head m d = Inr h" "xs \<noteq> []" "distinct (map su_shard_id xs)"
    and "mi_next_commit_seq m + 1 < u64_limit" "mi_next_commit_group_id m + 1 < u128_limit"
    and "publish_commit_group cfg \<lparr>ci_owner = BlockDevice d, ci_fence = DeviceGeneration g, ci_updates = map BlockShard xs\<rparr> m = (res, m')"
  shows "((\<forall>x\<in>set xs. applicable m (dh_shard_roots h) x) \<longrightarrow>
      (\<exists>group h'. res = Inr group \<and> get_head m' d = Inr h' \<and> dh_generation h' = dh_generation h + 1
        \<and> dh_latest_commit h' = cg_commit_seq group \<and> dh_latest_commit h < cg_commit_seq group
        \<and> length (dh_shard_roots h') = length (dh_shard_roots h)
        \<and> (\<forall>x\<in>set xs. dh_shard_roots h' ! su_shard_id x = su_new_root x)
        \<and> (\<forall>i. i \<notin> su_shard_id ` set xs \<longrightarrow> dh_shard_roots h' ! i = dh_shard_roots h ! i)))
    \<and> ((\<exists>x\<in>set xs. \<not> applicable m (dh_shard_roots h) x) \<longrightarrow>
      m' = m \<and> (\<exists>e. res = Inl e
        \<and> ((\<forall>x\<in>set xs. su_shard_id x < length (dh_shard_roots h) \<and> bt_has (mi_metadata_nodes m) (su_new_root x)) \<longrightarrow> e = conflict)))"
proof -
  have ok: "plane_ok m"
    using assms(1) by (rule reachable_ok)
  have h: "bt_get (mi_device_heads m) d = Some h"
    using assms(2) by (simp add: get_head_def)
  then have "device_any_head m d = Some h"
    by (simp add: device_any_head_def)
  then obtain lo H where "device_timeline m d lo H"
    using ok unfolding plane_ok_def devices_ok_def by blast
  then have later: "dh_latest_commit h < mi_next_commit_seq m"
    using device_timeline_head [OF _ \<open>device_any_head m d = Some h\<close>] by blast
  have run: "publish_block_commit d (DeviceGeneration g) (map BlockShard xs) m = (res, m')"
    using assms(7) by (simp add: publish_commit_group_def)
  show ?thesis
  proof (intro conjI impI)
    assume all: "\<forall>x\<in>set xs. applicable m (dh_shard_roots h) x"
    obtain new where new: "foldR (publish_block_step m) (dh_shard_roots h, []) (map BlockShard xs) = Inr (swapped (dh_shard_roots h) xs, new)"
      using publish_fold_applies [OF assms(4) all] by blast
    have len: "su_shard_id x < length (dh_shard_roots h)" if "x \<in> set xs" for x
      using all that by (simp add: applicable_def)
    show "\<exists>group h'. res = Inr group \<and> get_head m' d = Inr h' \<and> dh_generation h' = dh_generation h + 1
        \<and> dh_latest_commit h' = cg_commit_seq group \<and> dh_latest_commit h < cg_commit_seq group
        \<and> length (dh_shard_roots h') = length (dh_shard_roots h)
        \<and> (\<forall>x\<in>set xs. dh_shard_roots h' ! su_shard_id x = su_new_root x)
        \<and> (\<forall>i. i \<notin> su_shard_id ` set xs \<longrightarrow> dh_shard_roots h' ! i = dh_shard_roots h ! i)"
      using run assms(3,5,6) later
      by (auto simp: publish_block_run [OF ok] h new Let_def get_head_def push_shard_commits_def published_head_def
          swapped_other swapped_new [OF assms(4)] len)
  next
    assume "\<exists>x\<in>set xs. \<not> applicable m (dh_shard_roots h) x"
    from publish_fold_rejects [OF assms(4) this] obtain e where
      e: "foldR (publish_block_step m) (dh_shard_roots h, []) (map BlockShard xs) = Inl e"
      "(\<forall>x\<in>set xs. su_shard_id x < length (dh_shard_roots h) \<and> bt_has (mi_metadata_nodes m) (su_new_root x)) \<longrightarrow> e = conflict"
      by blast
    show "m' = m" "\<exists>e. res = Inl e
        \<and> ((\<forall>x\<in>set xs. su_shard_id x < length (dh_shard_roots h) \<and> bt_has (mi_metadata_nodes m) (su_new_root x)) \<longrightarrow> e = conflict)"
      using run e assms(3) by (auto simp: publish_block_run [OF ok] h)
  qed
qed

theorem publish_is_compare_and_swap_witness:
  "(\<exists>group m' h'. publish_commit_group default_config \<lparr>ci_owner = BlockDevice 1, ci_fence = DeviceGeneration 0,
      ci_updates = [sample_update]\<rparr> sample_plane = (Inr group, m') \<and> get_head m' 1 = Inr h' \<and> dh_generation h' = 1)
   \<and> publish_commit_group default_config \<lparr>ci_owner = BlockDevice 1, ci_fence = DeviceGeneration 0,
      ci_updates = [BlockShard \<lparr>su_shard_id = 0, su_old_root = 7, su_new_root = 1\<rparr>]\<rparr> sample_plane = (Inl conflict, sample_plane)"
proof -
  let ?x = "\<lparr>su_shard_id = 0, su_old_root = 1, su_new_root = 1\<rparr>" and ?y = "\<lparr>su_shard_id = 0, su_old_root = 7, su_new_root = 1\<rparr>"
  have h: "get_head sample_plane 1 = Inr (sample_head 0)"
    by (simp add: get_head_def sample_plane_def)
  have ids: "mi_next_commit_seq sample_plane + 1 < u64_limit" "mi_next_commit_group_id sample_plane + 1 < u128_limit"
    by (simp_all add: sample_plane_def metadata_new_def u64_limit_def u128_limit_def)
  have a: "applicable sample_plane (dh_shard_roots (sample_head 0)) ?x" "\<not> applicable sample_plane (dh_shard_roots (sample_head 0)) ?y"
    "bt_has (mi_metadata_nodes sample_plane) 1"
    by (simp_all add: applicable_def sample_head_def sample_plane_def bt_has_iff)
  let ?publish = "\<lambda>us. publish_commit_group default_config \<lparr>ci_owner = BlockDevice 1, ci_fence = DeviceGeneration 0, ci_updates = us\<rparr> sample_plane"
  obtain r1 x1 where r1: "?publish (map BlockShard [?x]) = (r1, x1)"
    by fastforce
  have good: "\<forall>x\<in>set [?x]. applicable sample_plane (dh_shard_roots (sample_head 0)) x"
    using a(1) by (simp only: list.set ball_simps simp_thms)
  have "[?x] \<noteq> []" "distinct (map su_shard_id [?x])"
    by simp_all
  from publish_is_compare_and_swap [OF sample_reachable h this ids r1, THEN conjunct1, THEN mp, OF good]
  obtain group h' where one: "r1 = Inr group" "get_head x1 1 = Inr h'" "dh_generation h' = dh_generation (sample_head 0) + 1"
    by blast
  obtain r2 x2 where r2: "?publish (map BlockShard [?y]) = (r2, x2)"
    by fastforce
  have bad: "\<exists>x\<in>set [?y]. \<not> applicable sample_plane (dh_shard_roots (sample_head 0)) x"
    using a(2) by (simp only: list.set bex_simps simp_thms)
  have "[?y] \<noteq> []" "distinct (map su_shard_id [?y])"
    by simp_all
  from publish_is_compare_and_swap [OF sample_reachable h this ids r2, THEN conjunct2, THEN mp, OF bad]
  have two: "x2 = sample_plane" "r2 = Inl conflict"
    using a(3) by (auto simp: sample_head_def)
  show ?thesis
    using r1 r2 one two by (simp add: sample_update_def sample_head_def)
qed

section \<open>Isolation\<close>

text \<open>
  C11: Owners are isolated.  A request other than a publish to the device or its deletion leaves the
  head of a live device as it was, and a request other than a publish to the keyspace or a file
  creation in it leaves the head of the keyspace as it was: forks, restores, snapshots, other
  owners' writes and garbage collection are invisible to it.
\<close>

theorem requests_leave_other_owners_alone:
  assumes "plane_reachable cfg m"
  shows "(get_head m d = Inr h \<and> r \<noteq> Delete_Device d \<and> (\<nexists>i. r = Publish i \<and> ci_owner i = BlockDevice d) \<longrightarrow>
      get_head (perform cfg r m) d = Inr h)
    \<and> (get_keyspace_head m k = Inr kh \<and> (\<nexists>q. r = Create_File q \<and> mf_keyspace_id q = k)
        \<and> (\<nexists>i. r = Publish i \<and> ci_owner i = NativeKeyspace k) \<longrightarrow>
      get_keyspace_head (perform cfg r m) k = Inr kh)"
proof (intro conjI impI)
  have ok: "devices_ok m" "keyspaces_ok m"
    using reachable_ok [OF assms] by (simp_all add: plane_ok_def)
  {
    assume a: "get_head m d = Inr h \<and> r \<noteq> Delete_Device d \<and> (\<nexists>i. r = Publish i \<and> ci_owner i = BlockDevice d)"
    let ?Q = "\<lambda>ds ks. bt_get ds d = Some h"
    have h: "bt_get (mi_device_heads m) d = Some h"
      using a by (simp add: get_head_def)
    then have "device_any_head m d = Some h"
      by (simp add: device_any_head_def)
    then have old: "d < mi_next_device_id m"
      using ok(1) unfolding devices_ok_def by blast
    show "get_head (perform cfg r m) d = Inr h"
    proof (cases "touches_device r m = Some d")
      case True
      then obtain request where r: "r = Fork_Device request" "mk_target request = Some d"
        using a old by (auto simp: touches_device_def split: plane_request.splits mapping_owner.splits option.splits)
      then have "perform cfg r m = m"
        using h by (auto simp: fork_device_def seqM_steps reserve_then ensure_def bt_has_iff split: sum.split)
      with a show ?thesis
        by simp
    next
      case False
      have "on_heads ?Q (perform cfg r m)"
        by (rule perform_frame) (use False h in \<open>auto simp: on_heads_def apart_from_device_def apart_from_keyspace_def bt_get_insert bt_get_remove\<close>)
      then show ?thesis
        by (simp add: on_heads_def get_head_def)
    qed
  next
    assume a: "get_keyspace_head m k = Inr kh \<and> (\<nexists>q. r = Create_File q \<and> mf_keyspace_id q = k)
        \<and> (\<nexists>i. r = Publish i \<and> ci_owner i = NativeKeyspace k)"
    let ?Q = "\<lambda>ds ks. bt_get ks k = Some kh"
    have h: "bt_get (mi_keyspace_heads m) k = Some kh"
      using a by (simp add: get_keyspace_head_def)
    then have old: "k < mi_next_keyspace_id m"
      using ok(2) unfolding keyspaces_ok_def by blast
    show "get_keyspace_head (perform cfg r m) k = Inr kh"
    proof (cases "touches_keyspace r m = Some k")
      case True
      then obtain request where r: "r = Snapshot_Keyspace request" "ms_target request = Some k"
        using a old by (auto simp: touches_keyspace_def split: plane_request.splits mapping_owner.splits option.splits)
      then have "perform cfg r m = m"
        using h by (auto simp: snapshot_keyspace_def seqM_steps reserve_then ensure_def bt_has_iff split: sum.split)
      with a show ?thesis
        by simp
    next
      case False
      have "on_heads ?Q (perform cfg r m)"
        by (rule perform_frame) (use False h in \<open>auto simp: on_heads_def apart_from_device_def apart_from_keyspace_def bt_get_insert\<close>)
      then show ?thesis
        by (simp add: on_heads_def get_keyspace_head_def)
    qed
  }
qed

theorem requests_leave_other_owners_alone_witness:
  "get_head sample_plane 1 = Inr (sample_head 0)
    \<and> get_head (perform default_config (Restore_Device 1 (At_Commit 0)) sample_plane) 1 = Inr (sample_head 0)"
proof -
  have h: "get_head sample_plane 1 = Inr (sample_head 0)"
    by (simp add: get_head_def sample_plane_def)
  with requests_leave_other_owners_alone [OF sample_reachable, THEN conjunct1, of 1 "sample_head 0" "Restore_Device 1 (At_Commit 0)"]
  show ?thesis
    by (simp del: perform.simps)
qed

end
