(* ===== verification/Metadata_Collect.thy ===== *)
theory Metadata_Collect
  imports Metadata_Publish
begin

text \<open>
  What garbage collection achieves and what it needs: a mark followed by a sweep leaves exactly the
  nodes the roots reach, and neither can run while a live device has no checkpoint at or before the
  floor of the retention window.
\<close>

section \<open>Marks\<close>

text \<open>Only garbage collection touches the mark epochs.\<close>

definition on_marks :: "((metadata_node_id, nat) btree \<Rightarrow> nat \<Rightarrow> bool) \<Rightarrow> metadata_inner \<Rightarrow> bool" where
  "on_marks Q m = Q (mi_metadata_last_mark_epoch m) (mi_next_gc_epoch m)"

lemma allocs_marks:
  "keepsM (on_marks Q) alloc_device_id" "keepsM (on_marks Q) alloc_keyspace_id" "keepsM (on_marks Q) alloc_file_id"
  "keepsM (on_marks Q) alloc_metadata_node_id" "keepsM (on_marks Q) alloc_keyspace_root_id"
  "keepsM (on_marks Q) alloc_keyspace_catalog_shard_id" "keepsM (on_marks Q) alloc_commit_group_id"
  "keepsM (on_marks Q) alloc_commit_seq" "keepsM (on_marks Q) alloc_checkpoint_id"
  "keepsM (on_marks Q) (reserve_device_id_at_least_after d)" "keepsM (on_marks Q) (reserve_keyspace_id_at_least_after k)"
  by (auto simp: alloc_defs alloc_id_def reserve_device_id_at_least_after_def reserve_keyspace_id_at_least_after_def on_marks_def
      intro!: keepsM_rules)

lemma insert_marks:
  "keepsM (on_marks Q) (insert_checkpoint o' q roots)" "keepsM (on_marks Q) (insert_new_node r kind)"
  "keepsM (on_marks Q) (insert_keyspace_catalog_shard_locked files)" "keepsM (on_marks Q) (insert_keyspace_root_locked rs n)"
  by (auto simp: insert_checkpoint_def insert_new_node_def insert_keyspace_catalog_shard_locked_def insert_keyspace_root_locked_def
      intro!: keepsM_rules allocs_marks) (simp_all add: on_marks_def)

lemma tree_marks: "keepsM (on_marks Q) (create_empty_tree_fuel n cfg r)"
  by (induction n arbitrary: r) (auto intro!: keepsM_rules insert_marks simp: Let_def)

lemma catalog_marks:
  "keepsM (on_marks Q) insert_empty_keyspace_root_locked" "keepsM (on_marks Q) (update_keyspace_file_locked rs n f e)"
  by (auto simp: insert_empty_keyspace_root_locked_def update_keyspace_file_locked_def intro!: keepsM_rules insert_marks)

lemmas mark_rules = keepsM_rules allocs_marks insert_marks tree_marks catalog_marks

lemma anchors_marks: "keepsM (on_marks Q) (ensure_pitr_anchor_checkpoints_locked policy)"
  by (auto simp: ensure_pitr_anchor_checkpoints_locked_def ensure_block_anchor_def ensure_keyspace_anchor_def intro!: mark_rules)

lemma stream_marks: "on_marks Q (publish_stream_progress k f n st m) = on_marks Q m"
  by (auto simp: publish_stream_progress_def on_marks_def Let_def split: option.splits)

lemma advance_marks: "(\<And>m. on_marks Q (wh m) = on_marks Q m) \<Longrightarrow> keepsM (on_marks Q) (advance_keyspace k cur q g f e wh fc)"
  unfolding advance_keyspace_def by (intro mark_rules) (simp_all add: on_marks_def)

lemma shard_root_marks: "keepsM (on_marks Q) (create_shard_root cfg spec rs i)"
  unfolding create_shard_root_def create_empty_tree_def by (intro mark_rules)

lemma install_marks:
  "(\<And>n m. on_marks Q (rec n m) = on_marks Q m) \<Longrightarrow> keepsM (on_marks Q) (install_device cfg d spec roots rec)"
  "keepsM (on_marks Q) (install_keyspace k rs n)"
  unfolding install_device_def install_keyspace_def by (intro mark_rules; simp add: on_marks_def)+

lemma owner_marks:
  "keepsM (on_marks Q) (create_device cfg spec)" "keepsM (on_marks Q) (create_keyspace cfg)"
  "keepsM (on_marks Q) (create_file cfg request)" "keepsM (on_marks Q) (delete_device d)"
  unfolding create_device_def create_keyspace_def create_file_def delete_device_def create_empty_tree_def
  by (intro mark_rules shard_root_marks advance_marks; simp add: on_marks_def)+

lemma copy_marks:
  "keepsM (on_marks Q) (fork_device cfg fork)" "keepsM (on_marks Q) (restore_device cfg d point)"
  "keepsM (on_marks Q) (snapshot_keyspace snap)" "keepsM (on_marks Q) (restore_keyspace k point)"
  unfolding fork_device_def restore_device_def snapshot_keyspace_def restore_keyspace_def
  by (intro mark_rules install_marks; simp add: on_marks_def)+

lemma publish_marks: "keepsM (on_marks Q) (publish_commit_group cfg intent)"
proof (cases "ci_owner intent")
  case (BlockDevice d)
  then show ?thesis
    unfolding publish_commit_group_def publish_block_commit_def
    by simp (intro mark_rules; simp add: on_marks_def)
next
  case (NativeKeyspace k)
  then show ?thesis
    unfolding publish_commit_group_def publish_keyspace_commit_def
    by simp (intro mark_rules advance_marks; simp add: stream_marks; simp add: on_marks_def)
qed

lemma node_marks:
  "keepsM (on_marks Q) (allocate_metadata_node r kind)" "keepsM (on_marks Q) (persist_metadata_node w)"
  "keepsM (on_marks Q) (checkpoint_device d)" "keepsM (on_marks Q) (checkpoint_keyspace k)" "keepsM (on_marks Q) (roots_for_gc policy)"
  unfolding allocate_metadata_node_def persist_metadata_node_def checkpoint_device_def checkpoint_keyspace_def roots_for_gc_def Let_def
  by (intro mark_rules anchors_marks; simp add: on_marks_def)+

definition marks_ok :: "metadata_inner \<Rightarrow> bool" where
  "marks_ok = on_marks (\<lambda>marks n. 0 < n \<and> (\<forall>i e. bt_get marks i = Some e \<longrightarrow> e < n))"

lemma foldl_mark_get: "bt_get (foldl (\<lambda>t i. bt_insert i e t) t is) i = (if i \<in> set is then Some e else bt_get t i)"
  by (induction "is" arbitrary: t) auto

text \<open>The roots do not depend on the marks.\<close>

definition remark :: "nat \<Rightarrow> (metadata_node_id, nat) btree \<Rightarrow> (segment_id, nat) btree \<Rightarrow> metadata_inner \<Rightarrow> metadata_inner" where
  "remark n a b m = m\<lparr>mi_next_gc_epoch := n, mi_metadata_last_mark_epoch := a, mi_segment_last_mark_epoch := b\<rparr>"

lemma remark_fields:
  "mi_device_heads (remark n a b m) = mi_device_heads m" "mi_keyspace_heads (remark n a b m) = mi_keyspace_heads m"
  "mi_deleted_device_heads (remark n a b m) = mi_deleted_device_heads m" "mi_checkpoints (remark n a b m) = mi_checkpoints m"
  "mi_delete_records (remark n a b m) = mi_delete_records m" "mi_shard_commits (remark n a b m) = mi_shard_commits m"
  "mi_keyspace_commits (remark n a b m) = mi_keyspace_commits m" "mi_next_commit_seq (remark n a b m) = mi_next_commit_seq m"
  "mi_keyspace_catalog_shards (remark n a b m) = mi_keyspace_catalog_shards m" "mi_keyspace_roots (remark n a b m) = mi_keyspace_roots m"
  "mi_metadata_nodes (remark n a b m) = mi_metadata_nodes m"
  by (simp_all add: remark_def)

lemma remark_roots: "roots_for_gc_locked (remark n a b m) policy = roots_for_gc_locked m policy"
proof -
  let ?m = "remark n a b m"
  have cur: "current_commit_seq_locked ?m = current_commit_seq_locked m"
    by (simp add: current_commit_seq_locked_def remark_fields)
  have del: "retain_deleted_device_locked ?m policy = retain_deleted_device_locked m policy"
    by (rule ext) (simp add: retain_deleted_device_locked_def cur remark_fields cong: option.case_cong)
  have fl: "pitr_retention_floor_locked ?m policy = pitr_retention_floor_locked m policy"
    by (simp add: pitr_retention_floor_locked_def cur)
  have rp: "retain_pitr_commit_locked ?m policy = retain_pitr_commit_locked m policy"
    by (intro ext) (simp add: retain_pitr_commit_locked_def cur)
  have an: "retained_pitr_anchor_locked ?m policy = retained_pitr_anchor_locked m policy"
    by (intro ext) (simp add: retained_pitr_anchor_locked_def fl latest_checkpoint_at_or_before_floor_locked_def remark_fields cong: option.case_cong)
  have hd: "owner_has_head ?m policy o' = owner_has_head m policy o'" for o'
    by (cases o') (simp_all add: del remark_fields)
  have op: "owner_has_retained_pitr_locked ?m policy = owner_has_retained_pitr_locked m policy"
    by (intro ext) (simp add: owner_has_retained_pitr_locked_def hd)
  have sh: "collect_keyspace_shard_metadata_roots_locked ?m = collect_keyspace_shard_metadata_roots_locked m"
    by (intro ext) (simp add: collect_keyspace_shard_metadata_roots_locked_def keyspace_catalog_shard_locked_def remark_fields)
  have ks: "collect_keyspace_metadata_roots_locked ?m = collect_keyspace_metadata_roots_locked m"
    by (intro ext) (simp add: collect_keyspace_metadata_roots_locked_def keyspace_root_locked_def remark_fields sh)
  have rc: "retain_checkpoint_for_pitr_locked ?m policy = retain_checkpoint_for_pitr_locked m policy"
    by (intro ext) (simp add: retain_checkpoint_for_pitr_locked_def rp an)
  have cp: "checkpoint_gc_roots ?m policy = checkpoint_gc_roots m policy"
    by (intro ext) (simp add: checkpoint_gc_roots_def op rc ks cong: mapping_owner.case_cong)
  have sc: "retain_shard_commit_for_pitr_locked ?m policy = retain_shard_commit_for_pitr_locked m policy"
    by (intro ext) (simp add: retain_shard_commit_for_pitr_locked_def op an rp cong: option.case_cong)
  have kc: "retain_keyspace_commit_for_pitr_locked ?m policy = retain_keyspace_commit_for_pitr_locked m policy"
    by (intro ext) (simp add: retain_keyspace_commit_for_pitr_locked_def op an rp cong: option.case_cong)
  show ?thesis
    by (simp add: roots_for_gc_locked_def sh cp sc kc del remark_fields)
qed

lemma remark_reachable: "collect_reachable_locked (remark n a b m) = collect_reachable_locked m"
  by (intro ext) (simp add: collect_reachable_locked_def remark_fields)

lemma remark_epoch: "x\<lparr>mi_next_gc_epoch := n\<rparr> = remark n (mi_metadata_last_mark_epoch x) (mi_segment_last_mark_epoch x) x"
  by (simp add: remark_def)

text \<open>A mark, outcome by outcome.\<close>

definition marked :: "nat \<Rightarrow> metadata_node_id set \<Rightarrow> segment_id set \<Rightarrow> metadata_inner \<Rightarrow> metadata_inner" where
  "marked epoch V S x = remark (epoch + 1)
    (foldl (\<lambda>t i. bt_insert i epoch t) (mi_metadata_last_mark_epoch x) (sorted_list_of_set V))
    (foldl (\<lambda>t i. bt_insert i epoch t) (mi_segment_last_mark_epoch x) (sorted_list_of_set S)) x"

lemma mark_run:
  "mark_reachable_for_gc policy m =
    (case ensure_pitr_anchor_checkpoints_locked policy m of
      (Inl e, x) \<Rightarrow> (Inl e, x)
    | (Inr _, x) \<Rightarrow>
        let epoch = mi_next_gc_epoch x in
        if \<not> epoch + 1 < u64_limit then (Inl conflict, x)
        else case roots_for_gc_locked x policy of
          Inl e \<Rightarrow> (Inl e, x\<lparr>mi_next_gc_epoch := epoch + 1\<rparr>)
        | Inr roots \<Rightarrow>
            (case collect_reachable_locked x roots of
              Inl e \<Rightarrow> (Inl e, x\<lparr>mi_next_gc_epoch := epoch + 1\<rparr>)
            | Inr (V, S) \<Rightarrow> (Inr \<lparr>mr_epoch = epoch, mr_roots = roots, mr_metadata_nodes = sorted_list_of_set V,
                mr_segments = sorted_list_of_set S\<rparr>, marked epoch V S x)))"
proof (cases "ensure_pitr_anchor_checkpoints_locked policy m")
  case (Pair r x)
  have "mark_reachable_for_gc policy m = (case r of Inl e \<Rightarrow> (Inl e, x) | Inr _ \<Rightarrow>
      seqM alloc_gc_epoch (\<lambda>epoch.
      seqM (askM (\<lambda>m. roots_for_gc_locked m policy)) (\<lambda>roots.
      seqM (askM (\<lambda>m. collect_reachable_locked m roots)) (\<lambda>(nodes, segments).
      seqM (modM (\<lambda>m. m\<lparr>
        mi_metadata_last_mark_epoch := foldl (\<lambda>t i. bt_insert i epoch t) (mi_metadata_last_mark_epoch m) (sorted_list_of_set nodes),
        mi_segment_last_mark_epoch := foldl (\<lambda>t i. bt_insert i epoch t) (mi_segment_last_mark_epoch m) (sorted_list_of_set segments)\<rparr>)) (\<lambda>_.
      returnM \<lparr>mr_epoch = epoch, mr_roots = roots, mr_metadata_nodes = sorted_list_of_set nodes,
        mr_segments = sorted_list_of_set segments\<rparr>)))) x)"
    by (simp add: mark_reachable_for_gc_def seqM_known [where g = "ensure_pitr_anchor_checkpoints_locked policy" and m = m, OF Pair])
  then show ?thesis
    by (simp add: Pair alloc_gc_epoch_def seqM_alloc seqM_steps Let_def remark_epoch remark_roots remark_reachable
        split: sum.split prod.split) (simp add: marked_def remark_def returnM_def)
qed

lemma marks_keep: "(\<And>Q. keepsM (on_marks Q) f) \<Longrightarrow> marks_ok m \<Longrightarrow> marks_ok (snd (f m))"
  unfolding marks_ok_def by (rule keepsM_run)

lemma reachable_marks: "plane_reachable cfg m \<Longrightarrow> marks_ok m"
proof (induction rule: plane_reachable.induct)
  case initial
  then show ?case
    by (simp add: marks_ok_def on_marks_def metadata_new_def)
next
  case (request m r)
  note keep = marks_keep [OF _ request.IH]
  have frame: "marks_ok x" if "ensure_pitr_anchor_checkpoints_locked policy m = (res, x)" for policy res x
    using marks_keep [OF anchors_marks request.IH, of policy] that by simp
  show ?case
  proof (cases r)
    case (Gc_Mark policy)
    obtain res x where x: "ensure_pitr_anchor_checkpoints_locked policy m = (res, x)"
      by fastforce
    have "marks_ok (x\<lparr>mi_next_gc_epoch := mi_next_gc_epoch x + 1\<rparr>)" "marks_ok (marked (mi_next_gc_epoch x) V S x)" for V S
      using frame [OF x] by (auto simp: marks_ok_def on_marks_def marked_def remark_def foldl_mark_get intro: less_SucI)
    with frame [OF x] show ?thesis
      unfolding Gc_Mark perform.simps mark_run x by (auto simp: Let_def split: sum.split)
  next
    case (Gc_Sweep policy epoch)
    obtain res x where x: "ensure_pitr_anchor_checkpoints_locked policy m = (res, x)"
      by fastforce
    have "marks_ok (trim_history policy (remove_nodes cand x))" for cand
      using frame [OF x] by (auto simp: marks_ok_def on_marks_def trim_history_def Let_def remove_nodes_def bt_get_retain_key split: if_splits)
    with frame [OF x] request.IH show ?thesis
      by (auto simp: Gc_Sweep sweep_unmarked_after_mark_def seqM_steps
          seqM_known [where g = "ensure_pitr_anchor_checkpoints_locked policy" and m = m, OF x] returnM_def split: sum.splits)
  qed (simp_all add: keep owner_marks copy_marks publish_marks node_marks)
qed

section \<open>Anchors stay in place\<close>

lemma targets_same:
  assumes "mi_device_heads m' = mi_device_heads m" "mi_deleted_device_heads m' = mi_deleted_device_heads m"
    and "mi_keyspace_heads m' = mi_keyspace_heads m" "mi_next_commit_seq m' = mi_next_commit_seq m"
  shows "block_pitr_anchor_targets_locked m' policy = block_pitr_anchor_targets_locked m policy"
    "keyspace_pitr_anchor_targets_locked m' policy = keyspace_pitr_anchor_targets_locked m policy"
proof -
  have cur: "current_commit_seq_locked m' = current_commit_seq_locked m"
    by (simp add: current_commit_seq_locked_def assms)
  have del: "retain_deleted_device_locked m' policy = retain_deleted_device_locked m policy"
    by (rule ext) (simp add: retain_deleted_device_locked_def cur assms cong: option.case_cong)
  have fl: "pitr_retention_floor_locked m' policy = pitr_retention_floor_locked m policy"
    by (simp add: pitr_retention_floor_locked_def cur)
  show "block_pitr_anchor_targets_locked m' policy = block_pitr_anchor_targets_locked m policy"
    "keyspace_pitr_anchor_targets_locked m' policy = keyspace_pitr_anchor_targets_locked m policy"
    by (simp_all add: block_pitr_anchor_targets_locked_def keyspace_pitr_anchor_targets_locked_def fl del assms cong: option.case_cong)
qed

definition targets_anchored :: "metadata_inner \<Rightarrow> retention_policy \<Rightarrow> bool" where
  "targets_anchored m policy \<longleftrightarrow>
    (\<forall>(d, q)\<in>set (block_pitr_anchor_targets_locked m policy). checkpoint_exists_locked m (BlockDevice d) q)
    \<and> (\<forall>(k, q)\<in>set (keyspace_pitr_anchor_targets_locked m policy). checkpoint_exists_locked m (NativeKeyspace k) q)"

lemma checkpoint_exists_owner:
  "bt_ok (mi_checkpoints m) \<Longrightarrow> checkpoint_exists_locked m o' q \<longleftrightarrow> (\<exists>c\<in>owner_checkpoints m o'. cp_commit_seq c = q)"
  by (force simp: checkpoint_exists_locked_def list_ex_iff owner_checkpoints_def bt_values_def bt_get_iff_mem)

lemma ensure_anchors_exact:
  assumes "plane_ok m" "ensure_pitr_anchor_checkpoints_locked policy m = (Inr u, x)"
  shows "targets_anchored x policy"
proof -
  let ?bt = "block_pitr_anchor_targets_locked m policy"
  have dok: "devices_ok m"
    using assms(1) by (simp add: plane_ok_def)
  obtain r1 m1 where r1: "forM ensure_block_anchor ?bt m = (r1, m1)"
    by fastforce
  have "\<forall>(d, q)\<in>set ?bt. \<exists>h. device_any_head m d = Some h \<and> q \<le> dh_latest_commit h"
    by (clarify, drule bt_get_iff_mem [OF block_targets_ok, THEN iffD2])
      (auto simp: block_target [OF dok] split: option.splits if_splits)
  note one = block_anchors_ok [OF assms(1) this r1]
  then have a1: "anchored m m1"
    by blast
  then have ok1: "plane_ok m1"
    by (simp add: anchored_def keeps_def)
  let ?kt = "keyspace_pitr_anchor_targets_locked m1 policy"
  have kok: "bt_ok (mi_keyspace_heads m1)"
    using ok1 by (simp add: plane_ok_def keyspaces_ok_def)
  obtain r2 m2 where r2: "forM ensure_keyspace_anchor ?kt m1 = (r2, m2)"
    by fastforce
  have "\<forall>(k, q)\<in>set ?kt. \<exists>h. bt_get (mi_keyspace_heads m1) k = Some h \<and> q \<le> kh_latest_commit h"
    by (clarify, drule bt_get_iff_mem [OF keyspace_targets_ok, THEN iffD2])
      (auto simp: keyspace_target [OF kok] split: option.splits if_splits)
  note two = keyspace_anchors_ok [OF ok1 this r2]
  then have a2: "anchored m1 m2"
    by blast
  have "(Inr u, x) = (case r1 of Inl e \<Rightarrow> (Inl e, m1) | Inr _ \<Rightarrow> (r2, m2))"
    unfolding assms(2) [symmetric] ensure_pitr_anchor_checkpoints_locked_def
    by (simp add: seqM_steps seqM_def [of "forM _ _"] r1 r2 cong: sum.case_cong)
  then have eq: "r2 = Inr u" "m2 = x" "\<exists>v. r1 = Inr v"
    by (auto split: sum.splits)
  have bt: "block_pitr_anchor_targets_locked x policy = ?bt" "keyspace_pitr_anchor_targets_locked x policy = ?kt"
    using anchored_trans [OF a1 a2] a1 a2 by (intro targets_same; simp add: anchored_def eq)+
  have ok: "bt_ok (mi_checkpoints x)"
    using a2 by (simp add: anchored_def keeps_def plane_ok_def checkpoints_ok_def eq)
  show ?thesis
    unfolding targets_anchored_def bt checkpoint_exists_owner [OF ok]
    using one two eq anchored_checkpoint [OF a2] by (auto simp: case_prod_beta) fastforce+
qed

lemma targets_anchored_noop:
  assumes "targets_anchored m policy"
  shows "ensure_pitr_anchor_checkpoints_locked policy m = (Inr (), m)"
proof -
  have b: "forM ensure_block_anchor ts m = (Inr (), m)" if "\<forall>(d, q)\<in>set ts. checkpoint_exists_locked m (BlockDevice d) q" for ts
    using that by (induction ts) (auto simp: ensure_block_anchor_def run_defs)
  have k: "forM ensure_keyspace_anchor ts m = (Inr (), m)" if "\<forall>(d, q)\<in>set ts. checkpoint_exists_locked m (NativeKeyspace d) q" for ts
    using that by (induction ts) (auto simp: ensure_keyspace_anchor_def run_defs)
  show ?thesis
    using assms unfolding targets_anchored_def ensure_pitr_anchor_checkpoints_locked_def
    by (simp add: seqM_steps seqM_def [of "forM _ _"] b k)
qed

lemma targets_anchored_remark: "targets_anchored (remark n a b m) policy = targets_anchored m policy"
  by (simp add: targets_anchored_def targets_same [of "remark n a b m" m] remark_fields checkpoint_exists_locked_def)

section \<open>Garbage is collected\<close>

text \<open>
  C32: Garbage is collected.  After a successful mark, the sweep of the same epoch and policy always
  succeeds, and the nodes it leaves are exactly the nodes reachable from the mark's roots, each as
  it was before.
\<close>

theorem mark_then_sweep_is_exact:
  assumes "plane_reachable cfg m" "mark_reachable_for_gc policy m = (Inr mark, m1)"
  shows "\<exists>report m2. sweep_unmarked_after_mark policy (mr_epoch mark) m1 = (Inr report, m2)
    \<and> (\<forall>i. bt_get (mi_metadata_nodes m2) i =
        (if i \<in> reach (mi_metadata_nodes m) (set (mr_roots mark)) then bt_get (mi_metadata_nodes m) i else None))
    \<and> (\<forall>i\<in>reach (mi_metadata_nodes m) (set (mr_roots mark)). bt_has (mi_metadata_nodes m2) i)"
proof -
  have ok: "plane_ok m" and marks: "marks_ok m"
    using assms(1) by (simp_all add: reachable_ok reachable_marks)
  obtain r x where x: "ensure_pitr_anchor_checkpoints_locked policy m = (r, x)"
    by fastforce
  have ax: "anchored m x"
    using ensure_anchors_ok [OF ok x] by blast
  let ?e = "mi_next_gc_epoch x"
  from assms(2) x obtain V S where r: "r = Inr ()" and roots: "roots_for_gc_locked x policy = Inr (mr_roots mark)"
    and V: "collect_reachable_locked x (mr_roots mark) = Inr (V, S)" and e: "mr_epoch mark = ?e" and m1: "m1 = marked ?e V S x"
    by (auto simp: mark_run Let_def split: sum.splits if_splits)
  have ta: "targets_anchored x policy"
    using ensure_anchors_exact [OF ok] x r by simp
  have same: "roots_for_gc_locked m1 policy = Inr (mr_roots mark)" "collect_reachable_locked m1 (mr_roots mark) = Inr (V, S)"
    "ensure_pitr_anchor_checkpoints_locked policy m1 = (Inr (), m1)"
    using roots V targets_anchored_noop [of m1 policy] ta
    by (simp_all add: m1 marked_def remark_roots remark_reachable targets_anchored_remark)
  have nodes: "mi_metadata_nodes m1 = mi_metadata_nodes m" "mi_metadata_nodes x = mi_metadata_nodes m"
    using ax by (simp_all add: m1 marked_def remark_fields anchored_def)
  have fin: "finite V"
  proof -
    have "V \<subseteq> set (bt_keys (mi_metadata_nodes m))"
      using collect_reachable_Inr(2) [OF V] by (auto simp: bt_keys_iff bt_has_iff nodes)
    then show ?thesis
      by (rule finite_subset) simp
  qed
  have old: "bt_get (mi_metadata_last_mark_epoch m) i \<noteq> Some ?e" for i
    using marks ax by (auto simp: marks_ok_def on_marks_def anchored_def)
  have mark_iff: "bt_get (mi_metadata_last_mark_epoch m1) i = Some ?e \<longleftrightarrow> i \<in> V" for i
    using old ax fin by (simp add: m1 marked_def remark_def foldl_mark_get anchored_def)
  let ?cand = "filter (\<lambda>i. bt_get (mi_metadata_last_mark_epoch m1) i \<noteq> Some ?e \<and> i \<notin> V) (bt_keys (mi_metadata_nodes m1))"
  let ?m2 = "trim_history policy (remove_nodes ?cand m1)"
  have "0 < ?e" "?e < mi_next_gc_epoch m1"
    using marks ax by (simp_all add: marks_ok_def on_marks_def anchored_def m1 marked_def remark_def)
  then obtain report where "sweep_unmarked_after_mark policy (mr_epoch mark) m1 = (Inr report, ?m2)"
    by (simp add: e sweep_unmarked_after_mark_def seqM_steps same ensure_def
        seqM_known [where g = "ensure_pitr_anchor_checkpoints_locked policy" and m = m1, OF same(3)] returnM_def)
  moreover have "bt_get (mi_metadata_nodes ?m2) i = (if i \<in> V then bt_get (mi_metadata_nodes m) i else None)" for i
    by (auto simp: trim_history_def Let_def remove_nodes_def bt_get_retain_key nodes mark_iff bt_keys_iff)
  moreover have "V = reach (mi_metadata_nodes m) (set (mr_roots mark))" "\<forall>i\<in>V. bt_has (mi_metadata_nodes m) i"
    using collect_reachable_Inr(1,2) [OF V] by (simp_all add: nodes)
  ultimately show ?thesis
    by (intro exI [of _ report] exI [of _ ?m2]) (auto simp: bt_has_iff)
qed

text \<open>A plane with a node no head refers to: it is gone after a mark and a sweep.\<close>

definition sample_garbage :: metadata_inner where
  "sample_garbage = sample_plane\<lparr>mi_next_metadata_node_id := 3,
    mi_metadata_nodes := mi_metadata_nodes sample_plane
      @ [(2, \<lparr>mn_node_id = 2, mn_covered_range = \<lparr>range_start = 0, range_blocks = 8\<rparr>, mn_kind = Leaf [] []\<rparr>)]\<rparr>"

definition sample_orphan :: metadata_node_write where
  "sample_orphan = \<lparr>mw_node = \<lparr>mn_node_id = 2, mn_covered_range = \<lparr>range_start = 0, range_blocks = 8\<rparr>, mn_kind = Leaf [] []\<rparr>,
    mw_segment_receipts = []\<rparr>"

lemma sample_garbage_run:
  "run_plane default_config [Allocate_Node \<lparr>range_start = 0, range_blocks = 8\<rparr> (Leaf [] []), Persist_Node sample_orphan] sample_plane = sample_garbage"
  by (simp add: sample_garbage_def sample_plane_def sample_orphan_def allocate_metadata_node_def persist_metadata_node_def
      plane_eval segment_descriptors_def validate_node_def validate_leaf_entries_def validate_run_backed_file_extents_def
      validate_non_empty_def end_exclusive_def is_empty_def)

lemma sample_garbage_reachable: "plane_reachable default_config sample_garbage"
proof -
  have "plane_reachable default_config (perform default_config (Allocate_Node \<lparr>range_start = 0, range_blocks = 8\<rparr> (Leaf [] [])) sample_plane)"
    by (rule plane_reachable.request [OF sample_reachable]) (simp add: admissible_def)
  then have "plane_reachable default_config (run_plane default_config
      [Allocate_Node \<lparr>range_start = 0, range_blocks = 8\<rparr> (Leaf [] []), Persist_Node sample_orphan] sample_plane)"
    unfolding run_plane.simps
    by (rule plane_reachable.request)
      (simp add: admissible_def sample_orphan_def allocate_metadata_node_def plane_eval sample_plane_def)
  then show ?thesis
    unfolding sample_garbage_run .
qed

theorem mark_then_sweep_is_exact_witness:
  "\<exists>mark m1 report m2. mark_reachable_for_gc sample_policy sample_garbage = (Inr mark, m1)
    \<and> sweep_unmarked_after_mark sample_policy (mr_epoch mark) m1 = (Inr report, m2)
    \<and> bt_has (mi_metadata_nodes sample_garbage) 2 \<and> bt_get (mi_metadata_nodes m2) 2 = None
    \<and> bt_has (mi_metadata_nodes m2) 1"
proof -
  obtain mark m1 where run: "mark_reachable_for_gc sample_policy sample_garbage = (Inr mark, m1)" and roots: "mr_roots mark = [1]"
    by (simp add: sample_garbage_def sample_plane_def sample_head_def sample_policy_def mark_reachable_for_gc_def plane_eval gc_eval)
  have r: "reach (mi_metadata_nodes sample_garbage) {1} = {1}"
    using reach_least [of "{1}" "{1}" "mi_metadata_nodes sample_garbage"]
    by (auto simp: child_ids_def sample_garbage_def sample_plane_def intro: reach.root)
  have "bt_has (mi_metadata_nodes sample_garbage) 2"
    by (simp add: sample_garbage_def sample_plane_def bt_has_iff)
  moreover obtain report m2 where "sweep_unmarked_after_mark sample_policy (mr_epoch mark) m1 = (Inr report, m2)"
      "bt_get (mi_metadata_nodes m2) 2 = None" "bt_has (mi_metadata_nodes m2) 1"
    using mark_then_sweep_is_exact [OF sample_garbage_reachable run] by (auto simp: roots r [unfolded One_nat_def])
  ultimately show ?thesis
    using run by blast
qed

section \<open>What garbage collection needs\<close>

lemma forM_fails:
  assumes "bad \<in> set xs" "P s" "\<And>x s. x \<in> set xs \<Longrightarrow> x \<noteq> bad \<Longrightarrow> P s \<Longrightarrow> P (snd (f x s))" "\<And>s. P s \<Longrightarrow> \<exists>e t. f bad s = (Inl e, t)"
  shows "\<exists>e t. forM f xs s = (Inl e, t)"
  using assms
proof (induction xs arbitrary: s)
  case (Cons x xs)
  show ?case
  proof (cases "x = bad")
    case True
    with Cons.prems show ?thesis
      by (fastforce simp: seqM_def)
  next
    case False
    obtain r t where t: "f x s = (r, t)"
      by fastforce
    have "P t"
      using Cons.prems(3) [of x s] False Cons.prems(2) t by simp
    then have "\<exists>e u. forM f xs t = (Inl e, u)"
      using Cons False by auto
    with t show ?thesis
      by (cases r) (auto simp: seqM_def)
  qed
qed simp

text \<open>No checkpoint of the device is at or before the sequence number.\<close>

definition unanchored :: "device_id \<Rightarrow> commit_seq \<Rightarrow> metadata_inner \<Rightarrow> bool" where
  "unanchored d q m \<longleftrightarrow> (\<forall>c\<in>set (bt_values (mi_checkpoints m)). cp_owner c = BlockDevice d \<longrightarrow> q < cp_commit_seq c)"

lemma unanchored_fails:
  assumes "unanchored d q m"
  shows "ensure_block_anchor (d, q) m = (Inl (not_found K_checkpoint), m)"
proof -
  have "filter (\<lambda>c. cp_owner c = BlockDevice d \<and> cp_commit_seq c \<le> q \<and> Some (cp_checkpoint_id c) \<noteq> None) (bt_values (mi_checkpoints m)) = []"
    using assms by (auto simp: unanchored_def filter_empty_conv)
  then have "latest_device_checkpoint_at_or_before_locked m d q None = None"
    by (simp add: latest_device_checkpoint_at_or_before_locked_def)
  moreover have "\<not> checkpoint_exists_locked m (BlockDevice d) q"
    using assms by (auto simp: unanchored_def checkpoint_exists_locked_def list_ex_iff)
  ultimately show ?thesis
    by (simp add: ensure_block_anchor_def replay_device_roots_locked_def seqM_steps)
qed

lemma bt_insert_values: "v \<in> set (bt_values (bt_insert k x t)) \<Longrightarrow> v = x \<or> v \<in> set (bt_values t)"
  by (induction t) (auto simp: bt_values_def split: if_splits)

lemma unanchored_other:
  assumes "unanchored d q m" "d' \<noteq> d"
  shows "unanchored d q (snd (ensure_block_anchor (d', q') m))"
proof -
  have "unanchored d q (with_checkpoint (BlockDevice d') q' roots m)" for roots
    using assms by (auto simp: unanchored_def with_checkpoint_def new_checkpoint_def dest!: bt_insert_values)
  with assms(1) show ?thesis
    by (auto simp: ensure_block_anchor_def seqM_steps insert_checkpoint_run seqM_def [of "insert_checkpoint _ _ _"] run_done split: sum.splits)
qed

text \<open>
  C36: Garbage collection cannot run while a live device has no checkpoint at or before the floor of
  the retention window: marking, sweeping and listing the roots all fail.  A device that was forked
  or restored inside the window is in this situation, since its first checkpoint is the commit that
  created it; so is every device once a sweep without a window has dropped all checkpoints.
\<close>

theorem gc_needs_a_checkpoint_at_the_floor:
  assumes "plane_reachable cfg m" "get_head m d = Inr h" "pitr_retention_floor_locked m policy = Some floor"
    and "\<forall>c\<in>set (bt_values (mi_checkpoints m)). cp_owner c = BlockDevice d \<longrightarrow> floor < cp_commit_seq c"
  shows "(\<exists>e. fst (mark_reachable_for_gc policy m) = Inl e) \<and> (\<exists>e. fst (sweep_unmarked_after_mark policy epoch m) = Inl e)
    \<and> (\<exists>e. fst (roots_for_gc policy m) = Inl e)"
proof -
  have dok: "devices_ok m"
    using reachable_ok [OF assms(1)] by (simp add: plane_ok_def)
  let ?bt = "block_pitr_anchor_targets_locked m policy"
  have live: "bt_get (mi_device_heads m) d = Some h"
    using assms(2) by (simp add: get_head_def)
  let ?q = "min floor (dh_latest_commit h)"
  have target: "bt_get ?bt d = Some ?q"
    using live assms(3) by (simp add: block_target [OF dok] device_any_head_def bt_has_iff)
  then have mem: "(d, ?q) \<in> set ?bt"
    by (rule bt_get_mem)
  have un: "unanchored d ?q m"
    using assms(4) by (auto simp: unanchored_def)
  have only: "t = (d, ?q)" if "t \<in> set ?bt" "fst t = d" for t
  proof -
    have "(d, snd t) \<in> set ?bt"
      using that by (metis prod.collapse)
    then have "snd t = ?q"
      using target by (simp flip: bt_get_iff_mem [OF block_targets_ok])
    then show ?thesis
      using that(2) by (simp add: prod_eq_iff)
  qed
  have "\<exists>e x. forM ensure_block_anchor ?bt m = (Inl e, x)"
  proof (rule forM_fails [where P = "unanchored d ?q", OF mem un])
    fix t s
    assume "t \<in> set ?bt" "t \<noteq> (d, ?q)" "unanchored d ?q s"
    moreover have "fst t \<noteq> d"
      using only calculation by blast
    ultimately show "unanchored d ?q (snd (ensure_block_anchor t s))"
      using unanchored_other [of d ?q s "fst t" "snd t"] by simp
  qed (use unanchored_fails in blast)
  then obtain e x where "ensure_pitr_anchor_checkpoints_locked policy m = (Inl e, x)"
    by (auto simp: ensure_pitr_anchor_checkpoints_locked_def seqM_steps seqM_def [of "forM _ _"])
  note stop = seqM_known [where g = "ensure_pitr_anchor_checkpoints_locked policy" and m = m, OF this]
  show ?thesis
    by (auto simp: mark_reachable_for_gc_def sweep_unmarked_after_mark_def roots_for_gc_def stop seqM_steps ensure_def)
qed

definition sample_forked :: metadata_inner where
  "sample_forked = perform default_config (Fork_Device \<lparr>mk_source = 1, mk_target = None, mk_name = None\<rparr>) sample_plane"

lemma sample_forked_run:
  "mi_device_heads sample_forked =
    [(1, sample_head 0), (2, \<lparr>dh_device_id = 2, dh_generation = 0, dh_shard_roots = [1], dh_latest_commit = 1\<rparr>)]"
  "map cp_owner (bt_values (mi_checkpoints sample_forked)) = [BlockDevice 1, BlockDevice 2]"
  "map cp_commit_seq (bt_values (mi_checkpoints sample_forked)) = [0, 1]"
  "mi_next_commit_seq sample_forked = 2"
  by (simp_all add: sample_forked_def sample_plane_def sample_head_def fork_device_def install_device_def get_head_def
      seq_checkpoint plane_eval validate_device_head_def sample_spec_def with_checkpoint_def new_checkpoint_def default_config_def)

theorem gc_needs_a_checkpoint_at_the_floor_witness:
  "\<exists>e. fst (mark_reachable_for_gc retain_everything sample_forked) = Inl e"
proof -
  have "plane_reachable default_config sample_forked"
    unfolding sample_forked_def by (rule plane_reachable.request [OF sample_reachable]) (simp add: admissible_def)
  moreover have "get_head sample_forked 2 = Inr \<lparr>dh_device_id = 2, dh_generation = 0, dh_shard_roots = [1], dh_latest_commit = 1\<rparr>"
    by (simp add: get_head_def sample_forked_run)
  moreover have "pitr_retention_floor_locked sample_forked retain_everything = Some 0"
    by (simp add: pitr_retention_floor_locked_def retain_everything_def current_commit_seq_locked_def sample_forked_run
        saturating_sub_def u64_limit_def)
  moreover have "\<forall>c\<in>set (bt_values (mi_checkpoints sample_forked)). cp_owner c = BlockDevice 2 \<longrightarrow> 0 < cp_commit_seq c"
    using sample_forked_run(2,3) by (auto simp: map_eq_Cons_conv)
  ultimately show ?thesis
    by (intro gc_needs_a_checkpoint_at_the_floor [THEN conjunct1])
qed

end
