(* ===== verification/Run_Extents.thy ===== *)
theory Run_Extents
  imports Leaf_Edit "HOL-Library.Product_Lexorder" "HOL-Library.Multiset"
begin

text \<open>
  Run-backed file extents (\<^verbatim>\<open>object.rs\<close>: coalescing of append-log run ranges, visible publish
  records and their replay; \<^verbatim>\<open>local/metadata_tree.rs\<close>: slicing and replacing run extents).  A list
  of extents denotes a map from file offsets to log positions.  A replacement is shown to override
  exactly the replaced byte range of that map, and the replay of publish records to extend a file
  by a gapless suffix, whatever the order in which the records arrive.
\<close>

section \<open>Coalescing run ranges\<close>

definition can_coalesce_with :: "append_log_run_range \<Rightarrow> append_log_run_range \<Rightarrow> bool result" where
  "can_coalesce_with self nxt =
    (if rr_run_id self = rr_run_id nxt \<and> rr_storage_node self = rr_storage_node nxt
       \<and> rr_stream_id self = rr_stream_id nxt \<and> rr_writer_epoch self = rr_writer_epoch nxt
       \<and> rr_keyspace_id self = rr_keyspace_id nxt \<and> rr_file_id self = rr_file_id nxt
       \<and> rr_log_id self = rr_log_id nxt \<and> rr_integrity self = rr_integrity nxt
     then
       andThen (rr_file_offset_end self) (\<lambda>file_end.
       if file_end = rr_file_offset_start nxt
       then andThen (rr_log_payload_end self) (\<lambda>log_end. Inr (log_end = rr_log_payload_offset nxt))
       else Inr False)
     else Inr False)"

definition coalesce_run_step :: "append_log_run_range list \<Rightarrow> append_log_run_range \<Rightarrow> append_log_run_range list result" where
  "coalesce_run_step coalesced r =
    andThen (validate_run_range r) (\<lambda>_.
    if coalesced = [] then Inr [r]
    else
      let previous = last coalesced in
      andThen (rr_file_offset_end previous) (\<lambda>previous_end.
      andThen (ensure (\<not> rr_file_offset_start r < previous_end) invalid_argument) (\<lambda>_.
      andThen (can_coalesce_with previous r) (\<lambda>joins.
      if joins then
        andThen (ok_or (checked_add_u64 (rr_payload_len previous) (rr_payload_len r)) invalid_argument) (\<lambda>len.
        Inr (butlast coalesced @ [previous\<lparr>rr_payload_len := len\<rparr>]))
      else Inr (coalesced @ [r])))))"

definition run_sort_key :: "append_log_run_range \<Rightarrow> nat \<times> nat \<times> nat \<times> nat \<times> nat" where
  "run_sort_key r =
    (rr_file_offset_start r, rr_storage_node r, rr_log_id r, rr_log_payload_offset r, rr_run_id r)"

definition coalesce_append_log_run_ranges :: "append_log_run_range list \<Rightarrow> append_log_run_range list result" where
  "coalesce_append_log_run_ranges ranges = foldR coalesce_run_step [] (sort_key run_sort_key ranges)"

section \<open>Slicing and replacing extents\<close>

definition run_extent_end :: "run_backed_file_extent \<Rightarrow> nat result" where
  "run_extent_end x = ok_or (checked_add_u64 (rx_file_offset_start x) (rx_payload_len x)) invalid_argument"

definition byte_ranges_overlap :: "nat \<Rightarrow> nat \<Rightarrow> nat \<Rightarrow> nat \<Rightarrow> bool" where
  "byte_ranges_overlap a_start a_end b_start b_end \<longleftrightarrow> a_start < b_end \<and> b_start < a_end"

definition slice_run_extent :: "run_backed_file_extent \<Rightarrow> nat \<Rightarrow> nat \<Rightarrow> run_backed_file_extent option result" where
  "slice_run_extent x start stop =
    (if start \<ge> stop then Inr None
     else
       andThen (run_extent_end x) (\<lambda>extent_end.
       andThen (ensure (\<not> (start < rx_file_offset_start x \<or> extent_end < stop)) invalid_argument) (\<lambda>_.
       let delta = start - rx_file_offset_start x;
           integrity = (if start = rx_file_offset_start x \<and> stop = extent_end
             then rr_integrity (rx_run x) else Payload_Unchecked) in
       andThen (ok_or (checked_add_u64 (rr_log_payload_offset (rx_run x)) delta) invalid_argument) (\<lambda>log_payload_offset.
       Inr (Some \<lparr>rx_file_offset_start = start, rx_payload_len = stop - start,
         rx_run = (rx_run x)\<lparr>rr_file_offset_start := start, rr_payload_len := stop - start,
           rr_log_payload_offset := log_payload_offset, rr_integrity := integrity\<rparr>\<rparr>)))))"

definition carve_run_extent :: "byte_range \<Rightarrow> run_backed_file_extent \<Rightarrow> run_backed_file_extent list result" where
  "carve_run_extent replaced x =
    andThen (byte_end replaced) (\<lambda>replacement_end.
    andThen (validate_run_extent x) (\<lambda>_.
    andThen (run_extent_end x) (\<lambda>extent_end.
    if \<not> byte_ranges_overlap (rx_file_offset_start x) extent_end (byte_offset replaced) replacement_end
    then Inr [x]
    else
      andThen (if rx_file_offset_start x < byte_offset replaced
        then slice_run_extent x (rx_file_offset_start x) (min (byte_offset replaced) extent_end)
        else Inr None) (\<lambda>left.
      andThen (if extent_end > replacement_end
        then slice_run_extent x (max replacement_end (rx_file_offset_start x)) extent_end
        else Inr None) (\<lambda>right.
      Inr ((case left of None \<Rightarrow> [] | Some l \<Rightarrow> [l]) @ (case right of None \<Rightarrow> [] | Some r \<Rightarrow> [r])))))))"

definition extent_of_run :: "append_log_run_range \<Rightarrow> run_backed_file_extent" where
  "extent_of_run run = \<lparr>rx_file_offset_start = rr_file_offset_start run, rx_payload_len = rr_payload_len run, rx_run = run\<rparr>"

definition replace_run_backed_file_extents ::
  "run_backed_file_extent list \<Rightarrow> byte_range \<Rightarrow> run_backed_file_extent list \<Rightarrow> run_backed_file_extent list result" where
  "replace_run_backed_file_extents extents replaced replacements =
    andThen (byte_end replaced) (\<lambda>_.
    andThen (mapR (carve_run_extent replaced) extents) (\<lambda>pieces.
    andThen (coalesce_append_log_run_ranges (map rx_run (concat pieces @ replacements))) (\<lambda>ranges.
    mapR (\<lambda>run. andThen (validate_run_extent (extent_of_run run)) (\<lambda>_. Inr (extent_of_run run))) ranges)))"

section \<open>Visible publish records\<close>

record append_visible_publish =
  vp_record_id :: nat
  vp_commit_seq :: commit_seq
  vp_keyspace_id :: keyspace_id
  vp_file_id :: file_id
  vp_base_writer_epoch :: writer_epoch
  vp_writer_epoch :: writer_epoch
  vp_base_file_version :: file_version
  vp_new_file_version :: file_version
  vp_old_size :: nat
  vp_new_size :: nat
  vp_publish_through :: nat
  vp_run_extents :: "run_backed_file_extent list"

definition visible_extent_step :: "append_visible_publish \<Rightarrow> nat \<Rightarrow> run_backed_file_extent \<Rightarrow> nat result" where
  "visible_extent_step v next_offset x =
    andThen (validate_run_extent x) (\<lambda>_.
    andThen (ensure (rx_file_offset_start x = next_offset) invalid_argument) (\<lambda>_.
    andThen (ensure (\<not> (rr_keyspace_id (rx_run x) \<noteq> vp_keyspace_id v \<or> rr_file_id (rx_run x) \<noteq> vp_file_id v
      \<or> rr_writer_epoch (rx_run x) \<noteq> vp_writer_epoch v)) invalid_argument) (\<lambda>_.
    andThen (ok_or (checked_add_u64 next_offset (rx_payload_len x)) invalid_argument) (\<lambda>e.
    andThen (ensure (\<not> vp_new_size v < e) invalid_argument) (\<lambda>_.
    Inr e)))))"

definition validate_visible_publish :: "append_visible_publish \<Rightarrow> unit result" where
  "validate_visible_publish v =
    andThen (ensure (vp_commit_seq v \<noteq> 0) invalid_argument) (\<lambda>_.
    andThen (ensure (\<not> vp_new_size v \<le> vp_old_size v) invalid_argument) (\<lambda>_.
    andThen (ensure (\<not> vp_writer_epoch v < vp_base_writer_epoch v) invalid_argument) (\<lambda>_.
    andThen (ensure (vp_publish_through v = vp_new_size v) invalid_argument) (\<lambda>_.
    andThen (ok_or (checked_add_u64 (vp_base_file_version v) 1) invalid_argument) (\<lambda>expected_version.
    andThen (ensure (vp_new_file_version v = expected_version) invalid_argument) (\<lambda>_.
    andThen (ensure (vp_run_extents v \<noteq> []) invalid_argument) (\<lambda>_.
    andThen (foldR (visible_extent_step v) (vp_old_size v) (vp_run_extents v)) (\<lambda>next_offset.
    ensure (next_offset = vp_new_size v) invalid_argument))))))))"

text \<open>The file state a replay has reached.\<close>

record publish_cursor =
  pc_writer_epoch :: writer_epoch
  pc_file_version :: file_version
  pc_size :: nat
  pc_commit_seq :: commit_seq
  pc_run_extents :: "run_backed_file_extent list"

definition validate_for_reconstructed_head ::
  "append_visible_publish \<Rightarrow> keyspace_id \<Rightarrow> file_id \<Rightarrow> file_version \<Rightarrow> nat \<Rightarrow> commit_seq \<Rightarrow> unit result" where
  "validate_for_reconstructed_head v keyspace_id file_id version file_size latest_commit =
    andThen (validate_visible_publish v) (\<lambda>_.
    andThen (ensure (\<not> (vp_keyspace_id v \<noteq> keyspace_id \<or> vp_file_id v \<noteq> file_id
      \<or> vp_base_file_version v \<noteq> version \<or> vp_old_size v \<noteq> file_size)) invalid_argument) (\<lambda>_.
    ensure (\<not> vp_commit_seq v \<le> latest_commit) invalid_argument))"

definition publish_advance :: "publish_cursor \<Rightarrow> append_visible_publish \<Rightarrow> publish_cursor" where
  "publish_advance c v =
    \<lparr>pc_writer_epoch = max (pc_writer_epoch c) (vp_writer_epoch v), pc_file_version = vp_new_file_version v,
     pc_size = vp_new_size v, pc_commit_seq = vp_commit_seq v, pc_run_extents = pc_run_extents c @ vp_run_extents v\<rparr>"

definition publish_applies :: "publish_cursor \<Rightarrow> append_visible_publish \<Rightarrow> bool" where
  "publish_applies c v \<longleftrightarrow> vp_base_file_version v = pc_file_version c \<and> vp_old_size v = pc_size c"

definition publish_step :: "keyspace_id \<Rightarrow> file_id \<Rightarrow> publish_cursor \<Rightarrow> append_visible_publish \<Rightarrow> publish_cursor result" where
  "publish_step keyspace_id file_id c v =
    andThen (validate_for_reconstructed_head v keyspace_id file_id (pc_file_version c) (pc_size c) (pc_commit_seq c)) (\<lambda>_.
    Inr (publish_advance c v))"

function replay_loop ::
  "keyspace_id \<Rightarrow> file_id \<Rightarrow> publish_cursor \<Rightarrow> append_visible_publish list \<Rightarrow> (publish_cursor \<times> append_visible_publish list) result"
where
  "replay_loop keyspace_id file_id c remaining =
    (case List.extract (publish_applies c) remaining of
      None \<Rightarrow> Inr (c, remaining)
    | Some (front, record, rest) \<Rightarrow>
        (case publish_step keyspace_id file_id c record of
          Inl e \<Rightarrow> Inl e
        | Inr c' \<Rightarrow> replay_loop keyspace_id file_id c' (front @ rest)))"
  by pat_completeness auto
termination
  by (relation "measure (\<lambda>(_, _, _, remaining). length remaining)") (auto dest: extract_SomeE)

record append_visible_publish_replay =
  ar_keyspace_id :: keyspace_id
  ar_file_id :: file_id
  ar_base_writer_epoch :: writer_epoch
  ar_base_file_version :: file_version
  ar_base_size :: nat
  ar_base_commit_seq :: commit_seq
  ar_latest_writer_epoch :: writer_epoch
  ar_latest_file_version :: file_version
  ar_latest_size :: nat
  ar_latest_commit_seq :: commit_seq
  ar_run_extents :: "run_backed_file_extent list"

definition publish_sort_key :: "append_visible_publish \<Rightarrow> nat \<times> nat \<times> nat \<times> nat" where
  "publish_sort_key v = (vp_base_file_version v, vp_old_size v, vp_new_file_version v, vp_record_id v)"

definition replay_append_visible_publishes_for_file ::
  "keyspace_id \<Rightarrow> file_id \<Rightarrow> writer_epoch \<Rightarrow> file_version \<Rightarrow> nat \<Rightarrow> commit_seq \<Rightarrow> append_visible_publish list
    \<Rightarrow> append_visible_publish_replay result" where
  "replay_append_visible_publishes_for_file keyspace_id file_id base_writer_epoch base_file_version base_size base_commit_seq
      records =
    andThen (replay_loop keyspace_id file_id
      \<lparr>pc_writer_epoch = base_writer_epoch, pc_file_version = base_file_version, pc_size = base_size,
       pc_commit_seq = base_commit_seq, pc_run_extents = []\<rparr> (sort_key publish_sort_key records)) (\<lambda>(c, remaining).
    andThen (ensure (remaining = []) invalid_argument) (\<lambda>_.
    Inr \<lparr>ar_keyspace_id = keyspace_id, ar_file_id = file_id, ar_base_writer_epoch = base_writer_epoch,
      ar_base_file_version = base_file_version, ar_base_size = base_size, ar_base_commit_seq = base_commit_seq,
      ar_latest_writer_epoch = pc_writer_epoch c, ar_latest_file_version = pc_file_version c, ar_latest_size = pc_size c,
      ar_latest_commit_seq = pc_commit_seq c, ar_run_extents = pc_run_extents c\<rparr>))"

section \<open>The map a list of runs denotes\<close>

definition run_end :: "append_log_run_range \<Rightarrow> nat" where
  "run_end r = rr_file_offset_start r + rr_payload_len r"

text \<open>The log position that holds a file offset.\<close>

definition run_value :: "append_log_run_range \<Rightarrow> nat \<Rightarrow> storage_node_id \<times> nat \<times> nat" where
  "run_value r p = (rr_storage_node r, rr_log_id r, rr_log_payload_offset r + (p - rr_file_offset_start r))"

abbreviation runs_at :: "append_log_run_range list \<Rightarrow> nat \<Rightarrow> (storage_node_id \<times> nat \<times> nat) option" where
  "runs_at \<equiv> extent_at rr_file_offset_start run_end run_value"

abbreviation runs_sorted :: "append_log_run_range list \<Rightarrow> bool" where
  "runs_sorted \<equiv> extents_sorted rr_file_offset_start run_end"

definition run_valid :: "append_log_run_range \<Rightarrow> bool" where
  "run_valid r \<longleftrightarrow> 0 < rr_payload_len r \<and> run_end r < u64_limit \<and> rr_log_payload_offset r + rr_payload_len r < u64_limit"

lemma validate_run_range_Inr [simp]: "validate_run_range r = Inr u \<longleftrightarrow> run_valid r"
  by (auto simp: validate_run_range_def rr_file_offset_end_def rr_log_payload_end_def run_valid_def run_end_def)

lemma validate_run_extent_Inr [simp]:
  "validate_run_extent x = Inr u \<longleftrightarrow> run_valid (rx_run x)
    \<and> rx_file_offset_start x = rr_file_offset_start (rx_run x) \<and> rx_payload_len x = rr_payload_len (rx_run x)"
  by (auto simp: validate_run_extent_def run_valid_def)

lemma extent_of_run_rx:
  "rx_file_offset_start x = rr_file_offset_start (rx_run x) \<Longrightarrow> rx_payload_len x = rr_payload_len (rx_run x) \<Longrightarrow>
    extent_of_run (rx_run x) = x"
  by (simp add: extent_of_run_def)

lemma extent_of_run_sel [simp]:
  "rx_file_offset_start (extent_of_run r) = rr_file_offset_start r" "rx_payload_len (extent_of_run r) = rr_payload_len r"
  "rx_run (extent_of_run r) = r"
  by (simp_all add: extent_of_run_def)

definition carve_run :: "nat \<Rightarrow> nat \<Rightarrow> append_log_run_range \<Rightarrow> append_log_run_range list result" where
  "carve_run a b r = andThen (carve_run_extent (mk_bytes a (b - a)) (extent_of_run r)) (\<lambda>xs. Inr (map rx_run xs))"

text \<open>A slice of an extent, as a slice of its run.\<close>

definition run_slice :: "append_log_run_range \<Rightarrow> nat \<Rightarrow> nat \<Rightarrow> segment_payload_integrity \<Rightarrow> append_log_run_range" where
  "run_slice r start stop i = r\<lparr>rr_file_offset_start := start, rr_payload_len := stop - start,
    rr_log_payload_offset := rr_log_payload_offset r + (start - rr_file_offset_start r), rr_integrity := i\<rparr>"

lemma run_slice_sel:
  "rr_file_offset_start (run_slice r a b i) = a" "a \<le> b \<Longrightarrow> run_end (run_slice r a b i) = b"
  "rr_payload_len (run_slice r a b i) = b - a"
  "rr_log_payload_offset (run_slice r a b i) = rr_log_payload_offset r + (a - rr_file_offset_start r)"
  "rr_file_offset_start r \<le> a \<Longrightarrow> a \<le> p \<Longrightarrow> run_value (run_slice r a b i) p = run_value r p"
  by (simp_all add: run_slice_def run_end_def run_value_def)

lemma run_slice_valid:
  "run_valid r \<Longrightarrow> rr_file_offset_start r \<le> a \<Longrightarrow> a < b \<Longrightarrow> b \<le> run_end r \<Longrightarrow> run_valid (run_slice r a b i)"
  by (simp add: run_valid_def run_slice_sel) (auto simp: run_end_def)

lemma slice_run_extent_run:
  assumes "slice_run_extent (extent_of_run r) start stop = Inr x" "start < stop"
  shows "\<exists>i y. x = Some y \<and> rx_run y = run_slice r start stop i"
proof -
  obtain i where "x = Some \<lparr>rx_file_offset_start = start, rx_payload_len = stop - start, rx_run = run_slice r start stop i\<rparr>"
    using assms by (force simp: slice_run_extent_def Let_def run_slice_def simp del: append_log_run_range.update_convs)
  then show ?thesis
    by auto
qed

lemma carve_run_cases:
  assumes "carve_run a b r = Inr ps" "a < b"
  shows "run_valid r" "(run_end r \<le> a \<or> b \<le> rr_file_offset_start r) \<and> ps = [r] \<or>
    (rr_file_offset_start r < b \<and> a < run_end r \<and> (\<exists>i j. ps =
      (if rr_file_offset_start r < a then [run_slice r (rr_file_offset_start r) a i] else []) @
      (if b < run_end r then [run_slice r b (run_end r) j] else [])))"
proof -
  let ?x = "extent_of_run r" and ?s = "rr_file_offset_start r" and ?e = "run_end r"
  obtain xs where xs: "carve_run_extent (mk_bytes a (b - a)) ?x = Inr xs" and ps: "ps = map rx_run xs"
    using assms(1) by (auto simp: carve_run_def)
  from xs show "run_valid r"
    by (auto simp: carve_run_extent_def)
  have lim: "a + (b - a) = b"
    using assms(2) by simp
  consider "\<not> byte_ranges_overlap ?s ?e a b" "xs = [?x]"
    | left right where "byte_ranges_overlap ?s ?e a b"
      "(if ?s < a then slice_run_extent ?x ?s (min a ?e) else Inr None) = Inr left"
      "(if b < ?e then slice_run_extent ?x (max b ?s) ?e else Inr None) = Inr right"
      "xs = (case left of None \<Rightarrow> [] | Some l \<Rightarrow> [l]) @ (case right of None \<Rightarrow> [] | Some r \<Rightarrow> [r])"
    using xs lim by (auto simp: carve_run_extent_def run_extent_end_def run_end_def split: if_split_asm)
  then show "(?e \<le> a \<or> b \<le> ?s) \<and> ps = [r] \<or> (?s < b \<and> a < ?e \<and> (\<exists>i j. ps =
      (if ?s < a then [run_slice r ?s a i] else []) @ (if b < ?e then [run_slice r b ?e j] else [])))"
  proof cases
    case 1
    then show ?thesis
      by (auto simp: ps byte_ranges_overlap_def)
  next
    case 2
    then have o: "?s < b" "a < ?e"
      by (auto simp: byte_ranges_overlap_def)
    have l: "\<exists>i y. left = Some y \<and> rx_run y = run_slice r ?s a i" if "?s < a"
      using 2(2) slice_run_extent_run [of r ?s a left] o that by (simp add: min_def)
    have g: "\<exists>j y. right = Some y \<and> rx_run y = run_slice r b ?e j" if "b < ?e"
      using 2(3) slice_run_extent_run [of r b ?e right] o that by (simp add: max_def)
    show ?thesis
      using o l g 2(2,3) unfolding ps 2(4) by (cases "?s < a"; cases "b < ?e") auto
  qed
qed

lemma carve_run_extents:
  "mapR (carve_run_extent (mk_bytes a (b - a))) xs = Inr pieces \<Longrightarrow>
    mapR (carve_run a b) (map rx_run xs) = Inr (map (map rx_run) pieces)"
proof (induction xs arbitrary: pieces)
  case (Cons x xs)
  then have "extent_of_run (rx_run x) = x"
    by (auto simp: carve_run_extent_def intro: extent_of_run_rx)
  then show ?case
    using Cons by (auto simp: carve_run_def)
qed simp

interpretation run_cut: extent_carving rr_file_offset_start run_end run_value carve_run run_valid
proof unfold_locales
  fix a b x ys
  assume a: "carve_run a b x = Inr ys" "a < b" "rr_file_offset_start x < run_end x" "run_valid x"
  note cases = carve_run_cases [OF a(1,2)]
  show "rr_file_offset_start x \<le> rr_file_offset_start y \<and> rr_file_offset_start y < run_end y \<and> run_end y \<le> run_end x
      \<and> (run_end y \<le> a \<or> b \<le> rr_file_offset_start y) \<and> run_valid y
      \<and> (\<forall>p. rr_file_offset_start y \<le> p \<and> p < run_end y \<longrightarrow> run_value y p = run_value x p)"
    if "y \<in> set ys" for y
    using cases a that by (auto simp: run_slice_sel run_slice_valid split: if_splits)
  show "sorted_wrt (\<lambda>x y. run_end x \<le> rr_file_offset_start y) ys"
    using cases a(2) by (auto simp: run_slice_sel split: if_splits)
  show "\<exists>y\<in>set ys. rr_file_offset_start y \<le> p \<and> p < run_end y"
    if "rr_file_offset_start x \<le> p" "p < run_end x" "p < a \<or> b \<le> p" for p
    using cases a(2) that by (auto simp: run_slice_sel split: if_splits)
qed

lemma coalesce_run_step_Inr:
  "coalesce_run_step out r = Inr out' \<Longrightarrow> run_valid r \<and>
    (out' = out @ [r] \<or>
    (\<exists>ys y. out = ys @ [y] \<and> out' = ys @ [y\<lparr>rr_payload_len := rr_payload_len y + rr_payload_len r\<rparr>]
      \<and> rr_storage_node y = rr_storage_node r \<and> rr_log_id y = rr_log_id r \<and> run_end y = rr_file_offset_start r
      \<and> rr_log_payload_offset y + rr_payload_len y = rr_log_payload_offset r))"
  by (cases out rule: rev_cases)
    (auto simp: coalesce_run_step_def Let_def can_coalesce_with_def rr_file_offset_end_def rr_log_payload_end_def run_end_def
      split: if_splits)

interpretation run_join: extent_coalescing rr_file_offset_start run_end run_value coalesce_run_step run_valid
proof unfold_locales
  fix out x out'
  assume a: "coalesce_run_step out x = Inr out'" "run_valid x" "\<forall>y\<in>set out. run_valid y"
  from coalesce_run_step_Inr [OF a(1)]
  show "out' = out @ [x] \<or> (\<exists>ys y z. out = ys @ [y] \<and> out' = ys @ [z]
      \<and> rr_file_offset_start z = rr_file_offset_start y \<and> run_end y = rr_file_offset_start x \<and> run_end z = run_end x
      \<and> run_valid z
      \<and> (\<forall>p. rr_file_offset_start y \<le> p \<and> p < run_end y \<longrightarrow> run_value z p = run_value y p)
      \<and> (\<forall>p. rr_file_offset_start x \<le> p \<and> p < run_end x \<longrightarrow> run_value z p = run_value x p))"
    using a(2) by (fastforce simp: run_end_def run_value_def run_valid_def)
qed

section \<open>Replacements are overrides\<close>

lemma sorted_run_key: "sorted (map run_sort_key rs) \<Longrightarrow> sorted (map rr_file_offset_start rs)"
  by (induction rs) (fastforce simp: run_sort_key_def less_eq_prod_def)+

lemma sort_by_start:
  assumes "inj_on rr_file_offset_start (set rs)"
  shows "sort_key run_sort_key rs = sort_key rr_file_offset_start rs"
proof (rule sort_key_inj_key_eq [symmetric])
  have "sorted (map run_sort_key (sort_key run_sort_key rs))"
    by simp
  then show "sorted (map rr_file_offset_start (sort_key run_sort_key rs))"
    by (rule sorted_run_key)
qed (use assms in auto)

lemma sorted_starts_inj: "runs_sorted (sort_key rr_file_offset_start rs) \<Longrightarrow> inj_on rr_file_offset_start (set rs)"
proof (rule inj_onI)
  fix x y
  assume "runs_sorted (sort_key rr_file_offset_start rs)" "x \<in> set rs" "y \<in> set rs"
    "rr_file_offset_start x = rr_file_offset_start y"
  then show "x = y"
    using run_cut.ordered_unique [of "sort_key rr_file_offset_start rs" x y "rr_file_offset_start x"]
    by (auto simp: extents_sorted_def)
qed

lemma coalesce_run_total:
  assumes "runs_sorted rs" "\<forall>r\<in>set rs. run_valid r"
  shows "\<exists>out. foldR coalesce_run_step [] rs = Inr out"
proof (rule foldR_total [where I = "\<lambda>out rs. runs_sorted (out @ rs) \<and> (\<forall>r\<in>set (out @ rs). run_valid r)"])
  fix out x xs
  assume I: "runs_sorted (out @ x # xs) \<and> (\<forall>r\<in>set (out @ x # xs). run_valid r)"
  have "\<exists>t. coalesce_run_step out x = Inr t"
  proof (cases out rule: rev_cases)
    case (snoc ys y)
    have y: "run_valid y" "run_end y \<le> rr_file_offset_start x" "run_valid x"
      using I snoc by (auto simp: run_cut.ordered_append run_cut.ordered_Cons)
    then have "rr_payload_len y + rr_payload_len x < u64_limit"
      by (simp add: run_valid_def run_end_def)
    moreover have "rr_log_payload_end y = Inr (rr_log_payload_offset y + rr_payload_len y)"
      using y(1) by (simp add: rr_log_payload_end_def run_valid_def)
    moreover have "rr_file_offset_end y = Inr (run_end y)"
      using y(1) by (simp add: rr_file_offset_end_def run_valid_def run_end_def)
    moreover have "validate_run_range x = Inr ()"
      using y(3) by simp
    ultimately show ?thesis
      using y(2) by (simp add: snoc coalesce_run_step_def can_coalesce_with_def Let_def not_less ex_bool_eq) blast
  qed (use I in \<open>simp add: coalesce_run_step_def\<close>)
  then show "\<exists>t. coalesce_run_step out x = Inr t \<and> runs_sorted (t @ xs) \<and> (\<forall>r\<in>set (t @ xs). run_valid r)"
    using I run_join.step_keeps [of out x _ xs] by blast
qed (use assms in simp)

lemma coalesce_ranges_sorted:
  assumes "runs_sorted (sort_key rr_file_offset_start rs)" "\<forall>r\<in>set rs. run_valid r"
  obtains out where "coalesce_append_log_run_ranges rs = Inr out" "runs_sorted out" "\<forall>r\<in>set out. run_valid r"
    "\<And>p. runs_at out p = runs_at (sort_key rr_file_offset_start rs) p"
proof -
  have eq: "sort_key run_sort_key rs = sort_key rr_file_offset_start rs"
    by (rule sort_by_start) (rule sorted_starts_inj [OF assms(1)])
  obtain out where out: "foldR coalesce_run_step [] (sort_key rr_file_offset_start rs) = Inr out"
    using coalesce_run_total [OF assms(1)] assms(2) by auto
  with run_join.coalesce_keeps [OF out] assms show thesis
    by (intro that [of out]) (auto simp: coalesce_append_log_run_ranges_def eq)
qed

text \<open>The extents a leaf may hold.\<close>

definition run_extents_ok :: "run_backed_file_extent list \<Rightarrow> bool" where
  "run_extents_ok xs \<longleftrightarrow> runs_sorted (map rx_run xs)
    \<and> (\<forall>x\<in>set xs. run_valid (rx_run x) \<and> extent_of_run (rx_run x) = x)"

abbreviation run_extents_at :: "run_backed_file_extent list \<Rightarrow> nat \<Rightarrow> (storage_node_id \<times> nat \<times> nat) option" where
  "run_extents_at xs \<equiv> runs_at (map rx_run xs)"

lemma extent_of_run_fields: "extent_of_run (rx_run x) = x \<longleftrightarrow>
    rx_file_offset_start x = rr_file_offset_start (rx_run x) \<and> rx_payload_len x = rr_payload_len (rx_run x)"
  by (metis extent_of_run_sel(1,2) extent_of_run_rx)

lemma validate_run_extents_fold:
  "foldR validate_run_extent_step prev xs = Inr st \<Longrightarrow>
    run_extents_ok xs \<and> (\<forall>q. prev = Some q \<longrightarrow> (\<forall>x\<in>set xs. q \<le> rx_file_offset_start x))"
proof (induction xs arbitrary: prev)
  case (Cons x xs)
  then obtain p where "validate_run_extent_step prev x = Inr p" "foldR validate_run_extent_step p xs = Inr st"
    by auto
  with Cons.IH [OF this(2)] show ?case
    by (auto simp: validate_run_extent_step_def run_extents_ok_def run_cut.ordered_Cons run_end_def run_valid_def
        extent_of_run_fields split: option.splits) fastforce+
qed (simp add: run_extents_ok_def run_cut.ordered_Nil)

lemma validate_run_extents_ok: "validate_run_backed_file_extents xs = Inr u \<Longrightarrow> run_extents_ok xs"
  using validate_run_extents_fold by (auto simp: validate_run_backed_file_extents_def)

lemma run_extents_validate: "run_extents_ok xs \<Longrightarrow> (\<forall>q. prev = Some q \<longrightarrow> (\<forall>x\<in>set xs. q \<le> rx_file_offset_start x)) \<Longrightarrow>
    \<exists>st. foldR validate_run_extent_step prev xs = Inr st"
proof (induction xs arbitrary: prev)
  case (Cons x xs)
  have x: "run_valid (rx_run x)" "rx_file_offset_start x = rr_file_offset_start (rx_run x)"
    "rx_payload_len x = rr_payload_len (rx_run x)" "run_extents_ok xs" "\<forall>y\<in>set xs. run_end (rx_run x) \<le> rx_file_offset_start y"
    using Cons.prems(1) by (auto simp: run_extents_ok_def run_cut.ordered_Cons extent_of_run_fields)
  obtain st where "foldR validate_run_extent_step (Some (run_end (rx_run x))) xs = Inr st"
    using Cons.IH [OF x(4), of "Some (run_end (rx_run x))"] x(5) by auto
  moreover have "validate_run_extent_step prev x = Inr (Some (run_end (rx_run x)))"
    using x Cons.prems(2) by (cases prev) (auto simp: validate_run_extent_step_def run_valid_def run_end_def ensure_def)
  ultimately show ?case
    by simp
qed simp

lemma carve_run_extent_total:
  assumes "run_valid (rx_run x)" "extent_of_run (rx_run x) = x" "byte_offset r + byte_len r < u64_limit"
  shows "\<exists>ps. carve_run_extent r x = Inr ps"
proof -
  have f: "rx_file_offset_start x = rr_file_offset_start (rx_run x)" "rx_payload_len x = rr_payload_len (rx_run x)"
    using assms(2) by (simp_all add: extent_of_run_fields)
  have slice: "\<exists>y. slice_run_extent x a b = Inr y" if "rx_file_offset_start x \<le> a" "b \<le> run_end (rx_run x)" for a b
    using that assms(1) f
    by (auto simp: slice_run_extent_def run_extent_end_def run_valid_def run_end_def ensure_def Let_def)
  have "run_extent_end x = Inr (run_end (rx_run x))"
    using assms(1) f by (simp add: run_extent_end_def run_valid_def run_end_def)
  moreover have "validate_run_extent x = Inr ()"
    using assms(1) f by simp
  moreover obtain l where "slice_run_extent x (rx_file_offset_start x) (min (byte_offset r) (run_end (rx_run x))) = Inr l"
    using slice [of "rx_file_offset_start x" "min (byte_offset r) (run_end (rx_run x))"] by auto
  moreover obtain g where "slice_run_extent x (max (byte_offset r + byte_len r) (rx_file_offset_start x)) (run_end (rx_run x)) = Inr g"
    using slice [of "max (byte_offset r + byte_len r) (rx_file_offset_start x)" "run_end (rx_run x)"] by auto
  moreover have "byte_end r = Inr (byte_offset r + byte_len r)"
    using assms(3) by simp
  ultimately show ?thesis
    unfolding carve_run_extent_def by simp
qed

lemma replace_run_extents_exact:
  assumes "run_extents_ok xs" "0 < byte_len r" "byte_offset r + byte_len r < u64_limit"
    and "run_extents_ok ys" "\<forall>y\<in>set ys. byte_offset r \<le> rx_file_offset_start y \<and> run_end (rx_run y) \<le> byte_offset r + byte_len r"
  obtains out where "replace_run_backed_file_extents xs r ys = Inr out" "run_extents_ok out"
    "\<And>p. run_extents_at out p =
      (if byte_offset r \<le> p \<and> p < byte_offset r + byte_len r then run_extents_at ys p else run_extents_at xs p)"
proof -
  let ?a = "byte_offset r" and ?b = "byte_offset r + byte_len r"
  have r: "mk_bytes ?a (?b - ?a) = r" and lt: "?a < ?b"
    using assms(2) by simp_all
  have "\<exists>ps. carve_run_extent r x = Inr ps" if "x \<in> set xs" for x
    using assms(1,3) that by (simp add: run_extents_ok_def carve_run_extent_total)
  then obtain pieces where p: "mapR (carve_run_extent r) xs = Inr pieces"
    using mapR_total by metis
  then have m: "mapR (carve_run ?a ?b) (map rx_run xs) = Inr (map (map rx_run) pieces)"
    by (rule carve_run_extents [of ?a ?b xs pieces, unfolded r])
  let ?rs = "concat (map (map rx_run) pieces) @ map rx_run ys"
  have xs: "runs_sorted (map rx_run xs)" "\<forall>x\<in>set (map rx_run xs). run_valid x"
    and ys: "runs_sorted (map rx_run ys)" "\<forall>y\<in>set (map rx_run ys). ?a \<le> rr_file_offset_start y \<and> run_end y \<le> ?b"
      "\<forall>y\<in>set (map rx_run ys). run_valid y"
    using assms(1,4,5) by (auto simp: run_extents_ok_def extent_of_run_fields)
  note cut = run_cut.replace_ordered [OF m lt xs ys(1,2)] run_cut.replace_valid [OF m lt xs ys(3)]
    run_cut.replace_at [OF m lt xs ys(1,2)]
  obtain out where out: "coalesce_append_log_run_ranges ?rs = Inr out" "runs_sorted out" "\<forall>r\<in>set out. run_valid r"
    "\<And>p. runs_at out p = runs_at (sort_key rr_file_offset_start ?rs) p"
    using coalesce_ranges_sorted [OF cut(1)] cut(2) by auto
  have "mapR (\<lambda>run. andThen (validate_run_extent (extent_of_run run)) (\<lambda>_. Inr (extent_of_run run))) out
      = Inr (map extent_of_run out)"
    using out(3) by (induction out) (auto simp: andThen_Inr_iff)
  then have "replace_run_backed_file_extents xs r ys = Inr (map extent_of_run out)"
    using out(1) p assms(3) by (simp add: replace_run_backed_file_extents_def map_concat)
  moreover have "run_extents_ok (map extent_of_run out)"
    using out by (simp add: run_extents_ok_def o_def)
  moreover have "map rx_run (map extent_of_run out) = out"
    by (simp add: o_def)
  ultimately show thesis
    using that cut(3) out(4) by (metis (no_types, lifting))
qed

section \<open>Replay\<close>

declare replay_loop.simps [simp del]

text \<open>Extents that cover an interval from left to right without a gap.\<close>

fun gapless :: "nat \<Rightarrow> nat \<Rightarrow> run_backed_file_extent list \<Rightarrow> bool" where
  "gapless a b [] \<longleftrightarrow> a = b"
| "gapless a b (x # xs) \<longleftrightarrow> rx_file_offset_start x = a \<and> run_valid (rx_run x) \<and> extent_of_run (rx_run x) = x
    \<and> gapless (a + rx_payload_len x) b xs"

lemma gapless_le: "gapless a b xs \<Longrightarrow> a \<le> b"
  by (induction a b xs rule: gapless.induct) auto

lemma gapless_append: "gapless a b xs \<Longrightarrow> gapless b c ys \<Longrightarrow> gapless a c (xs @ ys)"
  by (induction a b xs rule: gapless.induct) auto

lemma gapless_starts: "gapless a b xs \<Longrightarrow> x \<in> set xs \<Longrightarrow> a \<le> rx_file_offset_start x \<and> run_end (rx_run x) \<le> b"
  by (induction a b xs rule: gapless.induct) (fastforce simp: run_end_def extent_of_run_fields dest: gapless_le)+

lemma gapless_ok: "gapless a b xs \<Longrightarrow> run_extents_ok xs"
proof (induction a b xs rule: gapless.induct)
  case (2 a b x xs)
  then show ?case
    using gapless_starts [of "a + rx_payload_len x" b xs]
    by (auto simp: run_extents_ok_def run_cut.ordered_Cons extent_of_run_fields run_end_def run_valid_def)
qed (simp add: run_extents_ok_def run_cut.ordered_Nil)

lemma gapless_at: "gapless a b xs \<Longrightarrow> run_extents_at xs p \<noteq> None \<longleftrightarrow> a \<le> p \<and> p < b"
proof (induction a b xs rule: gapless.induct)
  case (2 a b x xs)
  then show ?case
    using gapless_le [of "a + rx_payload_len x" b xs]
    by (auto simp: extent_at_def run_end_def run_value_def extent_of_run_fields split: option.splits)
qed (simp add: extent_at_def)

lemma visible_fold_gapless:
  "foldR (visible_extent_step v) a xs = Inr b \<Longrightarrow> gapless a b xs
    \<and> (\<forall>x\<in>set xs. rr_keyspace_id (rx_run x) = vp_keyspace_id v \<and> rr_file_id (rx_run x) = vp_file_id v)"
proof (induction xs arbitrary: a)
  case (Cons x xs)
  then obtain c where "visible_extent_step v a x = Inr c" "foldR (visible_extent_step v) c xs = Inr b"
    by auto
  with Cons.IH [OF this(2)] show ?case
    by (auto simp: visible_extent_step_def extent_of_run_fields)
qed simp

text \<open>What one accepted record does.\<close>

lemma replay_step_Inr:
  assumes "publish_step k f c v = Inr c'"
  shows "c' = publish_advance c v" "publish_applies c v" "pc_file_version c' = pc_file_version c + 1"
    "gapless (pc_size c) (pc_size c') (vp_run_extents v)" "pc_size c < pc_size c'" "pc_commit_seq c < pc_commit_seq c'"
    "\<forall>x\<in>set (vp_run_extents v). rr_keyspace_id (rx_run x) = k \<and> rr_file_id (rx_run x) = f"
  using assms visible_fold_gapless [of v "pc_size c" "vp_run_extents v"]
  by (auto simp: publish_step_def publish_advance_def publish_applies_def validate_for_reconstructed_head_def
      validate_visible_publish_def)

lemma visible_extent_step_error: "visible_extent_step v a x = Inl e \<Longrightarrow> e = invalid_argument"
  by (auto simp: visible_extent_step_def validate_run_extent_def validate_run_range_def rr_file_offset_end_def
      rr_log_payload_end_def andThen_Inl_iff)

lemma visible_fold_error: "foldR (visible_extent_step v) a xs = Inl e \<Longrightarrow> e = invalid_argument"
  by (induction xs arbitrary: a) (auto simp: andThen_Inl_iff dest: visible_extent_step_error)

lemma publish_step_error: "publish_step k f c v = Inl e \<Longrightarrow> e = invalid_argument"
  by (auto simp: publish_step_def validate_for_reconstructed_head_def validate_visible_publish_def andThen_Inl_iff
      dest: visible_fold_error)

lemma replay_loop_error: "replay_loop k f c vs = Inl e \<Longrightarrow> e = invalid_argument"
proof (induction k f c vs rule: replay_loop.induct)
  case (1 k f c vs)
  show ?case
  proof (cases "List.extract (publish_applies c) vs")
    case None
    with "1.prems" show ?thesis
      by (simp add: replay_loop.simps [of k f c vs])
  next
    case (Some t)
    obtain front v rest where t: "t = (front, v, rest)"
      by (cases t)
    with "1.prems" Some "1.IH" [OF Some t [symmetric] refl] publish_step_error [of k f c v e] show ?thesis
      by (cases "publish_step k f c v") (simp_all add: replay_loop.simps [of k f c vs])
  qed
qed

text \<open>A replay that leaves nothing over has applied every record, in the only possible order.\<close>

lemma replay_loop_order:
  "replay_loop k f c vs = Inr (c', []) \<Longrightarrow> \<exists>us. mset us = mset vs \<and> foldR (publish_step k f) c us = Inr c'"
proof (induction k f c vs rule: replay_loop.induct)
  case (1 k f c vs)
  show ?case
  proof (cases "List.extract (publish_applies c) vs")
    case None
    with "1.prems" show ?thesis
      by (simp add: replay_loop.simps [of k f c vs])
  next
    case (Some t)
    obtain front v rest where t: "t = (front, v, rest)"
      by (cases t)
    obtain d where d: "publish_step k f c v = Inr d"
      using "1.prems" Some t by (cases "publish_step k f c v") (simp_all add: replay_loop.simps [of k f c vs])
    then obtain us where "mset us = mset (front @ rest)" "foldR (publish_step k f) d us = Inr c'"
      using "1.IH" [OF Some t [symmetric] refl d] "1.prems" Some t d by (auto simp: replay_loop.simps [of k f c vs])
    moreover have "vs = front @ v # rest"
      using extract_SomeE [of "publish_applies c" vs] Some t by simp
    ultimately show ?thesis
      using d by (intro exI [of _ "v # us"]) simp
  qed
qed

lemma fold_versions:
  "foldR (publish_step k f) c us = Inr c' \<Longrightarrow> u \<in> set us \<Longrightarrow> pc_file_version c \<le> vp_base_file_version u"
proof (induction us arbitrary: c)
  case (Cons v us)
  then obtain d where d: "publish_step k f c v = Inr d" "foldR (publish_step k f) d us = Inr c'"
    by auto
  with replay_step_Inr [OF d(1)] Cons.IH [OF d(2)] Cons.prems(2) show ?case
    by (fastforce simp: publish_applies_def)
qed simp

lemma replay_loop_unique:
  "foldR (publish_step k f) c us = Inr c' \<Longrightarrow> mset us = mset vs \<Longrightarrow> replay_loop k f c vs = Inr (c', [])"
proof (induction us arbitrary: c vs)
  case Nil
  then show ?case
    by (simp add: replay_loop.simps [of k f c' "[]"] extract_Nil_code)
next
  case (Cons u us)
  then obtain d where d: "publish_step k f c u = Inr d" "foldR (publish_step k f) d us = Inr c'"
    by auto
  have u: "u \<in> set vs"
    using Cons.prems(2) by (metis list.set_intros(1) mset_eq_setD)
  have only: "v = u" if "v \<in> set vs" "publish_applies c v" for v
  proof (rule ccontr)
    assume "v \<noteq> u"
    then have "v \<in> set us"
      using that(1) Cons.prems(2) by (metis mset_eq_setD set_ConsD)
    then have "pc_file_version d \<le> vp_base_file_version v"
      by (rule fold_versions [OF d(2)])
    then show False
      using that(2) replay_step_Inr(3) [OF d(1)] by (simp add: publish_applies_def)
  qed
  obtain front v rest where x: "List.extract (publish_applies c) vs = Some (front, v, rest)"
    using u replay_step_Inr(2) [OF d(1)] by (cases "List.extract (publish_applies c) vs") (auto simp: extract_None_iff)
  then have vs: "vs = front @ v # rest" "publish_applies c v"
    by (auto dest: extract_SomeE)
  then have "v = u"
    using only by auto
  moreover have "mset us = mset (front @ rest)"
    using Cons.prems(2) vs(1) \<open>v = u\<close> by simp
  ultimately show ?case
    using Cons.IH [OF d(2)] d(1) by (simp add: x replay_loop.simps [of k f c vs])
qed

lemma replay_fold_gapless:
  assumes "foldR (publish_step k f) c us = Inr c'" "gapless base (pc_size c) (pc_run_extents c)"
    and "\<forall>x\<in>set (pc_run_extents c). rr_keyspace_id (rx_run x) = k \<and> rr_file_id (rx_run x) = f"
  shows "gapless base (pc_size c') (pc_run_extents c') \<and> pc_file_version c' = pc_file_version c + length us
    \<and> (\<forall>x\<in>set (pc_run_extents c'). rr_keyspace_id (rx_run x) = k \<and> rr_file_id (rx_run x) = f)"
  using assms
proof (induction us arbitrary: c)
  case (Cons v us)
  from Cons.prems(1) obtain d where d: "publish_step k f c v = Inr d" "foldR (publish_step k f) d us = Inr c'"
    by auto
  note step = replay_step_Inr [OF d(1)]
  have ext: "pc_run_extents d = pc_run_extents c @ vp_run_extents v"
    by (simp add: step(1) publish_advance_def)
  have "gapless base (pc_size d) (pc_run_extents d)"
    unfolding ext by (rule gapless_append [OF Cons.prems(2) step(4)])
  moreover have "\<forall>x\<in>set (pc_run_extents d). rr_keyspace_id (rx_run x) = k \<and> rr_file_id (rx_run x) = f"
    using step(7) Cons.prems(3) by (simp add: ext ball_Un)
  ultimately have "gapless base (pc_size c') (pc_run_extents c') \<and> pc_file_version c' = pc_file_version d + length us
      \<and> (\<forall>x\<in>set (pc_run_extents c'). rr_keyspace_id (rx_run x) = k \<and> rr_file_id (rx_run x) = f)"
    by (rule Cons.IH [OF d(2)])
  then show ?case
    unfolding step(3) by (metis add_Suc_right add.assoc add.commute length_Cons plus_1_eq_Suc)
qed simp

text \<open>
  C33: Replacing a byte range in a valid list of run-backed extents always succeeds, gives a valid
  list, and overrides exactly that range: inside it a file offset is at the log position the
  replacements give it, outside it is where it was.
\<close>

theorem replace_run_extents_overrides:
  assumes "validate_run_backed_file_extents extents = Inr ()" "validate_run_backed_file_extents replacements = Inr ()"
    and "0 < byte_len r" "byte_offset r + byte_len r < u64_limit"
    and "\<forall>x\<in>set replacements. byte_offset r \<le> rx_file_offset_start x
      \<and> rx_file_offset_start x + rx_payload_len x \<le> byte_offset r + byte_len r"
  shows "\<exists>out. replace_run_backed_file_extents extents r replacements = Inr out
    \<and> validate_run_backed_file_extents out = Inr ()
    \<and> (\<forall>p. run_extents_at out p =
        (if byte_offset r \<le> p \<and> p < byte_offset r + byte_len r then run_extents_at replacements p else run_extents_at extents p))"
proof -
  have ok: "run_extents_ok extents" "run_extents_ok replacements"
    using assms(1,2) by (auto intro: validate_run_extents_ok)
  have "\<forall>x\<in>set replacements. byte_offset r \<le> rx_file_offset_start x \<and> run_end (rx_run x) \<le> byte_offset r + byte_len r"
    using assms(5) ok(2) by (auto simp: run_extents_ok_def extent_of_run_fields run_end_def)
  then obtain out where out: "replace_run_backed_file_extents extents r replacements = Inr out" "run_extents_ok out"
    "\<And>p. run_extents_at out p =
      (if byte_offset r \<le> p \<and> p < byte_offset r + byte_len r then run_extents_at replacements p else run_extents_at extents p)"
    using replace_run_extents_exact [OF ok(1) assms(3,4) ok(2)] by blast
  have "validate_run_backed_file_extents out = Inr ()"
    using run_extents_validate [OF out(2), of None] by (auto simp: validate_run_backed_file_extents_def)
  with out show ?thesis
    by blast
qed

definition sample_run_extent :: "nat \<Rightarrow> nat \<Rightarrow> nat \<Rightarrow> run_backed_file_extent" where
  "sample_run_extent start len at = extent_of_run
    \<lparr>rr_run_id = 1, rr_storage_node = 1, rr_stream_id = 1, rr_writer_epoch = 1, rr_keyspace_id = 1, rr_file_id = 1,
     rr_file_offset_start = start, rr_payload_len = len, rr_log_id = 1, rr_log_payload_offset = at, rr_integrity = Crc32c 7\<rparr>"

theorem replace_run_extents_overrides_witness:
  "\<exists>out. replace_run_backed_file_extents [sample_run_extent 0 10 0] (mk_bytes 4 2) [sample_run_extent 4 2 50] = Inr out
    \<and> run_extents_at out 3 = Some (1, 1, 3) \<and> run_extents_at out 5 = Some (1, 1, 51) \<and> run_extents_at out 8 = Some (1, 1, 8)"
proof -
  have v: "validate_run_backed_file_extents [sample_run_extent 0 10 0] = Inr ()" "validate_run_backed_file_extents [sample_run_extent 4 2 50] = Inr ()"
    by (simp_all add: validate_run_backed_file_extents_def validate_run_extent_step_def sample_run_extent_def run_valid_def run_end_def
        u64_limit_def)
  have inside: "\<forall>x\<in>set [sample_run_extent 4 2 50]. byte_offset (mk_bytes 4 2) \<le> rx_file_offset_start x
      \<and> rx_file_offset_start x + rx_payload_len x \<le> byte_offset (mk_bytes 4 2) + byte_len (mk_bytes 4 2)"
    by (simp add: sample_run_extent_def)
  obtain out where out: "replace_run_backed_file_extents [sample_run_extent 0 10 0] (mk_bytes 4 2) [sample_run_extent 4 2 50] = Inr out"
    and at: "\<And>p. run_extents_at out p =
      (if 4 \<le> p \<and> p < 6 then run_extents_at [sample_run_extent 4 2 50] p else run_extents_at [sample_run_extent 0 10 0] p)"
    using replace_run_extents_overrides [OF v _ _ inside] by (simp add: u64_limit_def) blast
  have "run_extents_at out 3 = Some (1, 1, 3)" "run_extents_at out 5 = Some (1, 1, 51)" "run_extents_at out 8 = Some (1, 1, 8)"
    unfolding at by (simp_all add: sample_run_extent_def extent_at_def run_end_def run_value_def)
  with out show ?thesis
    by blast
qed

text \<open>
  C34: The replay of visible publish records extends a file by a gapless suffix: when it succeeds,
  every record was applied exactly once (the version advanced by their number), the extents it
  collects cover the offsets from the base size to the new size from left to right, each exactly
  once, and all of them belong to the file.
\<close>

theorem replay_extends_without_gaps:
  assumes "replay_append_visible_publishes_for_file k f base_epoch base_version base_size base_seq records = Inr out"
  shows "ar_latest_file_version out = base_version + length records
    \<and> base_size \<le> ar_latest_size out \<and> validate_run_backed_file_extents (ar_run_extents out) = Inr ()
    \<and> (\<forall>p. run_extents_at (ar_run_extents out) p \<noteq> None \<longleftrightarrow> base_size \<le> p \<and> p < ar_latest_size out)
    \<and> (\<forall>x\<in>set (ar_run_extents out). rr_keyspace_id (rx_run x) = k \<and> rr_file_id (rx_run x) = f)"
proof -
  let ?c = "\<lparr>pc_writer_epoch = base_epoch, pc_file_version = base_version, pc_size = base_size, pc_commit_seq = base_seq,
    pc_run_extents = []\<rparr>"
  obtain c where c: "replay_loop k f ?c (sort_key publish_sort_key records) = Inr (c, [])"
    "ar_latest_file_version out = pc_file_version c" "ar_latest_size out = pc_size c" "ar_run_extents out = pc_run_extents c"
    using assms by (auto simp: replay_append_visible_publishes_for_file_def)
  obtain us where us: "mset us = mset (sort_key publish_sort_key records)" "foldR (publish_step k f) ?c us = Inr c"
    using replay_loop_order [OF c(1)] by blast
  then have len: "length us = length records"
    by (metis length_sort size_mset)
  have g: "gapless base_size (pc_size c) (pc_run_extents c)" "pc_file_version c = base_version + length us"
    "\<forall>x\<in>set (pc_run_extents c). rr_keyspace_id (rx_run x) = k \<and> rr_file_id (rx_run x) = f"
    using replay_fold_gapless [OF us(2), of base_size] by simp_all
  have "validate_run_backed_file_extents (pc_run_extents c) = Inr ()"
    using run_extents_validate [OF gapless_ok [OF g(1)], of None] by (auto simp: validate_run_backed_file_extents_def)
  with g len show ?thesis
    using gapless_le [OF g(1)] gapless_at [OF g(1)] by (simp add: c)
qed

definition sample_publish_record :: "nat \<Rightarrow> append_visible_publish" where
  "sample_publish_record i = \<lparr>vp_record_id = i, vp_commit_seq = i + 1, vp_keyspace_id = 1, vp_file_id = 1, vp_base_writer_epoch = 1,
    vp_writer_epoch = 1, vp_base_file_version = i, vp_new_file_version = i + 1, vp_old_size = 4 * i, vp_new_size = 4 * i + 4,
    vp_publish_through = 4 * i + 4, vp_run_extents = [sample_run_extent (4 * i) 4 (100 + i)]\<rparr>"

lemma sample_replay:
  "replay_append_visible_publishes_for_file 1 1 1 0 0 0 [sample_publish_record 1, sample_publish_record 0] =
    Inr \<lparr>ar_keyspace_id = 1, ar_file_id = 1, ar_base_writer_epoch = 1, ar_base_file_version = 0, ar_base_size = 0,
      ar_base_commit_seq = 0, ar_latest_writer_epoch = 1, ar_latest_file_version = 2, ar_latest_size = 8,
      ar_latest_commit_seq = 2, ar_run_extents = [sample_run_extent 0 4 100, sample_run_extent 4 4 101]\<rparr>"
proof -
  let ?c = "\<lparr>pc_writer_epoch = 1, pc_file_version = 0, pc_size = 0, pc_commit_seq = 0, pc_run_extents = []\<rparr>"
  let ?d = "\<lparr>pc_writer_epoch = 1, pc_file_version = 2, pc_size = 8, pc_commit_seq = 2,
    pc_run_extents = [sample_run_extent 0 4 100, sample_run_extent 4 4 101]\<rparr>"
  have "foldR (publish_step 1 1) ?c [sample_publish_record 0, sample_publish_record 1] = Inr ?d"
    by (simp add: sample_publish_record_def publish_step_def publish_advance_def validate_for_reconstructed_head_def
        validate_visible_publish_def visible_extent_step_def sample_run_extent_def run_valid_def run_end_def u64_limit_def)
  then have "replay_loop 1 1 ?c (sort_key publish_sort_key [sample_publish_record 1, sample_publish_record 0]) = Inr (?d, [])"
    by (rule replay_loop_unique) (simp add: add_mset_commute)
  then show ?thesis
    unfolding replay_append_visible_publishes_for_file_def by simp
qed

theorem replay_extends_without_gaps_witness:
  "\<exists>out. replay_append_visible_publishes_for_file 1 1 1 0 0 0 [sample_publish_record 1, sample_publish_record 0] = Inr out
    \<and> ar_latest_file_version out = 2 \<and> run_extents_at (ar_run_extents out) 7 \<noteq> None"
  using replay_extends_without_gaps [OF sample_replay] sample_replay by simp

text \<open>
  C35: The order in which the records arrive does not matter: the replay of the same records in any
  order gives the same result, or fails in the same way.
\<close>

theorem replay_ignores_arrival_order:
  assumes "mset records = mset records'"
  shows "replay_append_visible_publishes_for_file k f base_epoch base_version base_size base_seq records =
    replay_append_visible_publishes_for_file k f base_epoch base_version base_size base_seq records'"
proof -
  let ?c = "\<lparr>pc_writer_epoch = base_epoch, pc_file_version = base_version, pc_size = base_size, pc_commit_seq = base_seq,
    pc_run_extents = []\<rparr>"
  let ?s = "sort_key publish_sort_key"
  have perm: "mset (?s records) = mset (?s records')"
    using assms by simp
  have iff: "replay_loop k f ?c (?s records) = Inr (c, []) \<longleftrightarrow> replay_loop k f ?c (?s records') = Inr (c, [])" for c
    using replay_loop_order [of k f ?c _ c] replay_loop_unique [of k f ?c _ c] perm by metis
  have fails: "andThen r (\<lambda>(c, remaining). andThen (ensure (remaining = []) invalid_argument) (\<lambda>_. Inr (g c))) = Inl invalid_argument"
    if "\<And>c. r \<noteq> Inr (c, [])" "\<And>e. r = Inl e \<Longrightarrow> e = invalid_argument"
    for r :: "(publish_cursor \<times> append_visible_publish list) result" and g :: "publish_cursor \<Rightarrow> append_visible_publish_replay"
    using that by (cases r) (auto simp: ensure_def)
  show ?thesis
  proof (cases "\<exists>c. replay_loop k f ?c (?s records) = Inr (c, [])")
    case True
    then obtain c where "replay_loop k f ?c (?s records) = Inr (c, [])"
      by blast
    moreover then have "replay_loop k f ?c (?s records') = Inr (c, [])"
      using iff by blast
    ultimately show ?thesis
      by (simp add: replay_append_visible_publishes_for_file_def)
  next
    case False
    then show ?thesis
      unfolding replay_append_visible_publishes_for_file_def
      by (subst (1 2) fails) (use iff replay_loop_error in \<open>auto\<close>)
  qed
qed

theorem replay_ignores_arrival_order_witness:
  "\<exists>out. replay_append_visible_publishes_for_file 1 1 1 0 0 0 [sample_publish_record 0, sample_publish_record 1] = Inr out"
  using replay_ignores_arrival_order [of "[sample_publish_record 0, sample_publish_record 1]" "[sample_publish_record 1, sample_publish_record 0]"] sample_replay
  by (simp add: add_mset_commute)

end
