(* ===== verification/Tree_Map.thy ===== *)
theory Tree_Map
  imports Run_Extents
begin

text \<open>
  What a metadata tree denotes.  A tree maps a block to the segment block that holds it, and a byte
  to the append-log position that holds it.  The maps, and being a tree, only depend on the nodes
  below the root, so they survive any growth of the table of nodes; this is what makes copy-on-write
  edits safe for the trees that exist.
\<close>

type_synonym node_table = "(metadata_node_id, metadata_node) btree"
type_synonym segment_block = "segment_id \<times> nat"
type_synonym log_position = "storage_node_id \<times> nat \<times> nat"

section \<open>Trees\<close>

definition leaf_ok :: "nat \<Rightarrow> block_range \<Rightarrow> leaf_entry list \<Rightarrow> run_backed_file_extent list \<Rightarrow> bool" where
  "leaf_ok bs r es xs \<longleftrightarrow> entries_ok r es \<and> (\<forall>e\<in>set es. le_segment_offset e + le_blocks e < u64_limit) \<and> run_extents_ok xs
    \<and> (\<forall>x\<in>set xs. range_start r * bs \<le> rx_file_offset_start x \<and> run_end (rx_run x) \<le> range_stop r * bs)"

text \<open>A tree of at most the given height that covers a range.\<close>

primrec tree :: "nat \<Rightarrow> nat \<Rightarrow> node_table \<Rightarrow> metadata_node_id \<Rightarrow> block_range \<Rightarrow> bool" where
  "tree 0 bs nodes i r = False"
| "tree (Suc h) bs nodes i r =
    (case bt_get nodes i of
      None \<Rightarrow> False
    | Some node \<Rightarrow> mn_node_id node = i \<and> mn_covered_range node = r \<and> range_ok r \<and> 0 < range_blocks r
        \<and> (case mn_kind node of
            Leaf es xs \<Rightarrow> leaf_ok bs r es xs
          | Internal cs \<Rightarrow> cs \<noteq> [] \<and> tiling (range_start r) (range_stop r) (map mc_range cs)
              \<and> (\<forall>c\<in>set cs. tree h bs nodes (mc_node_id c) (mc_range c))))"

primrec block_at :: "nat \<Rightarrow> node_table \<Rightarrow> metadata_node_id \<Rightarrow> nat \<Rightarrow> segment_block option" where
  "block_at 0 nodes i b = None"
| "block_at (Suc h) nodes i b =
    (case bt_get nodes i of
      None \<Rightarrow> None
    | Some node \<Rightarrow>
        (case mn_kind node of
          Leaf es xs \<Rightarrow> leaf_at es b
        | Internal cs \<Rightarrow>
            (case find (\<lambda>c. b \<in> blocks_of (mc_range c)) cs of
              None \<Rightarrow> None
            | Some c \<Rightarrow> block_at h nodes (mc_node_id c) b)))"

primrec run_at :: "nat \<Rightarrow> nat \<Rightarrow> node_table \<Rightarrow> metadata_node_id \<Rightarrow> nat \<Rightarrow> log_position option" where
  "run_at 0 bs nodes i p = None"
| "run_at (Suc h) bs nodes i p =
    (case bt_get nodes i of
      None \<Rightarrow> None
    | Some node \<Rightarrow>
        (case mn_kind node of
          Leaf es xs \<Rightarrow> run_extents_at xs p
        | Internal cs \<Rightarrow>
            (case find (\<lambda>c. p div bs \<in> blocks_of (mc_range c)) cs of
              None \<Rightarrow> None
            | Some c \<Rightarrow> run_at h bs nodes (mc_node_id c) p)))"

definition nodes_grow :: "node_table \<Rightarrow> node_table \<Rightarrow> bool" where
  "nodes_grow nodes nodes' \<longleftrightarrow> (\<forall>i x. bt_get nodes i = Some x \<longrightarrow> bt_get nodes' i = Some x)"

lemma nodes_grow_refl [intro, simp]: "nodes_grow nodes nodes"
  by (simp add: nodes_grow_def)

lemma nodes_grow_trans: "nodes_grow a b \<Longrightarrow> nodes_grow b c \<Longrightarrow> nodes_grow a c"
  by (simp add: nodes_grow_def)

lemma nodes_grow_insert: "bt_get nodes i = None \<Longrightarrow> nodes_grow nodes (bt_insert i x nodes)"
  by (auto simp: nodes_grow_def)

lemma tree_node:
  assumes "tree h bs nodes i r"
  obtains h' node where "h = Suc h'" "bt_get nodes i = Some node" "mn_node_id node = i" "mn_covered_range node = r"
    "range_ok r" "0 < range_blocks r"
  using assms by (cases h) (auto split: option.splits)

lemma tree_mono: "tree h bs nodes i r \<Longrightarrow> h \<le> h' \<Longrightarrow> tree h' bs nodes i r"
proof (induction h arbitrary: h' i r)
  case (Suc h)
  then obtain k where k: "h' = Suc k" "h \<le> k"
    by (cases h') auto
  with Suc show ?case
    by (auto split: option.splits metadata_node_kind.splits)
qed simp

lemma find_child:
  assumes "tiling a b (map mc_range cs)" "a \<le> x" "x < b"
  obtains c where "find (\<lambda>c. x \<in> blocks_of (mc_range c)) cs = Some c" "c \<in> set cs" "x \<in> blocks_of (mc_range c)"
proof (cases "find (\<lambda>c. x \<in> blocks_of (mc_range c)) cs")
  case None
  with tiling_cover [OF assms] show thesis
    by (auto simp: find_None_iff)
next
  case (Some c)
  moreover from this have "c \<in> set cs" "x \<in> blocks_of (mc_range c)"
    unfolding find_Some_iff by auto
  ultimately show thesis
    by (rule that)
qed

lemma find_child_mem: "find P cs = Some c \<Longrightarrow> c \<in> set cs"
  by (auto simp: find_Some_iff)

text \<open>The maps do not depend on the height, once it is enough.\<close>

lemma block_at_mono: "tree h bs nodes i r \<Longrightarrow> h \<le> h' \<Longrightarrow> block_at h' nodes i b = block_at h nodes i b"
proof (induction h arbitrary: h' i r)
  case (Suc h)
  then obtain k where k: "h' = Suc k" "h \<le> k"
    by (cases h') auto
  from Suc.prems Suc.IH [of _ _ k] k(2) show ?case
    by (auto simp: k(1) dest: find_child_mem split: option.splits metadata_node_kind.splits)
qed simp

lemma run_at_mono: "tree h bs nodes i r \<Longrightarrow> h \<le> h' \<Longrightarrow> run_at h' bs nodes i p = run_at h bs nodes i p"
proof (induction h arbitrary: h' i r)
  case (Suc h)
  then obtain k where k: "h' = Suc k" "h \<le> k"
    by (cases h') auto
  from Suc.prems Suc.IH [of _ _ k] k(2) show ?case
    by (auto simp: k(1) dest: find_child_mem split: option.splits metadata_node_kind.splits)
qed simp

section \<open>Growth\<close>

lemma tree_grow: "nodes_grow nodes nodes' \<Longrightarrow> tree h bs nodes i r \<Longrightarrow> tree h bs nodes' i r"
proof (induction h arbitrary: i r)
  case (Suc h)
  then obtain node where "bt_get nodes i = Some node" "bt_get nodes' i = Some node"
    by (auto simp: nodes_grow_def split: option.splits)
  with Suc show ?case
    by (auto split: metadata_node_kind.splits)
qed simp

lemma block_at_grow: "nodes_grow nodes nodes' \<Longrightarrow> tree h bs nodes i r \<Longrightarrow> block_at h nodes' i b = block_at h nodes i b"
proof (induction h arbitrary: i r)
  case (Suc h)
  then obtain node where "bt_get nodes i = Some node" "bt_get nodes' i = Some node"
    by (auto simp: nodes_grow_def split: option.splits)
  with Suc show ?case
    by (auto dest: find_child_mem split: metadata_node_kind.splits option.splits)
qed simp

lemma run_at_grow: "nodes_grow nodes nodes' \<Longrightarrow> tree h bs nodes i r \<Longrightarrow> run_at h bs nodes' i p = run_at h bs nodes i p"
proof (induction h arbitrary: i r)
  case (Suc h)
  then obtain node where "bt_get nodes i = Some node" "bt_get nodes' i = Some node"
    by (auto simp: nodes_grow_def split: option.splits)
  with Suc show ?case
    by (auto dest: find_child_mem split: metadata_node_kind.splits option.splits)
qed simp

section \<open>Identifiers fall along paths\<close>

definition child_ids_below :: "node_table \<Rightarrow> bool" where
  "child_ids_below nodes \<longleftrightarrow>
    (\<forall>i node cs c. bt_get nodes i = Some node \<longrightarrow> mn_kind node = Internal cs \<longrightarrow> c \<in> set cs \<longrightarrow> mc_node_id c < i)"

lemma child_ids_below_insert:
  assumes "child_ids_below nodes" "\<And>cs c. mn_kind node = Internal cs \<Longrightarrow> c \<in> set cs \<Longrightarrow> mc_node_id c < i"
  shows "child_ids_below (bt_insert i node nodes)"
  using assms by (auto simp: child_ids_below_def split: if_splits)

lemma tree_height: "child_ids_below nodes \<Longrightarrow> tree h bs nodes i r \<Longrightarrow> tree (Suc i) bs nodes i r"
proof (induction i arbitrary: h r rule: less_induct)
  case (less i)
  from less.prems(2) obtain k node where k: "h = Suc k" "bt_get nodes i = Some node"
    by (rule tree_node)
  have child: "tree i bs nodes (mc_node_id c) (mc_range c)" if "mn_kind node = Internal cs" "c \<in> set cs" for cs c
  proof -
    have lt: "mc_node_id c < i"
      using less.prems(1) k(2) that unfolding child_ids_below_def by blast
    have "tree k bs nodes (mc_node_id c) (mc_range c)"
      using less.prems(2) k that by auto
    then have "tree (Suc (mc_node_id c)) bs nodes (mc_node_id c) (mc_range c)"
      by (rule less.IH [OF lt less.prems(1)])
    then show ?thesis
      by (rule tree_mono) (use lt in simp)
  qed
  show ?case
    using less.prems(2) k child by (auto split: metadata_node_kind.splits)
qed

section \<open>Copies\<close>

text \<open>
  A tree that is a copy of another one under two pointwise transformations, of the block map and of
  the log map.
\<close>

definition copy_of ::
  "nat \<Rightarrow> nat \<Rightarrow> (nat \<Rightarrow> segment_block option \<Rightarrow> segment_block option) \<Rightarrow> (nat \<Rightarrow> log_position option \<Rightarrow> log_position option)
    \<Rightarrow> node_table \<Rightarrow> node_table \<Rightarrow> metadata_node_id \<Rightarrow> metadata_node_id \<Rightarrow> block_range \<Rightarrow> bool" where
  "copy_of h bs f g nodes nodes' i i' r \<longleftrightarrow> tree h bs nodes' i' r
    \<and> (\<forall>b\<in>blocks_of r. block_at h nodes' i' b = f b (block_at h nodes i b))
    \<and> (\<forall>p. p div bs \<in> blocks_of r \<longrightarrow> run_at h bs nodes' i' p = g p (run_at h bs nodes i p))"

lemma copy_of_grow:
  assumes "copy_of h bs f g nodes nodes' i i' r" "nodes_grow nodes' nodes''"
  shows "copy_of h bs f g nodes nodes'' i i' r"
proof -
  have t: "tree h bs nodes' i' r"
    using assms(1) by (simp add: copy_of_def)
  show ?thesis
    using assms(1) tree_grow [OF assms(2) t]
    by (simp add: copy_of_def block_at_grow [OF assms(2) t] run_at_grow [OF assms(2) t])
qed

lemma copy_of_source:
  assumes "copy_of h bs f g nodes' nodes'' i i' r" "nodes_grow nodes nodes'" "tree h bs nodes i r"
  shows "copy_of h bs f g nodes nodes'' i i' r"
  using assms(1) by (simp add: copy_of_def block_at_grow [OF assms(2,3)] run_at_grow [OF assms(2,3)])

text \<open>Nothing to do in a range.\<close>

definition idle_on ::
  "nat \<Rightarrow> (nat \<Rightarrow> segment_block option \<Rightarrow> segment_block option) \<Rightarrow> (nat \<Rightarrow> log_position option \<Rightarrow> log_position option)
    \<Rightarrow> block_range \<Rightarrow> bool" where
  "idle_on bs f g r \<longleftrightarrow> (\<forall>b\<in>blocks_of r. \<forall>v. f b v = v) \<and> (\<forall>p. p div bs \<in> blocks_of r \<longrightarrow> (\<forall>v. g p v = v))"

lemma copy_of_same:
  assumes "idle_on bs f g r" "nodes_grow nodes nodes'" "tree h bs nodes i r"
  shows "copy_of h bs f g nodes nodes' i i r"
  using assms tree_grow [OF assms(2,3)] by (simp add: copy_of_def idle_on_def block_at_grow [OF assms(2,3)] run_at_grow [OF assms(2,3)])

definition child_copied ::
  "nat \<Rightarrow> nat \<Rightarrow> (nat \<Rightarrow> segment_block option \<Rightarrow> segment_block option) \<Rightarrow> (nat \<Rightarrow> log_position option \<Rightarrow> log_position option)
    \<Rightarrow> node_table \<Rightarrow> node_table \<Rightarrow> metadata_child \<Rightarrow> metadata_child \<Rightarrow> bool" where
  "child_copied h bs f g nodes nodes' c c' \<longleftrightarrow> mc_range c' = mc_range c
    \<and> copy_of h bs f g nodes nodes' (mc_node_id c) (mc_node_id c') (mc_range c)"

lemma children_ranges: "list_all2 (child_copied h bs f g nodes nodes') cs cs' \<Longrightarrow> map mc_range cs' = map mc_range cs"
  by (induction rule: list_all2_induct) (auto simp: child_copied_def)

lemma find_copied:
  assumes "list_all2 (child_copied h bs f g nodes nodes') cs cs'"
  shows "rel_option (child_copied h bs f g nodes nodes')
    (find (\<lambda>c. x \<in> blocks_of (mc_range c)) cs) (find (\<lambda>c. x \<in> blocks_of (mc_range c)) cs')"
  using assms by (induction rule: list_all2_induct) (auto simp: child_copied_def simp del: in_blocks_of)

lemma copy_of_internal:
  assumes t: "tree (Suc h) bs nodes i r" and node: "bt_get nodes i = Some node" "mn_kind node = Internal cs"
    and node': "bt_get nodes' i' = Some node'" "mn_node_id node' = i'" "mn_covered_range node' = r" "mn_kind node' = Internal cs'"
    and cs: "list_all2 (child_copied h bs f g nodes nodes') cs cs'"
  shows "copy_of (Suc h) bs f g nodes nodes' i i' r"
proof -
  have r: "range_ok r" "0 < range_blocks r" "cs \<noteq> []" and til: "tiling (range_start r) (range_stop r) (map mc_range cs)"
    using t node by auto
  have "\<forall>c\<in>set cs'. tree h bs nodes' (mc_node_id c) (mc_range c)"
    using cs by (auto simp: list_all2_conv_all_nth in_set_conv_nth child_copied_def copy_of_def)
  moreover have "cs' \<noteq> []"
    using cs r(3) by auto
  ultimately have tree': "tree (Suc h) bs nodes' i' r"
    using node' r til children_ranges [OF cs] by simp
  have pick: "\<exists>c c'. find (\<lambda>c. b \<in> blocks_of (mc_range c)) cs = Some c \<and> find (\<lambda>c. b \<in> blocks_of (mc_range c)) cs' = Some c'
      \<and> b \<in> blocks_of (mc_range c) \<and> child_copied h bs f g nodes nodes' c c'" if b: "b \<in> blocks_of r" for b
  proof -
    obtain c where "find (\<lambda>c. b \<in> blocks_of (mc_range c)) cs = Some c" "b \<in> blocks_of (mc_range c)"
      using find_child [OF til] b by (metis in_blocks_of)
    then show ?thesis
      using find_copied [OF cs, of b] by (cases "find (\<lambda>c. b \<in> blocks_of (mc_range c)) cs'") auto
  qed
  have "block_at (Suc h) nodes' i' b = f b (block_at (Suc h) nodes i b)" if b: "b \<in> blocks_of r" for b
    using pick [OF b] node node' by (auto simp: child_copied_def copy_of_def simp del: in_blocks_of)
  moreover have "run_at (Suc h) bs nodes' i' p = g p (run_at (Suc h) bs nodes i p)" if p: "p div bs \<in> blocks_of r" for p
    using pick [OF p] node node' by (auto simp: child_copied_def copy_of_def simp del: in_blocks_of)
  ultimately show ?thesis
    using tree' by (simp add: copy_of_def)
qed

end
