(* ===== verification/Segment_Catalog.thy ===== *)
theory Segment_Catalog
  imports Grants Config
begin

text \<open>
  The catalog of one storage node (\<^verbatim>\<open>local/segment_catalog.rs\<close>): the lifecycle of every
  segment, from reservation to release.  Lifecycle states are ordered the way the lifecycle runs;
  every operation moves every segment forward or leaves it alone.
\<close>

section \<open>Lifecycle states\<close>

datatype segment_lifecycle_state =
  Reserved | Writing | DurablePendingMetadata | Referenced | Released | Freed

primrec lifecycle_rank :: "segment_lifecycle_state \<Rightarrow> nat" where
  "lifecycle_rank Reserved = 0"
| "lifecycle_rank Writing = 1"
| "lifecycle_rank DurablePendingMetadata = 2"
| "lifecycle_rank Referenced = 3"
| "lifecycle_rank Released = 4"
| "lifecycle_rank Freed = 5"

instantiation segment_lifecycle_state :: linorder
begin

definition less_eq_segment_lifecycle_state where
  "s \<le> t \<longleftrightarrow> lifecycle_rank s \<le> lifecycle_rank t"

definition less_segment_lifecycle_state where
  "s < t \<longleftrightarrow> lifecycle_rank s < lifecycle_rank t"

instance
proof
  fix s t :: segment_lifecycle_state
  show "s = t" if "s \<le> t" "t \<le> s"
    using that by (cases s; cases t) (auto simp: less_eq_segment_lifecycle_state_def)
qed (auto simp: less_eq_segment_lifecycle_state_def less_segment_lifecycle_state_def)

end

lemmas lifecycle_order = less_eq_segment_lifecycle_state_def less_segment_lifecycle_state_def

section \<open>Catalog state\<close>

record segment_reservation_intent =
  ri_write_intent :: write_intent_id
  ri_owner :: mapping_owner
  ri_bytes :: nat

record segment_reservation =
  rs_segment_id :: segment_id
  rs_bytes :: nat

record catalog_entry =
  ce_intent :: segment_reservation_intent
  ce_reservation :: segment_reservation
  ce_state :: segment_lifecycle_state
  ce_receipt :: "segment_write_receipt option"

record catalog_inner =
  ca_next_segment_id :: nat
  ca_entries :: "(segment_id, catalog_entry) btree"

type_synonym 'a catalog_op = "(catalog_inner, failure, 'a) op"

definition catalog_new :: catalog_inner where
  "catalog_new = \<lparr>ca_next_segment_id = 1, ca_entries = []\<rparr>"

section \<open>Operations\<close>

definition reserve_segment_with_id ::
  "segment_id \<Rightarrow> segment_reservation_intent \<Rightarrow> segment_reservation catalog_op" where
  "reserve_segment_with_id segment_id intent =
    seqM (liftM (ensure (ri_bytes intent \<noteq> 0) invalid_argument)) (\<lambda>_.
    seqM (askM (\<lambda>c. ensure (\<not> bt_has (ca_entries c) segment_id) conflict)) (\<lambda>_.
    seqM (getM ca_next_segment_id) (\<lambda>nxt.
    seqM (if nxt \<le> segment_id
          then seqM (liftM (ok_or (checked_add_u128 segment_id 1) conflict)) (\<lambda>n.
            modM (\<lambda>c. c\<lparr>ca_next_segment_id := n\<rparr>))
          else returnM ()) (\<lambda>_.
    let reservation = \<lparr>rs_segment_id = segment_id, rs_bytes = ri_bytes intent\<rparr> in
    seqM (modM (\<lambda>c. c\<lparr>ca_entries := bt_insert segment_id
        \<lparr>ce_intent = intent, ce_reservation = reservation, ce_state = Reserved, ce_receipt = None\<rparr>
        (ca_entries c)\<rparr>)) (\<lambda>_.
    returnM reservation)))))"

definition reserve_segment :: "segment_reservation_intent \<Rightarrow> segment_reservation catalog_op" where
  "reserve_segment intent =
    seqM (liftM (ensure (ri_bytes intent \<noteq> 0) invalid_argument)) (\<lambda>_.
    seqM (getM ca_next_segment_id) (\<lambda>segment_id.
    reserve_segment_with_id segment_id intent))"

definition contains_segment :: "catalog_inner \<Rightarrow> segment_id \<Rightarrow> bool" where
  "contains_segment c segment_id = bt_has (ca_entries c) segment_id"

definition get_entry :: "catalog_inner \<Rightarrow> segment_id \<Rightarrow> catalog_entry result" where
  "get_entry c segment_id = ok_or (bt_get (ca_entries c) segment_id) (not_found K_segment)"

definition catalog_state :: "catalog_inner \<Rightarrow> segment_id \<Rightarrow> segment_lifecycle_state result" where
  "catalog_state c segment_id = andThen (get_entry c segment_id) (\<lambda>e. Inr (ce_state e))"

definition receipt_for_segment :: "catalog_inner \<Rightarrow> segment_id \<Rightarrow> segment_write_receipt result" where
  "receipt_for_segment c segment_id =
    andThen (get_entry c segment_id) (\<lambda>e. ok_or (ce_receipt e) unavailable)"

definition commit_for_segment :: "catalog_inner \<Rightarrow> segment_id \<Rightarrow> segment_replica_commit result" where
  "commit_for_segment c segment_id =
    andThen (get_entry c segment_id) (\<lambda>e. ok_or (map_option replica_commit (ce_receipt e)) unavailable)"

definition intent_for_segment :: "catalog_inner \<Rightarrow> segment_id \<Rightarrow> segment_reservation_intent result" where
  "intent_for_segment c segment_id = andThen (get_entry c segment_id) (\<lambda>e. Inr (ce_intent e))"

definition catalog_entries :: "catalog_inner \<Rightarrow> (segment_id \<times> segment_lifecycle_state \<times> write_intent_id) list" where
  "catalog_entries c = map (\<lambda>(i, e). (i, ce_state e, ri_write_intent (ce_intent e))) (ca_entries c)"

record catalog_lifecycle_counts =
  n_reserved :: nat
  n_writing :: nat
  n_durable_pending :: nat
  n_referenced :: nat
  n_released :: nat
  n_freed :: nat

primrec count_state :: "segment_lifecycle_state \<Rightarrow> catalog_lifecycle_counts \<Rightarrow> catalog_lifecycle_counts" where
  "count_state Reserved n = n\<lparr>n_reserved := n_reserved n + 1\<rparr>"
| "count_state Writing n = n\<lparr>n_writing := n_writing n + 1\<rparr>"
| "count_state DurablePendingMetadata n = n\<lparr>n_durable_pending := n_durable_pending n + 1\<rparr>"
| "count_state Referenced n = n\<lparr>n_referenced := n_referenced n + 1\<rparr>"
| "count_state Released n = n\<lparr>n_released := n_released n + 1\<rparr>"
| "count_state Freed n = n\<lparr>n_freed := n_freed n + 1\<rparr>"

definition lifecycle_counts :: "catalog_inner \<Rightarrow> catalog_lifecycle_counts" where
  "lifecycle_counts c =
    foldl (\<lambda>n e. count_state (ce_state e) n)
      \<lparr>n_reserved = 0, n_writing = 0, n_durable_pending = 0, n_referenced = 0, n_released = 0, n_freed = 0\<rparr>
      (bt_values (ca_entries c))"

text \<open>
  \<^verbatim>\<open>get_entry_mut\<close> followed by a match on the entry: the entry is replaced by what the match
  makes of it, or the error is returned and nothing changes.
\<close>

definition update_entry :: "segment_id \<Rightarrow> (catalog_entry \<Rightarrow> catalog_entry result) \<Rightarrow> unit catalog_op" where
  "update_entry segment_id f =
    seqM (askM (\<lambda>c. get_entry c segment_id)) (\<lambda>entry.
    seqM (liftM (f entry)) (\<lambda>entry'.
    modM (\<lambda>c. c\<lparr>ca_entries := bt_insert segment_id entry' (ca_entries c)\<rparr>)))"

definition begin_write :: "segment_reservation \<Rightarrow> unit catalog_op" where
  "begin_write reservation =
    update_entry (rs_segment_id reservation) (\<lambda>e.
      andThen (ensure (ce_reservation e = reservation) conflict) (\<lambda>_.
      case ce_state e of
        Reserved \<Rightarrow> Inr (e\<lparr>ce_state := Writing\<rparr>)
      | Writing \<Rightarrow> Inr e
      | _ \<Rightarrow> Inl conflict))"

definition commit_transition ::
  "local_store_config \<Rightarrow> segment_reservation \<Rightarrow> segment_write_receipt \<Rightarrow> catalog_entry \<Rightarrow> catalog_entry result" where
  "commit_transition cfg reservation receipt e =
    andThen (ensure (ce_reservation e = reservation) conflict) (\<lambda>_.
    andThen (ensure (rc_segment_id receipt = rs_segment_id reservation
      \<and> sd_segment_id (rc_descriptor receipt) = rs_segment_id reservation
      \<and> pl_segment_id (rc_placement receipt) = rs_segment_id reservation) invalid_argument) (\<lambda>_.
    andThen (ensure (rc_storage_node receipt = cfg_storage_node cfg
      \<and> pl_storage_node (rc_placement receipt) = cfg_storage_node cfg) invalid_argument) (\<lambda>_.
    andThen (ensure (rc_bytes receipt = rs_bytes reservation
      \<and> sd_bytes (rc_descriptor receipt) = rs_bytes reservation
      \<and> pl_bytes (rc_placement receipt) = rs_bytes reservation) invalid_argument) (\<lambda>_.
    case ce_state e of
      Writing \<Rightarrow> Inr (e\<lparr>ce_receipt := Some receipt, ce_state := DurablePendingMetadata\<rparr>)
    | DurablePendingMetadata \<Rightarrow> if ce_receipt e = Some receipt then Inr e else Inl conflict
    | _ \<Rightarrow> Inl conflict))))"

definition commit_segment ::
  "local_store_config \<Rightarrow> segment_reservation \<Rightarrow> segment_write_receipt \<Rightarrow> unit catalog_op" where
  "commit_segment cfg reservation receipt =
    update_entry (rs_segment_id reservation) (commit_transition cfg reservation receipt)"

definition mark_segment_referenced :: "segment_id \<Rightarrow> unit catalog_op" where
  "mark_segment_referenced segment_id =
    update_entry segment_id (\<lambda>e. case ce_state e of
        DurablePendingMetadata \<Rightarrow> Inr (e\<lparr>ce_state := Referenced\<rparr>)
      | Referenced \<Rightarrow> Inr e
      | _ \<Rightarrow> Inl conflict)"

definition release_segment :: "segment_id \<Rightarrow> unit catalog_op" where
  "release_segment segment_id =
    update_entry segment_id (\<lambda>e. case ce_state e of
        Referenced \<Rightarrow> Inr (e\<lparr>ce_state := Released\<rparr>)
      | Released \<Rightarrow> Inr e
      | _ \<Rightarrow> Inl conflict)"

definition expire_reservation :: "segment_id \<Rightarrow> unit catalog_op" where
  "expire_reservation segment_id =
    update_entry segment_id (\<lambda>e. case ce_state e of
        Reserved \<Rightarrow> Inr (e\<lparr>ce_state := Freed\<rparr>)
      | Freed \<Rightarrow> Inr e
      | _ \<Rightarrow> Inl conflict)"

definition fail_write :: "segment_id \<Rightarrow> unit catalog_op" where
  "fail_write segment_id =
    update_entry segment_id (\<lambda>e. case ce_state e of
        Writing \<Rightarrow> Inr (e\<lparr>ce_state := Freed\<rparr>)
      | Freed \<Rightarrow> Inr e
      | _ \<Rightarrow> Inl conflict)"

definition free_orphan_segment :: "segment_id \<Rightarrow> unit catalog_op" where
  "free_orphan_segment segment_id =
    update_entry segment_id (\<lambda>e. case ce_state e of
        DurablePendingMetadata \<Rightarrow> Inr (e\<lparr>ce_state := Freed\<rparr>)
      | Freed \<Rightarrow> Inr e
      | _ \<Rightarrow> Inl conflict)"

definition catalog_delete_segment :: "segment_id \<Rightarrow> unit catalog_op" where
  "catalog_delete_segment segment_id =
    update_entry segment_id (\<lambda>e. case ce_state e of
        Released \<Rightarrow> Inr (e\<lparr>ce_state := Freed\<rparr>)
      | Freed \<Rightarrow> Inr e
      | _ \<Rightarrow> Inl conflict)"

definition locate_segment :: "catalog_inner \<Rightarrow> segment_id \<Rightarrow> segment_replica_placement result" where
  "locate_segment c segment_id =
    andThen (get_entry c segment_id) (\<lambda>e.
    case ce_state e of
      DurablePendingMetadata \<Rightarrow> ok_or (map_option rc_placement (ce_receipt e)) corrupt
    | Referenced \<Rightarrow> ok_or (map_option rc_placement (ce_receipt e)) corrupt
    | Released \<Rightarrow> ok_or (map_option rc_placement (ce_receipt e)) corrupt
    | Freed \<Rightarrow> Inl (not_found K_segment)
    | Reserved \<Rightarrow> Inl unavailable
    | Writing \<Rightarrow> Inl unavailable)"

text \<open>One call of any of the operations that change the catalog, whatever its outcome.\<close>

inductive catalog_step :: "local_store_config \<Rightarrow> catalog_inner \<Rightarrow> catalog_inner \<Rightarrow> bool" for cfg where
  step_reserve_with_id: "reserve_segment_with_id i intent c = (r, c') \<Longrightarrow> catalog_step cfg c c'"
| step_reserve: "reserve_segment intent c = (r, c') \<Longrightarrow> catalog_step cfg c c'"
| step_begin: "begin_write res c = (u, c') \<Longrightarrow> catalog_step cfg c c'"
| step_commit: "commit_segment cfg res receipt c = (u, c') \<Longrightarrow> catalog_step cfg c c'"
| step_reference: "mark_segment_referenced i c = (u, c') \<Longrightarrow> catalog_step cfg c c'"
| step_release: "release_segment i c = (u, c') \<Longrightarrow> catalog_step cfg c c'"
| step_expire: "expire_reservation i c = (u, c') \<Longrightarrow> catalog_step cfg c c'"
| step_fail: "fail_write i c = (u, c') \<Longrightarrow> catalog_step cfg c c'"
| step_orphan: "free_orphan_segment i c = (u, c') \<Longrightarrow> catalog_step cfg c c'"
| step_delete: "catalog_delete_segment i c = (u, c') \<Longrightarrow> catalog_step cfg c c'"

section \<open>Every step moves segments forward\<close>

text \<open>What one step may do to an entry that is already there.\<close>

definition entry_forward :: "catalog_entry \<Rightarrow> catalog_entry \<Rightarrow> bool" where
  "entry_forward e e' \<longleftrightarrow> ce_state e \<le> ce_state e' \<and> ce_intent e' = ce_intent e
    \<and> ce_reservation e' = ce_reservation e
    \<and> (\<forall>r. ce_receipt e = Some r \<longrightarrow> ce_receipt e' = Some r)
    \<and> (ce_state e' = ce_state e \<longrightarrow> e' = e)"

definition catalog_forward :: "catalog_inner \<Rightarrow> catalog_inner \<Rightarrow> bool" where
  "catalog_forward c c' \<longleftrightarrow>
    (\<forall>i e. bt_get (ca_entries c) i = Some e \<longrightarrow> (\<exists>e'. bt_get (ca_entries c') i = Some e' \<and> entry_forward e e'))"

text \<open>What holds of every entry of a catalog: receipts exist exactly from the durable state on.\<close>

definition entry_ok :: "local_store_config \<Rightarrow> segment_id \<Rightarrow> catalog_entry \<Rightarrow> bool" where
  "entry_ok cfg i e \<longleftrightarrow>
    rs_segment_id (ce_reservation e) = i \<and> rs_bytes (ce_reservation e) = ri_bytes (ce_intent e) \<and> 0 < ri_bytes (ce_intent e)
    \<and> (ce_state e \<in> {Reserved, Writing} \<longrightarrow> ce_receipt e = None)
    \<and> (ce_state e \<in> {DurablePendingMetadata, Referenced, Released} \<longrightarrow> ce_receipt e \<noteq> None)
    \<and> (\<forall>r. ce_receipt e = Some r \<longrightarrow> rc_segment_id r = i \<and> rc_storage_node r = cfg_storage_node cfg
        \<and> sd_segment_id (rc_descriptor r) = i \<and> rc_bytes r = ri_bytes (ce_intent e)
        \<and> sd_bytes (rc_descriptor r) = ri_bytes (ce_intent e))"

definition catalog_ok :: "local_store_config \<Rightarrow> catalog_inner \<Rightarrow> bool" where
  "catalog_ok cfg c \<longleftrightarrow> bt_ok (ca_entries c)
    \<and> (\<forall>i e. bt_get (ca_entries c) i = Some e \<longrightarrow> entry_ok cfg i e \<and> i < ca_next_segment_id c)"

lemma get_entry_Inr [simp]: "get_entry c i = Inr e \<longleftrightarrow> bt_get (ca_entries c) i = Some e"
  by (simp add: get_entry_def)

lemma update_entry_Inr:
  "update_entry i f c = (Inr u, c') \<longleftrightarrow>
    (\<exists>e e'. bt_get (ca_entries c) i = Some e \<and> f e = Inr e' \<and> c' = c\<lparr>ca_entries := bt_insert i e' (ca_entries c)\<rparr>)"
  by (auto simp: update_entry_def)

lemma update_entry_Inl: "update_entry i f c = (Inl x, c') \<Longrightarrow> c' = c"
  by (auto simp: update_entry_def seqM_Inl_iff)

lemma update_entry_run:
  "update_entry i f c =
    (case bt_get (ca_entries c) i of None \<Rightarrow> (Inl (not_found K_segment), c)
      | Some e \<Rightarrow> (case f e of Inl x \<Rightarrow> (Inl x, c)
        | Inr e' \<Rightarrow> (Inr (), c\<lparr>ca_entries := bt_insert i e' (ca_entries c)\<rparr>)))"
  by (simp add: update_entry_def run_defs get_entry_def split: option.splits sum.splits)

lemma catalog_forward_refl [simp]: "catalog_forward c c"
  by (auto simp: catalog_forward_def entry_forward_def)

lemma update_entry_forward:
  assumes "update_entry i f c = (r, c')" "\<And>e e'. f e = Inr e' \<Longrightarrow> entry_ok cfg i e \<Longrightarrow> entry_forward e e'"
    and "catalog_ok cfg c"
  shows "catalog_forward c c'"
proof (cases r)
  case (Inl x)
  with assms(1) show ?thesis
    by (auto dest: update_entry_Inl)
next
  case (Inr u)
  with assms(1) obtain e e' where e: "bt_get (ca_entries c) i = Some e" "f e = Inr e'"
    "c' = c\<lparr>ca_entries := bt_insert i e' (ca_entries c)\<rparr>"
    by (auto simp: update_entry_Inr)
  have "entry_forward e e'"
    by (rule assms(2) [OF e(2)]) (use assms(3) e(1) in \<open>auto simp: catalog_ok_def\<close>)
  with e show ?thesis
    by (auto simp: catalog_forward_def entry_forward_def)
qed

lemma update_entry_ok:
  assumes "update_entry i f c = (r, c')" "\<And>e e'. f e = Inr e' \<Longrightarrow> entry_ok cfg i e \<Longrightarrow> entry_ok cfg i e'"
    and "catalog_ok cfg c"
  shows "catalog_ok cfg c'"
proof (cases r)
  case (Inl x)
  with assms(1,3) show ?thesis
    by (auto dest: update_entry_Inl)
next
  case (Inr u)
  with assms(1) obtain e e' where e: "bt_get (ca_entries c) i = Some e" "f e = Inr e'"
    "c' = c\<lparr>ca_entries := bt_insert i e' (ca_entries c)\<rparr>"
    by (auto simp: update_entry_Inr)
  then show ?thesis
    using assms(3) assms(2) [OF e(2)] by (auto simp: catalog_ok_def)
qed

lemmas catalog_transition_defs = begin_write_def commit_segment_def commit_transition_def mark_segment_referenced_def
  release_segment_def expire_reservation_def fail_write_def free_orphan_segment_def catalog_delete_segment_def

lemma reserve_with_id_cases:
  assumes "reserve_segment_with_id i intent c = (r, c')"
  shows "(\<exists>x. r = Inl x \<and> c' = c) \<or>
    (0 < ri_bytes intent \<and> bt_get (ca_entries c) i = None
     \<and> r = Inr \<lparr>rs_segment_id = i, rs_bytes = ri_bytes intent\<rparr>
     \<and> ca_next_segment_id c' = max (ca_next_segment_id c) (i + 1)
     \<and> ca_entries c' = bt_insert i \<lparr>ce_intent = intent,
        ce_reservation = \<lparr>rs_segment_id = i, rs_bytes = ri_bytes intent\<rparr>, ce_state = Reserved, ce_receipt = None\<rparr> (ca_entries c))"
  using assms
  by (cases r)
    (auto simp: reserve_segment_with_id_def seqM_Inl_iff Let_def bt_has_not_iff split: if_splits)

lemma reserve_cases:
  assumes "reserve_segment intent c = (r, c')"
  shows "(\<exists>x. r = Inl x \<and> c' = c) \<or> reserve_segment_with_id (ca_next_segment_id c) intent c = (r, c')"
  using assms by (cases r) (auto simp: reserve_segment_def seqM_Inl_iff)

lemma reserve_forward:
  assumes "reserve_segment_with_id i intent c = (r, c')"
  shows "catalog_forward c c'"
  using reserve_with_id_cases [OF assms] by (auto simp: catalog_forward_def entry_forward_def)

lemma reserve_ok:
  assumes "reserve_segment_with_id i intent c = (r, c')" "catalog_ok cfg c"
  shows "catalog_ok cfg c'"
proof -
  have "entry_ok cfg i \<lparr>ce_intent = intent, ce_reservation = \<lparr>rs_segment_id = i, rs_bytes = ri_bytes intent\<rparr>,
      ce_state = Reserved, ce_receipt = None\<rparr>" if "0 < ri_bytes intent"
    using that by (simp add: entry_ok_def)
  then show ?thesis
    using reserve_with_id_cases [OF assms(1)] assms(2)
    by (auto simp: catalog_ok_def less_max_iff_disj split: if_splits)
qed

lemma catalog_step_forward: "catalog_step cfg c c' \<Longrightarrow> catalog_ok cfg c \<Longrightarrow> catalog_forward c c'"
proof (induction rule: catalog_step.induct)
  case (step_reserve intent c r c')
  then show ?case
    using reserve_cases reserve_forward by fastforce
qed (auto intro: reserve_forward elim!: update_entry_forward [where cfg = cfg]
    simp: catalog_transition_defs entry_forward_def entry_ok_def lifecycle_order
    split: segment_lifecycle_state.splits if_splits)

lemma catalog_step_ok: "catalog_step cfg c c' \<Longrightarrow> catalog_ok cfg c \<Longrightarrow> catalog_ok cfg c'"
proof (induction rule: catalog_step.induct)
  case (step_reserve intent c r c')
  then show ?case
    using reserve_cases reserve_ok by fastforce
qed (auto intro: reserve_ok elim!: update_entry_ok
    simp: catalog_transition_defs entry_ok_def
    split: segment_lifecycle_state.splits if_splits)

lemma entry_forward_trans: "entry_forward e f \<Longrightarrow> entry_forward f g \<Longrightarrow> entry_forward e g"
  by (auto simp: entry_forward_def)

lemma catalog_forward_trans: "catalog_forward c d \<Longrightarrow> catalog_forward d e \<Longrightarrow> catalog_forward c e"
  unfolding catalog_forward_def by (meson entry_forward_trans)

lemma catalog_steps_forward:
  "(catalog_step cfg)\<^sup>*\<^sup>* c c' \<Longrightarrow> catalog_ok cfg c \<Longrightarrow> catalog_ok cfg c' \<and> catalog_forward c c'"
proof (induction rule: rtranclp_induct)
  case (step d e)
  then show ?case
    using catalog_step_ok catalog_step_forward catalog_forward_trans by blast
qed simp

lemma catalog_new_ok: "catalog_ok cfg catalog_new"
  by (simp add: catalog_ok_def catalog_new_def)

lemma locate_not_corrupt:
  assumes "catalog_ok cfg c"
  shows "locate_segment c i \<noteq> Inl corrupt"
proof (cases "bt_get (ca_entries c) i")
  case (Some e)
  then have "entry_ok cfg i e"
    using assms by (simp add: catalog_ok_def)
  with Some show ?thesis
    by (auto simp: locate_segment_def get_entry_def entry_ok_def split: segment_lifecycle_state.splits)
qed (simp add: locate_segment_def get_entry_def)

section \<open>Properties\<close>

text \<open>
  C22: along every sequence of catalog operations, successful or failing, a segment only moves forward
  through its lifecycle; its intent and its reservation never change, a receipt once recorded is
  never replaced, and an entry whose state did not change did not change at all.
\<close>

theorem lifecycle_only_moves_forward:
  assumes "(catalog_step cfg)\<^sup>*\<^sup>* catalog_new c" "(catalog_step cfg)\<^sup>*\<^sup>* c c'"
    and "bt_get (ca_entries c) i = Some e"
  shows "\<exists>e'. bt_get (ca_entries c') i = Some e' \<and> ce_state e \<le> ce_state e' \<and> ce_intent e' = ce_intent e
    \<and> ce_reservation e' = ce_reservation e \<and> (\<forall>r. ce_receipt e = Some r \<longrightarrow> ce_receipt e' = Some r)
    \<and> (ce_state e' = ce_state e \<longrightarrow> e' = e)"
proof -
  have "catalog_ok cfg c"
    using catalog_steps_forward [OF assms(1) catalog_new_ok] ..
  then have "catalog_forward c c'"
    using catalog_steps_forward [OF assms(2)] by simp
  with assms(3) show ?thesis
    by (auto simp: catalog_forward_def entry_forward_def)
qed

definition sample_intent :: segment_reservation_intent where
  "sample_intent = \<lparr>ri_write_intent = 4, ri_owner = BlockDevice 5, ri_bytes = 8\<rparr>"

definition sample_catalog :: catalog_inner where
  "sample_catalog = snd (reserve_segment_with_id 3 sample_intent catalog_new)"

definition sample_catalog_writing :: catalog_inner where
  "sample_catalog_writing = snd (begin_write \<lparr>rs_segment_id = 3, rs_bytes = 8\<rparr> sample_catalog)"

lemma sample_catalog_steps:
  "(catalog_step cfg)\<^sup>*\<^sup>* catalog_new sample_catalog" "(catalog_step cfg)\<^sup>*\<^sup>* sample_catalog sample_catalog_writing"
  unfolding sample_catalog_def sample_catalog_writing_def
  by (rule r_into_rtranclp, rule step_reserve_with_id [OF surjective_pairing])
    (rule r_into_rtranclp, rule step_begin [OF surjective_pairing])

definition sample_catalog_entry :: catalog_entry where
  "sample_catalog_entry = \<lparr>ce_intent = sample_intent, ce_reservation = \<lparr>rs_segment_id = 3, rs_bytes = 8\<rparr>,
    ce_state = Reserved, ce_receipt = None\<rparr>"

definition sample_catalog_freed :: catalog_inner where
  "sample_catalog_freed = snd (expire_reservation 3 sample_catalog)"

text \<open>Rules that run the catalog on concrete requests.\<close>

lemmas catalog_eval = sample_catalog_def sample_catalog_freed_def sample_catalog_entry_def sample_intent_def
  reserve_segment_with_id_def expire_reservation_def update_entry_run catalog_new_def run_defs bt_has_def
  ensure_def checked_add_u128_def u128_limit_def Let_def

lemma sample_catalog_get: "bt_get (ca_entries sample_catalog) 3 = Some sample_catalog_entry"
  by (simp add: catalog_eval)

theorem lifecycle_only_moves_forward_witness:
  "\<exists>e'. bt_get (ca_entries sample_catalog_writing) 3 = Some e' \<and> ce_state sample_catalog_entry \<le> ce_state e'
    \<and> ce_intent e' = ce_intent sample_catalog_entry \<and> ce_reservation e' = ce_reservation sample_catalog_entry
    \<and> (\<forall>r. ce_receipt sample_catalog_entry = Some r \<longrightarrow> ce_receipt e' = Some r)
    \<and> (ce_state e' = ce_state sample_catalog_entry \<longrightarrow> e' = sample_catalog_entry)"
  by (rule lifecycle_only_moves_forward [OF sample_catalog_steps [where cfg = default_config] sample_catalog_get])

text \<open>
  C23: a segment id that has been freed is never used again: its entry stays exactly as it is, and
  every later attempt to reserve the id is refused.
\<close>

theorem freed_segment_ids_stay_freed:
  assumes "(catalog_step cfg)\<^sup>*\<^sup>* catalog_new c" "(catalog_step cfg)\<^sup>*\<^sup>* c c'"
    and "bt_get (ca_entries c) i = Some e" "ce_state e = Freed"
  shows "bt_get (ca_entries c') i = Some e \<and> (\<forall>intent. \<exists>x. reserve_segment_with_id i intent c' = (Inl x, c'))"
proof -
  have "catalog_ok cfg c"
    using catalog_steps_forward [OF assms(1) catalog_new_ok] ..
  then obtain e' where e': "bt_get (ca_entries c') i = Some e'" "entry_forward e e'"
    using catalog_steps_forward [OF assms(2)] assms(3) by (auto simp: catalog_forward_def)
  have "ce_state e' = Freed"
    using e'(2) assms(4) by (cases "ce_state e'") (auto simp: entry_forward_def lifecycle_order)
  with e' assms(4) have get: "bt_get (ca_entries c') i = Some e"
    by (simp add: entry_forward_def)
  have "\<exists>x. reserve_segment_with_id i intent c' = (Inl x, c')" for intent
    using reserve_with_id_cases [of i intent c' "fst (reserve_segment_with_id i intent c')" "snd (reserve_segment_with_id i intent c')"]
      get by (cases "reserve_segment_with_id i intent c'") auto
  with get show ?thesis
    by blast
qed

theorem freed_segment_ids_stay_freed_witness:
  "bt_get (ca_entries sample_catalog_freed) 3 = Some (sample_catalog_entry\<lparr>ce_state := Freed\<rparr>)
    \<and> (\<forall>intent. \<exists>x. reserve_segment_with_id 3 intent sample_catalog_freed = (Inl x, sample_catalog_freed))"
proof (rule freed_segment_ids_stay_freed [where cfg = default_config])
  have "(catalog_step default_config)\<^sup>*\<^sup>* sample_catalog sample_catalog_freed"
    unfolding sample_catalog_freed_def by (rule r_into_rtranclp, rule step_expire [OF surjective_pairing])
  then show "(catalog_step default_config)\<^sup>*\<^sup>* catalog_new sample_catalog_freed"
    using sample_catalog_steps(1) by (rule rtranclp_trans [rotated])
  show "bt_get (ca_entries sample_catalog_freed) 3 = Some (sample_catalog_entry\<lparr>ce_state := Freed\<rparr>)"
    by (simp add: catalog_eval)
qed simp_all

text \<open>
  C24: locating a segment in any catalog the operations can produce never reports corruption: a
  segment in a readable state always has its receipt.
\<close>

theorem locate_never_corrupt:
  assumes "(catalog_step cfg)\<^sup>*\<^sup>* catalog_new c"
  shows "locate_segment c i \<noteq> Inl corrupt"
  using catalog_steps_forward [OF assms catalog_new_ok] locate_not_corrupt by blast

theorem locate_never_corrupt_witness: "locate_segment sample_catalog 3 \<noteq> Inl corrupt"
  by (rule locate_never_corrupt [OF sample_catalog_steps(1) [where cfg = default_config]])

end
