(* ===== verification/Segment_Store.thy ===== *)
theory Segment_Store
  imports Segment_Catalog
begin

text \<open>
  Immutable segment bytes of one storage node (\<^verbatim>\<open>local/segment_store.rs\<close>) and the payload
  integrity helpers (\<^verbatim>\<open>local/util.rs\<close>).  The checksum function comes from the \<^verbatim>\<open>crc32c\<close>
  package and is the parameter \<open>crc\<close>; nothing is assumed about it.
\<close>

section \<open>Payload integrity\<close>

primrec segment_payload_integrity_of ::
  "(byte list \<Rightarrow> nat) \<Rightarrow> payload_integrity \<Rightarrow> byte list \<Rightarrow> segment_payload_integrity" where
  "segment_payload_integrity_of crc Verified bytes = Crc32c (crc bytes)"
| "segment_payload_integrity_of crc Unchecked bytes = Payload_Unchecked"

definition verify_segment_payload_integrity ::
  "(byte list \<Rightarrow> nat) \<Rightarrow> segment_payload_integrity \<Rightarrow> byte list \<Rightarrow> unit result" where
  "verify_segment_payload_integrity crc integrity bytes =
    (case integrity of
      Crc32c expected \<Rightarrow> if crc bytes \<noteq> expected then Inl corrupt else Inr ()
    | Payload_Unchecked \<Rightarrow> Inr ())"

section \<open>State and operations\<close>

record segment_record =
  sg_bytes :: "byte list"
  sg_synced :: bool
  sg_commit :: segment_replica_commit

record segment_store_inner =
  ss_next_offset :: nat
  ss_segments :: "(segment_id, segment_record) btree"

type_synonym 'a store_op = "(segment_store_inner, failure, 'a) op"

definition store_new :: segment_store_inner where
  "store_new = \<lparr>ss_next_offset = 0, ss_segments = []\<rparr>"

definition get_segment :: "segment_store_inner \<Rightarrow> segment_id \<Rightarrow> segment_record result" where
  "get_segment s segment_id = ok_or (bt_get (ss_segments s) segment_id) (not_found K_segment)"

definition write_segment_owned ::
  "(byte list \<Rightarrow> nat) \<Rightarrow> local_store_config \<Rightarrow> segment_reservation \<Rightarrow> byte list \<Rightarrow> payload_integrity
    \<Rightarrow> segment_replica_commit store_op" where
  "write_segment_owned crc cfg reservation bytes mode =
    seqM (liftM (validate_config cfg)) (\<lambda>_.
    seqM (liftM (ensure (bytes \<noteq> []) invalid_argument)) (\<lambda>_.
    seqM (liftM (u64_of_len bytes)) (\<lambda>bytes_len.
    seqM (liftM (ensure (rs_bytes reservation = bytes_len) invalid_argument)) (\<lambda>_.
    seqM (liftM (ensure (bytes_len mod cfg_block_size cfg = 0) invalid_argument)) (\<lambda>_.
    let integrity = segment_payload_integrity_of crc mode bytes in
    seqM (getM (\<lambda>s. bt_get (ss_segments s) (rs_segment_id reservation))) (\<lambda>existing.
    case existing of
      Some rec \<Rightarrow> if sg_bytes rec = bytes then returnM (sg_commit rec) else failM conflict
    | None \<Rightarrow>
        seqM (getM ss_next_offset) (\<lambda>offset.
        seqM (liftM (ok_or (checked_add_u64 offset (rs_bytes reservation)) conflict)) (\<lambda>next_offset.
        seqM (modM (\<lambda>s. s\<lparr>ss_next_offset := next_offset\<rparr>)) (\<lambda>_.
        let commit =
          \<lparr>cm_descriptor = \<lparr>sd_segment_id = rs_segment_id reservation,
             sd_blocks = rs_bytes reservation div cfg_block_size cfg,
             sd_bytes = rs_bytes reservation, sd_integrity = integrity\<rparr>,
           cm_placement = \<lparr>pl_segment_id = rs_segment_id reservation, pl_storage_node = cfg_storage_node cfg,
             pl_offset = offset, pl_bytes = rs_bytes reservation\<rparr>\<rparr>
        in
        seqM (modM (\<lambda>s. s\<lparr>ss_segments := bt_insert (rs_segment_id reservation)
          \<lparr>sg_bytes = bytes, sg_synced = False, sg_commit = commit\<rparr> (ss_segments s)\<rparr>)) (\<lambda>_.
        returnM commit))))))))))"

definition sync_segment :: "segment_id \<Rightarrow> unit store_op" where
  "sync_segment segment_id =
    seqM (askM (\<lambda>s. get_segment s segment_id)) (\<lambda>rec.
    modM (\<lambda>s. s\<lparr>ss_segments := bt_insert segment_id (rec\<lparr>sg_synced := True\<rparr>) (ss_segments s)\<rparr>))"

text \<open>
  A read fills a buffer of \<open>buf_len\<close> bytes; the model returns the bytes it is filled with.
\<close>

definition read_segment :: "segment_store_inner \<Rightarrow> segment_id \<Rightarrow> byte_range \<Rightarrow> nat \<Rightarrow> byte list result" where
  "read_segment s segment_id r buf_len =
    andThen (get_segment s segment_id) (\<lambda>rec.
    andThen (ensure (sg_synced rec) unavailable) (\<lambda>_.
    andThen (byte_end r) (\<lambda>stop.
    andThen (u64_of_len (sg_bytes rec)) (\<lambda>record_len.
    andThen (ensure (\<not> record_len < stop) invalid_argument) (\<lambda>_.
    andThen (ensure (buf_len = byte_len r) invalid_argument) (\<lambda>_.
    Inr (take (byte_len r) (drop (byte_offset r) (sg_bytes rec)))))))))"

definition store_delete_segment :: "segment_id \<Rightarrow> unit store_op" where
  "store_delete_segment segment_id = modM (\<lambda>s. s\<lparr>ss_segments := bt_remove segment_id (ss_segments s)\<rparr>)"

definition is_synced :: "segment_store_inner \<Rightarrow> segment_id \<Rightarrow> bool result" where
  "is_synced s segment_id = andThen (get_segment s segment_id) (\<lambda>rec. Inr (sg_synced rec))"

definition verify_segment_payload_for_read ::
  "(byte list \<Rightarrow> nat) \<Rightarrow> segment_store_inner \<Rightarrow> segment_id \<Rightarrow> read_verification \<Rightarrow> unit result" where
  "verify_segment_payload_for_read crc s segment_id verification =
    (if verification = Skip then Inr ()
     else
       andThen (get_segment s segment_id) (\<lambda>rec.
       case sd_integrity (cm_descriptor (sg_commit rec)) of
         Payload_Unchecked \<Rightarrow> if verification = RequireVerified then Inl conflict else Inr ()
       | Crc32c c \<Rightarrow> verify_segment_payload_integrity crc (Crc32c c) (sg_bytes rec)))"

record durable_segment_payload =
  dp_segment_id :: segment_id
  dp_storage_node :: storage_node_id
  dp_integrity :: segment_payload_integrity
  dp_bytes :: "byte list"

definition payload_of :: "storage_node_id \<Rightarrow> segment_id \<Rightarrow> segment_record \<Rightarrow> durable_segment_payload" where
  "payload_of node segment_id rec =
    \<lparr>dp_segment_id = segment_id, dp_storage_node = node,
     dp_integrity = sd_integrity (cm_descriptor (sg_commit rec)), dp_bytes = sg_bytes rec\<rparr>"

definition state_inner_for_persist ::
  "segment_store_inner \<Rightarrow> segment_id set \<Rightarrow> storage_node_id
    \<Rightarrow> segment_store_inner \<times> segment_id set \<times> durable_segment_payload list" where
  "state_inner_for_persist s previous node =
    (\<lparr>ss_next_offset = ss_next_offset s, ss_segments = []\<rparr>, set (bt_keys (ss_segments s)),
     map (\<lambda>(i, rec). payload_of node i rec) (filter (\<lambda>(i, _). i \<notin> previous) (ss_segments s)))"

definition payload_for_segment ::
  "segment_store_inner \<Rightarrow> storage_node_id \<Rightarrow> segment_id \<Rightarrow> durable_segment_payload result" where
  "payload_for_segment s node segment_id =
    andThen (get_segment s segment_id) (\<lambda>rec. Inr (payload_of node segment_id rec))"

section \<open>What the store keeps\<close>

definition record_ok :: "(byte list \<Rightarrow> nat) \<Rightarrow> local_store_config \<Rightarrow> segment_id \<Rightarrow> segment_record \<Rightarrow> bool" where
  "record_ok crc cfg i rec \<longleftrightarrow>
    (let d = cm_descriptor (sg_commit rec); p = cm_placement (sg_commit rec) in
      sg_bytes rec \<noteq> [] \<and> length (sg_bytes rec) < u64_limit
      \<and> sd_segment_id d = i \<and> sd_bytes d = length (sg_bytes rec)
      \<and> sd_blocks d * cfg_block_size cfg = length (sg_bytes rec)
      \<and> (\<exists>mode. sd_integrity d = segment_payload_integrity_of crc mode (sg_bytes rec))
      \<and> pl_segment_id p = i \<and> pl_storage_node p = cfg_storage_node cfg \<and> pl_bytes p = length (sg_bytes rec))"

definition placed_before :: "segment_record \<Rightarrow> nat \<Rightarrow> bool" where
  "placed_before rec n \<longleftrightarrow>
    pl_offset (cm_placement (sg_commit rec)) + pl_bytes (cm_placement (sg_commit rec)) \<le> n"

definition placements_disjoint :: "segment_record \<Rightarrow> segment_record \<Rightarrow> bool" where
  "placements_disjoint a b \<longleftrightarrow>
    placed_before a (pl_offset (cm_placement (sg_commit b))) \<or> placed_before b (pl_offset (cm_placement (sg_commit a)))"

definition store_ok :: "(byte list \<Rightarrow> nat) \<Rightarrow> local_store_config \<Rightarrow> segment_store_inner \<Rightarrow> bool" where
  "store_ok crc cfg s \<longleftrightarrow> bt_ok (ss_segments s)
    \<and> (\<forall>i rec. bt_get (ss_segments s) i = Some rec \<longrightarrow>
        record_ok crc cfg i rec \<and> placed_before rec (ss_next_offset s))
    \<and> (\<forall>i j a b. i \<noteq> j \<longrightarrow> bt_get (ss_segments s) i = Some a \<longrightarrow> bt_get (ss_segments s) j = Some b
        \<longrightarrow> placements_disjoint a b)"

lemma get_segment_Inr [simp]: "get_segment s i = Inr r \<longleftrightarrow> bt_get (ss_segments s) i = Some r"
  by (simp add: get_segment_def)

text \<open>A write either changes nothing, or adds one unsynced record at the end of the log.\<close>

lemma write_segment_cases:
  assumes "write_segment_owned crc cfg res bytes mode s = (r, s')"
  obtains (failed) x where "r = Inl x" "s' = s"
    | (existing) rec where "bt_get (ss_segments s) (rs_segment_id res) = Some rec" "sg_bytes rec = bytes"
        "r = Inr (sg_commit rec)" "s' = s"
    | (fresh) commit where "bt_get (ss_segments s) (rs_segment_id res) = None"
        "r = Inr commit" "bytes \<noteq> []" "length bytes < u64_limit" "rs_bytes res = length bytes"
        "length bytes mod cfg_block_size cfg = 0" "ss_next_offset s + length bytes < u64_limit"
        "commit = \<lparr>cm_descriptor = \<lparr>sd_segment_id = rs_segment_id res,
             sd_blocks = length bytes div cfg_block_size cfg, sd_bytes = length bytes,
             sd_integrity = segment_payload_integrity_of crc mode bytes\<rparr>,
           cm_placement = \<lparr>pl_segment_id = rs_segment_id res, pl_storage_node = cfg_storage_node cfg,
             pl_offset = ss_next_offset s, pl_bytes = length bytes\<rparr>\<rparr>"
        "s' = s\<lparr>ss_next_offset := ss_next_offset s + length bytes, ss_segments := bt_insert (rs_segment_id res)
            \<lparr>sg_bytes = bytes, sg_synced = False, sg_commit = commit\<rparr> (ss_segments s)\<rparr>"
  using assms
  by (cases r)
    (auto simp: write_segment_owned_def seqM_Inl_iff Let_def split: option.splits if_splits)

lemma write_segment_bytes:
  assumes "write_segment_owned crc cfg res bytes mode s = (Inr commit, s')"
  shows "\<exists>rec. bt_get (ss_segments s') (rs_segment_id res) = Some rec \<and> sg_bytes rec = bytes \<and> sg_commit rec = commit"
  using assms by (rule write_segment_cases) auto

lemma write_segment_ok:
  assumes "write_segment_owned crc cfg res bytes mode s = (r, s')" "store_ok crc cfg s"
  shows "store_ok crc cfg s'"
  using assms(1)
proof (cases rule: write_segment_cases)
  case (fresh commit)
  let ?new = "\<lparr>sg_bytes = bytes, sg_synced = False, sg_commit = commit\<rparr>"
  have new: "record_ok crc cfg (rs_segment_id res) ?new" "placed_before ?new (ss_next_offset s')"
    using fresh by (auto simp: record_ok_def placed_before_def Let_def)
  have old: "placements_disjoint a ?new \<and> placements_disjoint ?new a"
    if "bt_get (ss_segments s) i = Some a" for i a
    using assms(2) that fresh by (auto simp: store_ok_def placements_disjoint_def placed_before_def)
  have grow: "placed_before a (ss_next_offset s')" if "bt_get (ss_segments s) i = Some a" for i a
    using assms(2) that fresh by (fastforce simp: store_ok_def placed_before_def)
  show ?thesis
    using assms(2) new old grow fresh
    by (auto simp: store_ok_def split: if_splits)
qed (use assms(2) in auto)

lemma sync_segment_cases:
  assumes "sync_segment i s = (r, s')"
  obtains (missing) "bt_get (ss_segments s) i = None" "r = Inl (not_found K_segment)" "s' = s"
    | (synced) rec where "bt_get (ss_segments s) i = Some rec" "r = Inr ()"
        "s' = s\<lparr>ss_segments := bt_insert i (rec\<lparr>sg_synced := True\<rparr>) (ss_segments s)\<rparr>"
  using assms
  by (cases r) (auto simp: sync_segment_def seqM_Inl_iff get_segment_def)

lemma sync_segment_ok:
  assumes "sync_segment i s = (r, s')" "store_ok crc cfg s"
  shows "store_ok crc cfg s'"
  using assms(1)
proof (cases rule: sync_segment_cases)
  case (synced rec)
  then show ?thesis
    using assms(2)
    by (auto simp: store_ok_def record_ok_def placed_before_def placements_disjoint_def split: if_splits)
qed (use assms(2) in auto)

lemma store_delete_ok: "store_delete_segment i s = (r, s') \<Longrightarrow> store_ok crc cfg s \<Longrightarrow> store_ok crc cfg s'"
  by (auto simp: store_delete_segment_def store_ok_def)

lemma store_new_ok: "store_ok crc cfg store_new"
  by (simp add: store_new_def store_ok_def)

lemma read_segment_Inr:
  "read_segment s i r n = Inr bytes \<longleftrightarrow>
    (\<exists>rec. bt_get (ss_segments s) i = Some rec \<and> sg_synced rec
      \<and> byte_offset r + byte_len r \<le> length (sg_bytes rec) \<and> length (sg_bytes rec) < u64_limit
      \<and> n = byte_len r \<and> bytes = take (byte_len r) (drop (byte_offset r) (sg_bytes rec)))"
  by (auto simp: read_segment_def)

lemma verify_for_read_ok:
  assumes "store_ok crc cfg s" "bt_get (ss_segments s) i = Some rec"
  shows "verify_segment_payload_for_read crc s i v =
    (if v = RequireVerified \<and> sd_integrity (cm_descriptor (sg_commit rec)) = Payload_Unchecked
     then Inl conflict else Inr ())"
proof -
  have "record_ok crc cfg i rec"
    using assms by (auto simp: store_ok_def)
  then obtain mode where
    "sd_integrity (cm_descriptor (sg_commit rec)) = segment_payload_integrity_of crc mode (sg_bytes rec)"
    by (auto simp: record_ok_def Let_def)
  with assms(2) show ?thesis
    by (cases mode; cases v)
      (simp_all add: verify_segment_payload_for_read_def verify_segment_payload_integrity_def get_segment_def)
qed

section \<open>Properties\<close>

text \<open>One call of any operation that changes the store, whatever its outcome.\<close>

inductive store_step :: "(byte list \<Rightarrow> nat) \<Rightarrow> local_store_config \<Rightarrow> segment_store_inner \<Rightarrow> segment_store_inner \<Rightarrow> bool"
  for crc cfg where
  store_write: "write_segment_owned crc cfg res bytes mode s = (r, s') \<Longrightarrow> store_step crc cfg s s'"
| store_sync: "sync_segment i s = (r, s') \<Longrightarrow> store_step crc cfg s s'"
| store_delete: "store_delete_segment i s = (r, s') \<Longrightarrow> store_step crc cfg s s'"

lemma store_steps_ok: "(store_step crc cfg)\<^sup>*\<^sup>* store_new s \<Longrightarrow> store_ok crc cfg s"
proof (induction rule: rtranclp_induct)
  case (step t u)
  from step.hyps(2) step.IH show ?case
    by (cases rule: store_step.cases) (auto intro: write_segment_ok sync_segment_ok store_delete_ok)
qed (rule store_new_ok)

text \<open>
  C25: in every store the operations can produce, each record's descriptor and placement describe its
  bytes exactly (id, length, whole blocks, checksum of its integrity mode), and the placements of
  different segments never overlap.
\<close>

theorem stored_segments_described_and_disjoint:
  assumes "(store_step crc cfg)\<^sup>*\<^sup>* store_new s" "bt_get (ss_segments s) i = Some a"
  shows "sd_segment_id (cm_descriptor (sg_commit a)) = i
    \<and> sd_bytes (cm_descriptor (sg_commit a)) = length (sg_bytes a)
    \<and> sd_blocks (cm_descriptor (sg_commit a)) * cfg_block_size cfg = length (sg_bytes a)
    \<and> (\<exists>mode. sd_integrity (cm_descriptor (sg_commit a)) = segment_payload_integrity_of crc mode (sg_bytes a))
    \<and> pl_bytes (cm_placement (sg_commit a)) = length (sg_bytes a)
    \<and> (\<forall>j b. j \<noteq> i \<longrightarrow> bt_get (ss_segments s) j = Some b \<longrightarrow>
        pl_offset (cm_placement (sg_commit a)) + length (sg_bytes a) \<le> pl_offset (cm_placement (sg_commit b))
        \<or> pl_offset (cm_placement (sg_commit b)) + length (sg_bytes b) \<le> pl_offset (cm_placement (sg_commit a)))"
proof -
  have ok: "store_ok crc cfg s"
    by (rule store_steps_ok [OF assms(1)])
  then have a: "record_ok crc cfg i a"
    using assms(2) by (simp add: store_ok_def)
  have "pl_bytes (cm_placement (sg_commit b)) = length (sg_bytes b) \<and> placements_disjoint a b"
    if "j \<noteq> i" "bt_get (ss_segments s) j = Some b" for j b
  proof
    have "record_ok crc cfg j b"
      using ok that(2) by (simp add: store_ok_def)
    then show "pl_bytes (cm_placement (sg_commit b)) = length (sg_bytes b)"
      by (simp add: record_ok_def Let_def)
    show "placements_disjoint a b"
      using ok assms(2) that unfolding store_ok_def by metis
  qed
  with a show ?thesis
    by (fastforce simp: record_ok_def Let_def placements_disjoint_def placed_before_def)
qed

definition sample_store_config :: local_store_config where
  "sample_store_config = default_config\<lparr>cfg_block_size := 2\<rparr>"

definition sample_store :: segment_store_inner where
  "sample_store = snd (write_segment_owned (\<lambda>_. 77) sample_store_config \<lparr>rs_segment_id = 3, rs_bytes = 4\<rparr>
    [1, 2, 3, 4] Verified store_new)"

definition sample_record :: segment_record where
  "sample_record = \<lparr>sg_bytes = [1, 2, 3, 4], sg_synced = False, sg_commit = sample_commit\<rparr>"

text \<open>Rules that run the store on concrete requests.\<close>

lemmas store_eval = write_segment_owned_def sync_segment_def run_defs validate_config_def ensure_def
  u64_of_len_def u64_limit_def checked_add_u64_def store_new_def sample_store_config_def default_config_def
  is_power_of_two.simps sample_commit_def sample_record_def Let_def

lemma sample_store_eq: "sample_store = \<lparr>ss_next_offset = 4, ss_segments = [(3, sample_record)]\<rparr>"
  by (simp add: sample_store_def store_eval)

lemma sample_store_step: "(store_step (\<lambda>_. 77) sample_store_config)\<^sup>*\<^sup>* store_new sample_store"
  unfolding sample_store_def by (rule r_into_rtranclp, rule store_write [OF surjective_pairing])

theorem stored_segments_described_and_disjoint_witness:
  "bt_get (ss_segments sample_store) 3 = Some sample_record
    \<and> sd_blocks (cm_descriptor (sg_commit sample_record)) * cfg_block_size sample_store_config = length (sg_bytes sample_record)"
proof -
  have get: "bt_get (ss_segments sample_store) 3 = Some sample_record"
    by (simp add: sample_store_eq)
  with stored_segments_described_and_disjoint [OF sample_store_step get] show ?thesis
    by blast
qed

text \<open>
  C26: segment bytes are immutable: writing again to an id that is present changes nothing, and is
  accepted only with the same bytes, returning the commit already recorded.
\<close>

theorem stored_bytes_are_immutable:
  assumes "bt_get (ss_segments s) (rs_segment_id res) = Some rec"
  shows "\<exists>r. write_segment_owned crc cfg res bytes mode s = (r, s)
    \<and> (\<forall>commit. r = Inr commit \<longrightarrow> bytes = sg_bytes rec \<and> commit = sg_commit rec)"
proof -
  obtain r s' where w: "write_segment_owned crc cfg res bytes mode s = (r, s')"
    by (cases "write_segment_owned crc cfg res bytes mode s")
  from this have "s' = s \<and> (\<forall>commit. r = Inr commit \<longrightarrow> bytes = sg_bytes rec \<and> commit = sg_commit rec)"
    by (rule write_segment_cases) (use assms in auto)
  with w show ?thesis
    by blast
qed

theorem stored_bytes_are_immutable_witness:
  "\<exists>r. write_segment_owned (\<lambda>_. 77) sample_store_config \<lparr>rs_segment_id = 3, rs_bytes = 4\<rparr> [9, 9, 9, 9] Verified sample_store
      = (r, sample_store)
    \<and> (\<forall>commit. r = Inr commit \<longrightarrow> [9, 9, 9, 9] = sg_bytes sample_record \<and> commit = sg_commit sample_record)"
  by (rule stored_bytes_are_immutable) (simp add: sample_store_eq)

text \<open>
  C27: after a write and a sync every range inside the written bytes reads back exactly those bytes,
  and without the sync every read is refused.
\<close>

theorem read_after_write_and_sync:
  assumes "write_segment_owned crc cfg res bytes mode s = (Inr commit, s1)"
    and "bt_get (ss_segments s) (rs_segment_id res) = None"
    and "byte_offset r + byte_len r \<le> length bytes"
  shows "(\<exists>s2. sync_segment (rs_segment_id res) s1 = (Inr (), s2)
      \<and> read_segment s2 (rs_segment_id res) r (byte_len r) = Inr (take (byte_len r) (drop (byte_offset r) bytes)))
    \<and> read_segment s1 (rs_segment_id res) r (byte_len r) = Inl unavailable"
  using assms(1)
proof (cases rule: write_segment_cases)
  case (fresh c)
  let ?rec = "\<lparr>sg_bytes = bytes, sg_synced = False, sg_commit = c\<rparr>"
  have s1: "bt_get (ss_segments s1) (rs_segment_id res) = Some ?rec"
    using fresh by simp
  have "sync_segment (rs_segment_id res) s1 =
      (Inr (), s1\<lparr>ss_segments := bt_insert (rs_segment_id res) (?rec\<lparr>sg_synced := True\<rparr>) (ss_segments s1)\<rparr>)"
    using s1 by (simp add: sync_segment_def get_segment_def run_defs)
  moreover have "read_segment (s1\<lparr>ss_segments := bt_insert (rs_segment_id res) (?rec\<lparr>sg_synced := True\<rparr>) (ss_segments s1)\<rparr>)
      (rs_segment_id res) r (byte_len r) = Inr (take (byte_len r) (drop (byte_offset r) bytes))"
    using fresh assms(3) by (simp add: read_segment_Inr)
  moreover have "read_segment s1 (rs_segment_id res) r (byte_len r) = Inl unavailable"
    using s1 by (simp add: read_segment_def get_segment_def)
  ultimately show ?thesis
    by blast
qed (use assms(2) in auto)

theorem read_after_write_and_sync_witness:
  "(\<exists>s2. sync_segment 3 sample_store = (Inr (), s2) \<and> read_segment s2 3 (mk_bytes 1 2) 2 = Inr (take 2 (drop 1 [1, 2, 3, 4])))
    \<and> read_segment sample_store 3 (mk_bytes 1 2) 2 = Inl unavailable"
proof -
  have "write_segment_owned (\<lambda>_. 77) sample_store_config \<lparr>rs_segment_id = 3, rs_bytes = 4\<rparr> [1, 2, 3, 4] Verified store_new
      = (Inr sample_commit, sample_store)"
    by (simp add: sample_store_eq store_eval)
  from read_after_write_and_sync [OF this, of "mk_bytes 1 2"] show ?thesis
    by (simp add: store_new_def)
qed

end
