(* ===== verification/Storage_Node.thy ===== *)
theory Storage_Node
  imports Segment_Store
begin

text \<open>
  A storage node (\<^verbatim>\<open>local/storage_node.rs\<close>): its segment store and its catalog behind one
  request interface, and the registry of all nodes.  Diagnostic counters and timing profiles are
  left out; they are never read by these operations.
\<close>

section \<open>One node\<close>

record storage_node =
  sn_storage_node :: storage_node_id
  sn_config :: local_store_config
  sn_store :: segment_store_inner
  sn_catalog :: catalog_inner

type_synonym 'a node_op = "(storage_node, failure, 'a) op"

definition on_store :: "'a store_op \<Rightarrow> 'a node_op" where
  "on_store m = (\<lambda>n. case m (sn_store n) of (r, s) \<Rightarrow> (r, n\<lparr>sn_store := s\<rparr>))"

definition on_catalog :: "'a catalog_op \<Rightarrow> 'a node_op" where
  "on_catalog m = (\<lambda>n. case m (sn_catalog n) of (r, c) \<Rightarrow> (r, n\<lparr>sn_catalog := c\<rparr>))"

definition verify_read_integrity_policy :: "segment_payload_integrity \<Rightarrow> read_verification \<Rightarrow> unit result" where
  "verify_read_integrity_policy integrity verification =
    (if verification = RequireVerified \<and> integrity = Payload_Unchecked then Inl conflict else Inr ())"

definition read_segment_with_integrity ::
  "(byte list \<Rightarrow> nat) \<Rightarrow> storage_node \<Rightarrow> segment_id \<Rightarrow> byte_range \<Rightarrow> segment_payload_integrity \<Rightarrow> read_verification
    \<Rightarrow> nat \<Rightarrow> byte list result" where
  "read_segment_with_integrity crc n segment_id r integrity verification buf_len =
    andThen (receipt_for_segment (sn_catalog n) segment_id) (\<lambda>receipt.
    andThen (ensure (rc_storage_node receipt = sn_storage_node n \<and> rc_segment_id receipt = segment_id
      \<and> rc_integrity receipt = integrity) corrupt) (\<lambda>_.
    andThen (verify_read_integrity_policy integrity verification) (\<lambda>_.
    andThen (verify_segment_payload_for_read crc (sn_store n) segment_id verification) (\<lambda>_.
    read_segment (sn_store n) segment_id r buf_len))))"

text \<open>The answer to a repeated write of a segment the catalog already knows.\<close>

definition duplicate_write ::
  "(byte list \<Rightarrow> nat) \<Rightarrow> storage_node \<Rightarrow> write_grant \<Rightarrow> grant_hash \<Rightarrow> byte list \<Rightarrow> nat \<Rightarrow> segment_write_receipt result" where
  "duplicate_write crc n grant hash bytes bytes_len =
    andThen (receipt_for_segment (sn_catalog n) (gr_segment_id grant)) (\<lambda>receipt.
    andThen (verify_segment_receipt receipt) (\<lambda>_.
    if rc_grant_id receipt = gr_grant_id grant \<and> rc_grant_hash receipt = hash \<and> rc_bytes receipt = bytes_len
      \<and> rc_integrity receipt = segment_payload_integrity_of crc (gr_payload_integrity grant) bytes
    then
      andThen (read_segment (sn_store n) (gr_segment_id grant) (mk_bytes 0 bytes_len) bytes_len) (\<lambda>existing.
      if existing = bytes then Inr receipt else Inl conflict)
    else Inl conflict))"

definition write_segment_node ::
  "(byte list \<Rightarrow> nat) \<Rightarrow> write_grant \<Rightarrow> byte list \<Rightarrow> segment_write_receipt node_op" where
  "write_segment_node crc grant bytes =
    seqM (liftM (u64_of_len bytes)) (\<lambda>bytes_len.
    seqM (askM (\<lambda>n. verify_write_grant_and_hash grant (sn_storage_node n) (gr_segment_id grant) bytes_len)) (\<lambda>hash.
    seqM (getM (\<lambda>n. contains_segment (sn_catalog n) (gr_segment_id grant))) (\<lambda>known.
    if known then askM (\<lambda>n. duplicate_write crc n grant hash bytes bytes_len)
    else
      seqM (on_catalog (reserve_segment_with_id (gr_segment_id grant)
        \<lparr>ri_write_intent = gr_write_intent grant, ri_owner = gr_owner grant, ri_bytes = gr_max_bytes grant\<rparr>))
        (\<lambda>reservation.
      seqM (on_catalog (begin_write reservation)) (\<lambda>_.
      seqM (getM sn_config) (\<lambda>cfg.
      seqM (on_store (write_segment_owned crc cfg reservation bytes (gr_payload_integrity grant))) (\<lambda>commit.
      seqM (on_store (sync_segment (rs_segment_id reservation))) (\<lambda>_.
      seqM (liftM (create_segment_receipt_after_verified_write grant hash commit LOCAL_STORAGE_NODE_INCARNATION))
        (\<lambda>receipt.
      seqM (on_catalog (commit_segment cfg reservation receipt)) (\<lambda>_.
      returnM receipt))))))))))"

definition mark_segment_referenced_node :: "reference_evidence \<Rightarrow> unit node_op" where
  "mark_segment_referenced_node evidence =
    seqM (askM (\<lambda>n. verify_reference_evidence evidence (ev_segment_id evidence) (sn_storage_node n))) (\<lambda>_.
    on_catalog (mark_segment_referenced (ev_segment_id evidence)))"

record storage_node_maintenance_report =
  mr_storage_node :: storage_node_id
  mr_deleted :: "segment_id list"
  mr_skipped :: "segment_id list"

definition maintenance_tick_step ::
  "segment_id list \<times> segment_id list \<Rightarrow> segment_id \<times> segment_lifecycle_state \<times> write_intent_id
    \<Rightarrow> (segment_id list \<times> segment_id list) node_op" where
  "maintenance_tick_step acc entry =
    (case acc of (deleted, skipped) \<Rightarrow> case entry of (segment_id, state, _) \<Rightarrow>
      if state = Released then
        seqM (on_catalog (catalog_delete_segment segment_id)) (\<lambda>_.
        seqM (on_store (store_delete_segment segment_id)) (\<lambda>_.
        returnM (deleted @ [segment_id], skipped)))
      else if state = Reserved \<or> state = Writing \<or> state = DurablePendingMetadata
      then returnM (deleted, skipped @ [segment_id])
      else returnM (deleted, skipped))"

definition run_maintenance_tick :: "storage_node_maintenance_report node_op" where
  "run_maintenance_tick =
    seqM (getM (\<lambda>n. catalog_entries (sn_catalog n))) (\<lambda>entries.
    seqM (foldM maintenance_tick_step ([], []) entries) (\<lambda>acc.
    seqM (getM sn_storage_node) (\<lambda>node.
    returnM \<lparr>mr_storage_node = node, mr_deleted = fst acc, mr_skipped = snd acc\<rparr>)))"

record storage_node_custodian_report =
  sr_expired_reservations :: "segment_id list"
  sr_failed_writes :: "segment_id list"
  sr_orphan_segments :: "segment_id list"
  sr_deleted_released_segments :: "segment_id list"

definition custodian_step ::
  "write_intent_id set \<Rightarrow> storage_node_custodian_report \<Rightarrow> segment_id \<times> segment_lifecycle_state \<times> write_intent_id
    \<Rightarrow> storage_node_custodian_report node_op" where
  "custodian_step expired report entry =
    (case entry of (segment_id, state, write_intent) \<Rightarrow>
      if state = Reserved \<and> write_intent \<in> expired then
        seqM (on_catalog (expire_reservation segment_id)) (\<lambda>_.
        seqM (on_store (store_delete_segment segment_id)) (\<lambda>_.
        returnM (report\<lparr>sr_expired_reservations := sr_expired_reservations report @ [segment_id]\<rparr>)))
      else if state = Writing \<and> write_intent \<in> expired then
        seqM (on_catalog (fail_write segment_id)) (\<lambda>_.
        seqM (on_store (store_delete_segment segment_id)) (\<lambda>_.
        returnM (report\<lparr>sr_failed_writes := sr_failed_writes report @ [segment_id]\<rparr>)))
      else if state = DurablePendingMetadata \<and> write_intent \<in> expired then
        seqM (on_catalog (free_orphan_segment segment_id)) (\<lambda>_.
        seqM (on_store (store_delete_segment segment_id)) (\<lambda>_.
        returnM (report\<lparr>sr_orphan_segments := sr_orphan_segments report @ [segment_id]\<rparr>)))
      else if state = Released then
        seqM (on_catalog (catalog_delete_segment segment_id)) (\<lambda>_.
        seqM (on_store (store_delete_segment segment_id)) (\<lambda>_.
        returnM (report\<lparr>sr_deleted_released_segments := sr_deleted_released_segments report @ [segment_id]\<rparr>)))
      else returnM report)"

definition run_custodian :: "write_intent_id set \<Rightarrow> storage_node_custodian_report node_op" where
  "run_custodian expired =
    seqM (getM (\<lambda>n. catalog_entries (sn_catalog n))) (\<lambda>entries.
    foldM (custodian_step expired)
      \<lparr>sr_expired_reservations = [], sr_failed_writes = [], sr_orphan_segments = [], sr_deleted_released_segments = []\<rparr>
      entries)"

datatype storage_node_request =
    Node_WriteSegment write_grant "byte list"
  | Node_ReadSegment segment_id byte_range
  | Node_MarkReferenced reference_evidence
  | Node_Release segment_id
  | Node_RunCustodian "write_intent_id set"
  | Node_ObserveMaintenance
  | Node_RunMaintenanceTick

datatype storage_node_response =
    Resp_WriteSegment segment_write_receipt
  | Resp_ReadSegment "byte list"
  | Resp_MarkReferenced
  | Resp_Released
  | Resp_Custodian storage_node_custodian_report
  | Resp_MaintenanceObserved storage_node_id catalog_lifecycle_counts
  | Resp_MaintenanceTicked storage_node_maintenance_report

definition node_send :: "(byte list \<Rightarrow> nat) \<Rightarrow> storage_node_request \<Rightarrow> storage_node_response node_op" where
  "node_send crc req =
    (case req of
      Node_WriteSegment grant bytes \<Rightarrow>
        seqM (write_segment_node crc grant bytes) (\<lambda>receipt. returnM (Resp_WriteSegment receipt))
    | Node_ReadSegment segment_id r \<Rightarrow>
        seqM (askM (\<lambda>n. read_segment (sn_store n) segment_id r (byte_len r))) (\<lambda>bytes. returnM (Resp_ReadSegment bytes))
    | Node_MarkReferenced evidence \<Rightarrow>
        seqM (mark_segment_referenced_node evidence) (\<lambda>_. returnM Resp_MarkReferenced)
    | Node_Release segment_id \<Rightarrow>
        seqM (on_catalog (release_segment segment_id)) (\<lambda>_. returnM Resp_Released)
    | Node_RunCustodian expired \<Rightarrow>
        seqM (run_custodian expired) (\<lambda>report. returnM (Resp_Custodian report))
    | Node_ObserveMaintenance \<Rightarrow>
        getM (\<lambda>n. Resp_MaintenanceObserved (sn_storage_node n) (lifecycle_counts (sn_catalog n)))
    | Node_RunMaintenanceTick \<Rightarrow>
        seqM run_maintenance_tick (\<lambda>report. returnM (Resp_MaintenanceTicked report)))"

definition storage_node_new :: "local_store_config \<Rightarrow> storage_node_id \<Rightarrow> storage_node" where
  "storage_node_new cfg node_id =
    \<lparr>sn_storage_node = node_id, sn_config = for_storage_node cfg node_id, sn_store = store_new, sn_catalog = catalog_new\<rparr>"

section \<open>The node invariant\<close>

text \<open>
  A segment with a receipt that has not been freed is in the store, synced, and the receipt
  describes exactly the stored record.
\<close>

definition holds_segment :: "storage_node \<Rightarrow> segment_id \<Rightarrow> catalog_entry \<Rightarrow> bool" where
  "holds_segment n i e \<longleftrightarrow>
    (ce_state e \<in> {DurablePendingMetadata, Referenced, Released} \<longrightarrow>
      (\<exists>rc rec. ce_receipt e = Some rc \<and> bt_get (ss_segments (sn_store n)) i = Some rec \<and> sg_synced rec
        \<and> sg_commit rec = replica_commit rc \<and> (\<exists>v. verify_segment_receipt rc = Inr v)))"

definition node_ok :: "(byte list \<Rightarrow> nat) \<Rightarrow> storage_node \<Rightarrow> bool" where
  "node_ok crc n \<longleftrightarrow>
    cfg_storage_node (sn_config n) = sn_storage_node n
    \<and> store_ok crc (sn_config n) (sn_store n) \<and> catalog_ok (sn_config n) (sn_catalog n)
    \<and> (\<forall>i e. bt_get (ca_entries (sn_catalog n)) i = Some e \<longrightarrow> holds_segment n i e)
    \<and> (\<forall>i rec. bt_get (ss_segments (sn_store n)) i = Some rec \<longrightarrow> bt_has (ca_entries (sn_catalog n)) i)"

lemma on_store_eq: "on_store m n = (r, n') \<longleftrightarrow> (\<exists>s. m (sn_store n) = (r, s) \<and> n' = n\<lparr>sn_store := s\<rparr>)"
  by (auto simp: on_store_def split: prod.splits)

lemma on_catalog_eq: "on_catalog m n = (r, n') \<longleftrightarrow> (\<exists>c. m (sn_catalog n) = (r, c) \<and> n' = n\<lparr>sn_catalog := c\<rparr>)"
  by (auto simp: on_catalog_def split: prod.splits)

text \<open>A catalog transition that creates no live receipt keeps the invariant.\<close>

definition live :: "catalog_entry \<Rightarrow> bool" where
  "live e \<longleftrightarrow> ce_state e \<in> {DurablePendingMetadata, Referenced, Released}"

lemma update_entry_node_ok:
  assumes "update_entry i f (sn_catalog n) = (r, c)" "node_ok crc n"
    and "\<And>e e'. f e = Inr e' \<Longrightarrow> entry_ok (sn_config n) i e \<Longrightarrow>
      entry_ok (sn_config n) i e' \<and> (live e' \<longrightarrow> live e \<and> ce_receipt e' = ce_receipt e)"
  shows "node_ok crc (n\<lparr>sn_catalog := c\<rparr>)"
proof -
  have ok: "catalog_ok (sn_config n) c"
    using update_entry_ok [OF assms(1)] assms(2,3) by (auto simp: node_ok_def)
  show ?thesis
  proof (cases r)
    case (Inl x)
    with assms(1,2) show ?thesis
      using update_entry_Inl by (metis storage_node.surjective storage_node.update_convs(4))
  next
    case (Inr u)
    then obtain e e' where e: "bt_get (ca_entries (sn_catalog n)) i = Some e" "f e = Inr e'"
      "c = (sn_catalog n)\<lparr>ca_entries := bt_insert i e' (ca_entries (sn_catalog n))\<rparr>"
      using assms(1) by (auto simp: update_entry_Inr)
    have "entry_ok (sn_config n) i e"
      using e(1) assms(2) by (simp add: node_ok_def catalog_ok_def)
    then have "live e' \<longrightarrow> live e \<and> ce_receipt e' = ce_receipt e"
      using assms(3) [OF e(2)] by blast
    moreover have "holds_segment n i e"
      using e(1) assms(2) by (simp add: node_ok_def)
    ultimately have "holds_segment n i e'"
      unfolding holds_segment_def live_def [symmetric] by metis
    with assms(2) ok e(3) show ?thesis
      by (auto simp: node_ok_def holds_segment_def bt_has_iff)
  qed
qed

lemma update_entry_keeps_node:
  assumes "\<And>cfg e e'. f e = Inr e' \<Longrightarrow> entry_ok cfg i e \<Longrightarrow>
      entry_ok cfg i e' \<and> (live e' \<longrightarrow> live e \<and> ce_receipt e' = ce_receipt e)"
  shows "hoareM (node_ok crc) (on_catalog (update_entry i f)) (\<lambda>_. node_ok crc) (node_ok crc)"
proof (rule hoareM_I)
  note step = update_entry_node_ok [OF _ _ assms]
  show "node_ok crc t" if "node_ok crc s" "on_catalog (update_entry i f) s = (Inr x, t)" for s x t
    using that step by (auto simp: on_catalog_eq)
  show "node_ok crc t" if "node_ok crc s" "on_catalog (update_entry i f) s = (Inl x, t)" for s x t
    using that step by (auto simp: on_catalog_eq)
qed

lemma begin_write_keeps_node:
  "hoareM (node_ok crc) (on_catalog (begin_write res)) (\<lambda>_. node_ok crc) (node_ok crc)"
  unfolding begin_write_def
  by (rule update_entry_keeps_node) (auto simp: entry_ok_def live_def split: segment_lifecycle_state.splits)

lemma mark_referenced_keeps_node:
  "hoareM (node_ok crc) (on_catalog (mark_segment_referenced i)) (\<lambda>_. node_ok crc) (node_ok crc)"
  unfolding mark_segment_referenced_def
  by (rule update_entry_keeps_node) (auto simp: entry_ok_def live_def split: segment_lifecycle_state.splits)

lemma release_keeps_node:
  "hoareM (node_ok crc) (on_catalog (release_segment i)) (\<lambda>_. node_ok crc) (node_ok crc)"
  unfolding release_segment_def
  by (rule update_entry_keeps_node) (auto simp: entry_ok_def live_def split: segment_lifecycle_state.splits)

text \<open>After one of the four freeing transitions the entry is \<open>Freed\<close>, so its bytes may go.\<close>

definition freed :: "segment_id \<Rightarrow> storage_node \<Rightarrow> bool" where
  "freed i n \<longleftrightarrow> (\<exists>e. bt_get (ca_entries (sn_catalog n)) i = Some e \<and> ce_state e = Freed)"

lemma free_keeps_node:
  assumes "\<And>e e'. f e = Inr e' \<Longrightarrow> e' = e\<lparr>ce_state := Freed\<rparr>"
  shows "hoareM (node_ok crc) (on_catalog (update_entry i f)) (\<lambda>_ n. node_ok crc n \<and> freed i n) (node_ok crc)"
proof (rule hoareM_I)
  have keeps: "hoareM (node_ok crc) (on_catalog (update_entry i f)) (\<lambda>_. node_ok crc) (node_ok crc)"
    by (rule update_entry_keeps_node, drule assms) (simp add: entry_ok_def live_def)
  show "node_ok crc t \<and> freed i t" if "node_ok crc s" "on_catalog (update_entry i f) s = (Inr x, t)" for s x t
  proof
    show "node_ok crc t"
      by (rule hoareM_D(1) [OF keeps that])
    from that(2) obtain e e' where "f e = Inr e'"
      "sn_catalog t = (sn_catalog s)\<lparr>ca_entries := bt_insert i e' (ca_entries (sn_catalog s))\<rparr>"
      by (auto simp: on_catalog_eq update_entry_Inr)
    moreover from assms [OF this(1)] have "ce_state e' = Freed"
      by simp
    ultimately show "freed i t"
      by (simp add: freed_def)
  qed
  show "node_ok crc t" if "node_ok crc s" "on_catalog (update_entry i f) s = (Inl x, t)" for s x t
    using hoareM_D(2) [OF keeps that] .
qed

lemma freed_eq: "ce_state e = Freed \<Longrightarrow> e\<lparr>ce_state := Freed\<rparr> = e"
  by (cases e) simp

lemma delete_freed_keeps_node:
  "hoareM (\<lambda>n. node_ok crc n \<and> freed i n) (on_store (store_delete_segment i)) (\<lambda>_. node_ok crc) (node_ok crc)"
proof (rule hoareM_I)
  fix n :: storage_node and x t
  assume n: "node_ok crc n \<and> freed i n" and "on_store (store_delete_segment i) n = (Inr x, t)"
  then have t: "t = n\<lparr>sn_store := (sn_store n)\<lparr>ss_segments := bt_remove i (ss_segments (sn_store n))\<rparr>\<rparr>"
    by (auto simp: on_store_eq store_delete_segment_def)
  have "store_ok crc (sn_config t) (sn_store t)"
    using store_delete_ok [of i "sn_store n" "Inr ()" _ crc "sn_config n"] n t
    by (simp add: node_ok_def store_delete_segment_def)
  then show "node_ok crc t"
    using n t by (fastforce simp: node_ok_def freed_def holds_segment_def split: if_splits)
qed (auto simp: on_store_eq store_delete_segment_def)

lemma free_and_delete_keeps_node:
  assumes "\<And>e e'. f e = Inr e' \<Longrightarrow> e' = e\<lparr>ce_state := Freed\<rparr>"
  shows "hoareM (node_ok crc)
    (seqM (on_catalog (update_entry i f)) (\<lambda>_. seqM (on_store (store_delete_segment i)) (\<lambda>_. returnM x)))
    (\<lambda>_. node_ok crc) (node_ok crc)"
  by (rule hoareM_seqM [OF free_keeps_node [OF assms]], assumption,
      rule hoareM_seqM [OF delete_freed_keeps_node], rule hoareM_returnM)

lemmas freeing_defs = expire_reservation_def fail_write_def free_orphan_segment_def catalog_delete_segment_def

lemma custodian_keeps_node: "hoareM (node_ok crc) (run_custodian expired) (\<lambda>_. node_ok crc) (node_ok crc)"
  unfolding run_custodian_def
proof (rule hoareM_seqM [OF hoareM_getM], assumption, rule hoareM_foldM)
  fix report and entry :: "segment_id \<times> segment_lifecycle_state \<times> write_intent_id"
  show "hoareM (node_ok crc) (custodian_step expired report entry) (\<lambda>_. node_ok crc) (node_ok crc)"
    unfolding custodian_step_def freeing_defs
    by (cases entry)
      (auto intro!: free_and_delete_keeps_node hoareM_returnM split: segment_lifecycle_state.splits simp: freed_eq)
qed

lemma maintenance_keeps_node: "hoareM (node_ok crc) run_maintenance_tick (\<lambda>_. node_ok crc) (node_ok crc)"
proof -
  have "hoareM (node_ok crc) (maintenance_tick_step acc entry) (\<lambda>_. node_ok crc) (node_ok crc)"
    for acc and entry :: "segment_id \<times> segment_lifecycle_state \<times> write_intent_id"
    unfolding maintenance_tick_step_def freeing_defs
    by (cases entry; cases acc)
      (auto intro!: free_and_delete_keeps_node hoareM_returnM split: segment_lifecycle_state.splits simp: freed_eq)
  then show ?thesis
    unfolding run_maintenance_tick_def
    by (intro hoareM_seqM [where R = "\<lambda>_. node_ok crc"] hoareM_getM hoareM_foldM hoareM_returnM)
qed

section \<open>Writing a segment\<close>

lemma reserve_keeps_node:
  "hoareM (node_ok crc) (on_catalog (reserve_segment_with_id i intent))
    (\<lambda>res n. node_ok crc n \<and> bt_has (ca_entries (sn_catalog n)) i \<and> rs_segment_id res = i \<and> rs_bytes res = ri_bytes intent)
    (node_ok crc)"
proof (rule hoareM_I)
  fix n :: storage_node and x n'
  assume n: "node_ok crc n"
  {
    fix r
    assume r: "on_catalog (reserve_segment_with_id i intent) n = (r, n')"
    then obtain c where c: "reserve_segment_with_id i intent (sn_catalog n) = (r, c)" "n' = n\<lparr>sn_catalog := c\<rparr>"
      by (auto simp: on_catalog_eq)
    have "catalog_ok (sn_config n) c"
      using reserve_ok [OF c(1)] n by (simp add: node_ok_def)
    then have "node_ok crc n'"
      using n c reserve_with_id_cases [OF c(1)]
      by (auto simp: node_ok_def holds_segment_def bt_has_iff split: if_splits)
  }
  note keeps = this
  show "node_ok crc n' \<and> bt_has (ca_entries (sn_catalog n')) i \<and> rs_segment_id x = i \<and> rs_bytes x = ri_bytes intent"
    if "on_catalog (reserve_segment_with_id i intent) n = (Inr x, n')" for x
    using keeps [OF that] that
    by (auto simp: on_catalog_eq bt_has_iff dest!: reserve_with_id_cases)
  show "node_ok crc n'" if "on_catalog (reserve_segment_with_id i intent) n = (Inl e, n')" for e
    by (rule keeps [OF that])
qed

text \<open>A change of the store that keeps the synced records and adds none outside the catalog.\<close>

lemma node_ok_store:
  assumes "node_ok crc n" "store_ok crc (sn_config n) s"
    and "\<And>i rec. bt_get (ss_segments (sn_store n)) i = Some rec \<Longrightarrow> sg_synced rec \<Longrightarrow>
      \<exists>rec'. bt_get (ss_segments s) i = Some rec' \<and> sg_synced rec' \<and> sg_commit rec' = sg_commit rec"
    and "\<And>i rec. bt_get (ss_segments s) i = Some rec \<Longrightarrow> bt_has (ca_entries (sn_catalog n)) i"
  shows "node_ok crc (n\<lparr>sn_store := s\<rparr>)"
proof -
  have "holds_segment (n\<lparr>sn_store := s\<rparr>) i e" if "holds_segment n i e" for i e
    unfolding holds_segment_def
  proof
    assume "ce_state e \<in> {DurablePendingMetadata, Referenced, Released}"
    with that obtain rc rec where "ce_receipt e = Some rc" "bt_get (ss_segments (sn_store n)) i = Some rec"
      "sg_synced rec" "sg_commit rec = replica_commit rc" "\<exists>v. verify_segment_receipt rc = Inr v"
      unfolding holds_segment_def by blast
    moreover from this(2,3) obtain rec' where "bt_get (ss_segments s) i = Some rec'" "sg_synced rec'"
      "sg_commit rec' = sg_commit rec"
      using assms(3) by blast
    ultimately show "\<exists>rc rec. ce_receipt e = Some rc \<and> bt_get (ss_segments (sn_store (n\<lparr>sn_store := s\<rparr>))) i = Some rec
        \<and> sg_synced rec \<and> sg_commit rec = replica_commit rc \<and> (\<exists>v. verify_segment_receipt rc = Inr v)"
      by simp
  qed
  with assms show ?thesis
    by (simp add: node_ok_def)
qed

lemma store_write_keeps_node:
  "hoareM (\<lambda>n. node_ok crc n \<and> bt_has (ca_entries (sn_catalog n)) (rs_segment_id res) \<and> sn_config n = cfg
      \<and> bt_get (ss_segments (sn_store n)) (rs_segment_id res) = None)
    (on_store (write_segment_owned crc cfg res bytes mode))
    (\<lambda>commit n. node_ok crc n \<and> sn_config n = cfg
      \<and> (\<exists>rec. bt_get (ss_segments (sn_store n)) (rs_segment_id res) = Some rec \<and> sg_bytes rec = bytes \<and> sg_commit rec = commit)
      \<and> sd_integrity (cm_descriptor commit) = segment_payload_integrity_of crc mode bytes
      \<and> pl_storage_node (cm_placement commit) = cfg_storage_node cfg)
    (node_ok crc)"
proof (rule hoareM_I)
  fix n :: storage_node and n'
  assume n: "node_ok crc n \<and> bt_has (ca_entries (sn_catalog n)) (rs_segment_id res) \<and> sn_config n = cfg
    \<and> bt_get (ss_segments (sn_store n)) (rs_segment_id res) = None"
  {
    fix r
    assume "on_store (write_segment_owned crc cfg res bytes mode) n = (r, n')"
    then obtain s where s: "write_segment_owned crc cfg res bytes mode (sn_store n) = (r, s)" "n' = n\<lparr>sn_store := s\<rparr>"
      by (auto simp: on_store_eq)
    have "store_ok crc cfg s"
      using write_segment_ok [OF s(1)] n by (auto simp: node_ok_def)
    moreover have "ss_segments s = ss_segments (sn_store n)
        \<or> (\<exists>new. ss_segments s = bt_insert (rs_segment_id res) new (ss_segments (sn_store n)))"
      using s(1) by (rule write_segment_cases) auto
    ultimately have "node_ok crc (n\<lparr>sn_store := s\<rparr>)"
      using n by (intro node_ok_store) (auto simp: node_ok_def split: if_splits)
    then have "node_ok crc n' \<and> sn_config n' = cfg"
      using n s(2) by simp
  }
  note keeps = this
  show "node_ok crc n' \<and> sn_config n' = cfg
      \<and> (\<exists>rec. bt_get (ss_segments (sn_store n')) (rs_segment_id res) = Some rec \<and> sg_bytes rec = bytes \<and> sg_commit rec = commit)
      \<and> sd_integrity (cm_descriptor commit) = segment_payload_integrity_of crc mode bytes
      \<and> pl_storage_node (cm_placement commit) = cfg_storage_node cfg"
    if "on_store (write_segment_owned crc cfg res bytes mode) n = (Inr commit, n')" for commit
  proof -
    from that obtain s where "write_segment_owned crc cfg res bytes mode (sn_store n) = (Inr commit, s)" "n' = n\<lparr>sn_store := s\<rparr>"
      by (auto simp: on_store_eq)
    then show ?thesis
      using keeps [OF that] n by (auto elim!: write_segment_cases)
  qed
  show "node_ok crc n'" if "on_store (write_segment_owned crc cfg res bytes mode) n = (Inl e, n')" for e
    using keeps [OF that] by simp
qed

lemma sync_keeps_node:
  "hoareM (\<lambda>n. node_ok crc n \<and> sn_config n = cfg
      \<and> (\<exists>rec. bt_get (ss_segments (sn_store n)) i = Some rec \<and> sg_bytes rec = bytes \<and> sg_commit rec = commit))
    (on_store (sync_segment i))
    (\<lambda>_ n. node_ok crc n \<and> sn_config n = cfg
      \<and> bt_get (ss_segments (sn_store n)) i = Some \<lparr>sg_bytes = bytes, sg_synced = True, sg_commit = commit\<rparr>)
    (node_ok crc)"
proof (rule hoareM_I)
  fix n :: storage_node and n'
  assume n: "node_ok crc n \<and> sn_config n = cfg
      \<and> (\<exists>rec. bt_get (ss_segments (sn_store n)) i = Some rec \<and> sg_bytes rec = bytes \<and> sg_commit rec = commit)"
  {
    fix r
    assume "on_store (sync_segment i) n = (r, n')"
    then obtain s where s: "sync_segment i (sn_store n) = (r, s)" "n' = n\<lparr>sn_store := s\<rparr>"
      by (auto simp: on_store_eq)
    have ok: "store_ok crc (sn_config n) s"
      using sync_segment_ok [OF s(1)] n by (auto simp: node_ok_def)
    from s(1) n obtain rec where rec: "bt_get (ss_segments (sn_store n)) i = Some rec" "sg_bytes rec = bytes"
      "sg_commit rec = commit" "ss_segments s = bt_insert i (rec\<lparr>sg_synced := True\<rparr>) (ss_segments (sn_store n))"
      by (auto elim: sync_segment_cases)
    then have "node_ok crc (n\<lparr>sn_store := s\<rparr>)"
      using n ok by (intro node_ok_store) (auto simp: node_ok_def split: if_splits)
    then have "node_ok crc n' \<and> sn_config n' = cfg
        \<and> bt_get (ss_segments (sn_store n')) i = Some \<lparr>sg_bytes = bytes, sg_synced = True, sg_commit = commit\<rparr>"
      using n s(2) rec by simp
  }
  note keeps = this
  show "node_ok crc n' \<and> sn_config n' = cfg
        \<and> bt_get (ss_segments (sn_store n')) i = Some \<lparr>sg_bytes = bytes, sg_synced = True, sg_commit = commit\<rparr>"
    if "on_store (sync_segment i) n = (Inr x, n')" for x
    by (rule keeps [OF that])
  show "node_ok crc n'" if "on_store (sync_segment i) n = (Inl e, n')" for e
    using keeps [OF that] by simp
qed

text \<open>Committing a receipt that verifies and describes the synced record.\<close>

lemma commit_segment_Inr:
  assumes "commit_segment cfg res rc c = (Inr u, c')"
  shows "\<exists>e e'. bt_get (ca_entries c) (rs_segment_id res) = Some e
      \<and> c' = c\<lparr>ca_entries := bt_insert (rs_segment_id res) e' (ca_entries c)\<rparr>
      \<and> ce_state e' = DurablePendingMetadata \<and> ce_receipt e' = Some rc \<and> ce_intent e' = ce_intent e"
proof -
  have "ce_state e' = DurablePendingMetadata \<and> ce_receipt e' = Some rc \<and> ce_intent e' = ce_intent e"
    if "commit_transition cfg res rc e = Inr e'" for e e'
    using that by (cases "ce_state e") (auto simp: commit_transition_def split: if_splits)
  with assms show ?thesis
    by (auto simp: commit_segment_def update_entry_Inr)
qed

lemma commit_keeps_node:
  assumes "\<exists>v. verify_segment_receipt rc = Inr v" "replica_commit rc = commit"
  shows "hoareM (\<lambda>n. node_ok crc n \<and> sn_config n = cfg
      \<and> bt_get (ss_segments (sn_store n)) (rs_segment_id res) = Some \<lparr>sg_bytes = bytes, sg_synced = True, sg_commit = commit\<rparr>)
    (on_catalog (commit_segment cfg res rc))
    (\<lambda>_ n. node_ok crc n \<and> bt_get (ss_segments (sn_store n)) (rs_segment_id res)
        = Some \<lparr>sg_bytes = bytes, sg_synced = True, sg_commit = commit\<rparr>
      \<and> (\<exists>e. bt_get (ca_entries (sn_catalog n)) (rs_segment_id res) = Some e
          \<and> ce_state e = DurablePendingMetadata \<and> ce_receipt e = Some rc))
    (node_ok crc)"
proof (rule hoareM_I)
  fix n :: storage_node and n'
  assume n: "node_ok crc n \<and> sn_config n = cfg
      \<and> bt_get (ss_segments (sn_store n)) (rs_segment_id res) = Some \<lparr>sg_bytes = bytes, sg_synced = True, sg_commit = commit\<rparr>"
  show "node_ok crc n'" if "on_catalog (commit_segment cfg res rc) n = (Inl x, n')" for x
    using that n by (auto simp: on_catalog_eq commit_segment_def dest!: update_entry_Inl)
  show "node_ok crc n' \<and> bt_get (ss_segments (sn_store n')) (rs_segment_id res)
        = Some \<lparr>sg_bytes = bytes, sg_synced = True, sg_commit = commit\<rparr>
      \<and> (\<exists>e. bt_get (ca_entries (sn_catalog n')) (rs_segment_id res) = Some e
          \<and> ce_state e = DurablePendingMetadata \<and> ce_receipt e = Some rc)"
    if "on_catalog (commit_segment cfg res rc) n = (Inr x, n')" for x
  proof -
    from that obtain c where c: "commit_segment cfg res rc (sn_catalog n) = (Inr x, c)" "n' = n\<lparr>sn_catalog := c\<rparr>"
      by (auto simp: on_catalog_eq)
    have "catalog_ok cfg c"
      by (rule catalog_step_ok [OF step_commit [OF c(1)]]) (use n in \<open>auto simp: node_ok_def\<close>)
    with commit_segment_Inr [OF c(1)] c(2) n assms show ?thesis
      by (fastforce simp: node_ok_def holds_segment_def bt_has_iff split: if_splits)
  qed
qed

lemma on_store_config: "on_store m n = (r, n') \<Longrightarrow> sn_config n' = sn_config n \<and> sn_catalog n' = sn_catalog n
    \<and> sn_storage_node n' = sn_storage_node n"
  by (auto simp: on_store_eq)

lemma on_catalog_config: "on_catalog m n = (r, n') \<Longrightarrow> sn_config n' = sn_config n \<and> sn_store n' = sn_store n
    \<and> sn_storage_node n' = sn_storage_node n"
  by (auto simp: on_catalog_eq)

lemma update_entry_has: "update_entry i f c = (r, c') \<Longrightarrow> bt_has (ca_entries c) j \<Longrightarrow> bt_has (ca_entries c') j"
  by (cases r) (auto simp: update_entry_Inr bt_has_iff dest: update_entry_Inl)

text \<open>What a successful write leaves behind.\<close>

definition written :: "(byte list \<Rightarrow> nat) \<Rightarrow> write_grant \<Rightarrow> byte list \<Rightarrow> segment_write_receipt \<Rightarrow> storage_node \<Rightarrow> bool" where
  "written crc g bytes rc n \<longleftrightarrow> node_ok crc n
    \<and> receipt_for_segment (sn_catalog n) (gr_segment_id g) = Inr rc
    \<and> (\<exists>v. verify_segment_receipt rc = Inr v)
    \<and> rc_grant_id rc = gr_grant_id g \<and> rc_grant_hash rc = grant_body_hash g \<and> rc_bytes rc = length bytes
    \<and> rc_integrity rc = segment_payload_integrity_of crc (gr_payload_integrity g) bytes
    \<and> read_segment (sn_store n) (gr_segment_id g) (mk_bytes 0 (length bytes)) (length bytes) = Inr bytes"

lemma duplicate_write_Inr:
  assumes "duplicate_write crc n g hash bytes len = Inr rc" "node_ok crc n" "len = length bytes"
    and "hash = grant_body_hash g"
  shows "written crc g bytes rc n"
  using assms by (auto simp: duplicate_write_def written_def split: if_splits)

lemma fresh_written:
  assumes "node_ok crc n" "bt_get (ss_segments (sn_store n)) (gr_segment_id g) =
      Some \<lparr>sg_bytes = bytes, sg_synced = True, sg_commit = commit\<rparr>"
    and "bt_get (ca_entries (sn_catalog n)) (gr_segment_id g) = Some e" "ce_receipt e = Some rc"
    and "verify_write_grant_and_hash g node (gr_segment_id g) (length bytes) = Inr hash"
    and "create_segment_receipt_after_verified_write g hash commit inc = Inr rc"
    and "\<exists>v. verify_segment_receipt rc = Inr v"
    and "sd_integrity (cm_descriptor commit) = segment_payload_integrity_of crc (gr_payload_integrity g) bytes"
  shows "written crc g bytes rc n"
proof -
  have "length bytes < u64_limit"
    using assms(1,2) by (fastforce simp: node_ok_def store_ok_def record_ok_def Let_def)
  then show ?thesis
    using assms
    by (auto simp: written_def receipt_for_segment_def read_segment_Inr verify_grant_Inr
        create_segment_receipt_after_verified_write_def Let_def)
qed

text \<open>The steps after the reservation, from a node that has the entry but not the bytes.\<close>

lemma store_steps_written:
  assumes v: "verify_write_grant_and_hash g (cfg_storage_node cfg) (gr_segment_id g) (length bytes) = Inr hash"
    and res: "rs_segment_id res = gr_segment_id g"
  shows "hoareM (\<lambda>n. node_ok crc n \<and> bt_has (ca_entries (sn_catalog n)) (gr_segment_id g) \<and> sn_config n = cfg
      \<and> bt_get (ss_segments (sn_store n)) (gr_segment_id g) = None)
    (seqM (on_store (write_segment_owned crc cfg res bytes (gr_payload_integrity g))) (\<lambda>commit.
     seqM (on_store (sync_segment (rs_segment_id res))) (\<lambda>_.
     seqM (liftM (create_segment_receipt_after_verified_write g hash commit LOCAL_STORAGE_NODE_INCARNATION)) (\<lambda>rc.
     seqM (on_catalog (commit_segment cfg res rc)) (\<lambda>_.
     returnM rc))))) (written crc g bytes) (node_ok crc)"
proof (rule hoareM_seqM [OF store_write_keeps_node [where res = res, unfolded res]], unfold res)
  fix commit :: segment_replica_commit
  let ?int = "sd_integrity (cm_descriptor commit) = segment_payload_integrity_of crc (gr_payload_integrity g) bytes
      \<and> pl_storage_node (cm_placement commit) = cfg_storage_node cfg"
  let ?synced = "\<lambda>n. bt_get (ss_segments (sn_store n)) (gr_segment_id g)
      = Some \<lparr>sg_bytes = bytes, sg_synced = True, sg_commit = commit\<rparr>"
  have receipt: "hoareM (\<lambda>n. (node_ok crc n \<and> sn_config n = cfg \<and> ?synced n) \<and> ?int)
     (seqM (liftM (create_segment_receipt_after_verified_write g hash commit LOCAL_STORAGE_NODE_INCARNATION)) (\<lambda>rc.
      seqM (on_catalog (commit_segment cfg res rc)) (\<lambda>_. returnM rc))) (written crc g bytes) (node_ok crc)"
  proof (rule hoareM_seqM [where R = "\<lambda>rc n.
      create_segment_receipt_after_verified_write g hash commit LOCAL_STORAGE_NODE_INCARNATION = Inr rc
      \<and> (node_ok crc n \<and> sn_config n = cfg \<and> ?synced n) \<and> ?int"])
    fix rc
    let ?created = "create_segment_receipt_after_verified_write g hash commit LOCAL_STORAGE_NODE_INCARNATION = Inr rc"
    show "hoareM (\<lambda>n. ?created \<and> (node_ok crc n \<and> sn_config n = cfg \<and> ?synced n) \<and> ?int)
        (seqM (on_catalog (commit_segment cfg res rc)) (\<lambda>_. returnM rc)) (written crc g bytes) (node_ok crc)"
    proof (rule hoareM_ignore)
      fix n :: storage_node
      assume n: "?created \<and> (node_ok crc n \<and> sn_config n = cfg \<and> ?synced n) \<and> ?int"
      have ok: "\<exists>v. verify_segment_receipt rc = Inr v" "replica_commit rc = commit"
        using create_receipt_verifies [OF v] n
        by (auto simp: verify_receipt_matches_grant_def replica_commit_def
            create_segment_receipt_after_verified_write_def Let_def)
      show "hoareM (\<lambda>n. ?created \<and> (node_ok crc n \<and> sn_config n = cfg \<and> ?synced n) \<and> ?int)
        (seqM (on_catalog (commit_segment cfg res rc)) (\<lambda>_. returnM rc)) (written crc g bytes) (node_ok crc)"
      proof (rule hoareM_pre [OF hoareM_seqM [OF commit_keeps_node [OF ok, where res = res, unfolded res]]])
        fix u :: unit
        show "hoareM (\<lambda>n. node_ok crc n \<and> ?synced n
            \<and> (\<exists>e. bt_get (ca_entries (sn_catalog n)) (gr_segment_id g) = Some e
              \<and> ce_state e = DurablePendingMetadata \<and> ce_receipt e = Some rc))
          (returnM rc) (written crc g bytes) (node_ok crc)"
          using n v ok(1) by (intro hoareM_returnM) (elim conjE exE, rule fresh_written, auto)
      qed auto
    qed
  qed (rule hoareM_liftM; auto)
  show "hoareM (\<lambda>n. node_ok crc n \<and> sn_config n = cfg
      \<and> (\<exists>rec. bt_get (ss_segments (sn_store n)) (gr_segment_id g) = Some rec \<and> sg_bytes rec = bytes \<and> sg_commit rec = commit)
      \<and> sd_integrity (cm_descriptor commit) = segment_payload_integrity_of crc (gr_payload_integrity g) bytes
      \<and> pl_storage_node (cm_placement commit) = cfg_storage_node cfg)
    (seqM (on_store (sync_segment (gr_segment_id g))) (\<lambda>_.
     seqM (liftM (create_segment_receipt_after_verified_write g hash commit LOCAL_STORAGE_NODE_INCARNATION)) (\<lambda>rc.
     seqM (on_catalog (commit_segment cfg res rc)) (\<lambda>_.
     returnM rc)))) (written crc g bytes) (node_ok crc)"
    by (rule hoareM_pre [OF hoareM_seqM [OF hoareM_frame [OF sync_keeps_node, where F = "\<lambda>_. ?int"] receipt]]) auto
qed

lemma write_segment_node_correct:
  "hoareM (\<lambda>n. node_ok crc n \<and> sn_config n = cfg) (write_segment_node crc g bytes) (written crc g bytes) (node_ok crc)"
proof -
  let ?i = "gr_segment_id g"
  let ?F = "\<lambda>n. sn_config n = cfg \<and> bt_get (ss_segments (sn_store n)) ?i = None"
  let ?G = "\<lambda>n. bt_has (ca_entries (sn_catalog n)) ?i \<and> ?F n"
  let ?v = "\<lambda>hash. verify_write_grant_and_hash g (cfg_storage_node cfg) ?i (length bytes) = Inr hash"
  have step: "hoareM (\<lambda>n. node_ok crc n \<and> ?G n) (on_catalog (begin_write res)) (\<lambda>_ n. node_ok crc n \<and> ?G n) (node_ok crc)" for res
    by (rule hoareM_frame [OF begin_write_keeps_node])
      (auto simp: on_catalog_eq begin_write_def dest: update_entry_has)
  note reserve = hoareM_frame [OF reserve_keeps_node, where F = ?F]
  have fresh: "hoareM (\<lambda>n. node_ok crc n \<and> ?F n)
      (seqM (on_catalog (reserve_segment_with_id ?i
         \<lparr>ri_write_intent = gr_write_intent g, ri_owner = gr_owner g, ri_bytes = gr_max_bytes g\<rparr>)) (\<lambda>res.
       seqM (on_catalog (begin_write res)) (\<lambda>_.
       seqM (getM sn_config) (\<lambda>cfg.
       seqM (on_store (write_segment_owned crc cfg res bytes (gr_payload_integrity g))) (\<lambda>commit.
       seqM (on_store (sync_segment (rs_segment_id res))) (\<lambda>_.
       seqM (liftM (create_segment_receipt_after_verified_write g hash commit LOCAL_STORAGE_NODE_INCARNATION)) (\<lambda>rc.
       seqM (on_catalog (commit_segment cfg res rc)) (\<lambda>_.
       returnM rc)))))))) (written crc g bytes) (node_ok crc)" if v: "?v hash" for hash
  proof (rule hoareM_seqM [OF reserve])
    show "hoareM (\<lambda>n. (node_ok crc n \<and> bt_has (ca_entries (sn_catalog n)) ?i \<and> rs_segment_id res = ?i
        \<and> rs_bytes res = ri_bytes \<lparr>ri_write_intent = gr_write_intent g, ri_owner = gr_owner g, ri_bytes = gr_max_bytes g\<rparr>) \<and> ?F n)
      (seqM (on_catalog (begin_write res)) (\<lambda>_.
       seqM (getM sn_config) (\<lambda>cfg.
       seqM (on_store (write_segment_owned crc cfg res bytes (gr_payload_integrity g))) (\<lambda>commit.
       seqM (on_store (sync_segment (rs_segment_id res))) (\<lambda>_.
       seqM (liftM (create_segment_receipt_after_verified_write g hash commit LOCAL_STORAGE_NODE_INCARNATION)) (\<lambda>rc.
       seqM (on_catalog (commit_segment cfg res rc)) (\<lambda>_.
       returnM rc))))))) (written crc g bytes) (node_ok crc)" for res
    proof (rule hoareM_ignore)
      fix n :: storage_node
      assume "(node_ok crc n \<and> bt_has (ca_entries (sn_catalog n)) ?i \<and> rs_segment_id res = ?i
        \<and> rs_bytes res = ri_bytes \<lparr>ri_write_intent = gr_write_intent g, ri_owner = gr_owner g, ri_bytes = gr_max_bytes g\<rparr>) \<and> ?F n"
      then have res: "rs_segment_id res = ?i"
        by simp
      show ?thesis
        by (rule hoareM_pre, rule hoareM_seqM [OF step], rule hoareM_getM_const [where c = cfg], simp,
            rule store_steps_written [OF v res], auto)
    qed
  qed (auto dest: on_catalog_config)
  show ?thesis
    unfolding write_segment_node_def
    apply (rule hoareM_seqM [where R = "\<lambda>len n. len = length bytes \<and> node_ok crc n \<and> sn_config n = cfg"])
     apply (rule hoareM_liftM; simp)
    subgoal for len
      apply (rule hoareM_seqM [where R = "\<lambda>hash n. len = length bytes \<and> ?v hash \<and> node_ok crc n \<and> sn_config n = cfg"])
       apply (rule hoareM_askM; auto simp: node_ok_def)
      subgoal for hash
        apply (rule hoareM_seqM [where R = "\<lambda>known n. contains_segment (sn_catalog n) ?i = known
            \<and> len = length bytes \<and> ?v hash \<and> node_ok crc n \<and> sn_config n = cfg"])
         apply (rule hoareM_getM; simp)
        subgoal for known
          apply (cases known; simp only: if_True if_False)
           apply (rule hoareM_askM; auto intro!: duplicate_write_Inr simp: verify_grant_Inr)
          apply (rule hoareM_ignore, rule hoareM_pre [OF fresh], simp)
          apply (auto simp: contains_segment_def node_ok_def bt_has_iff)
          done
        done
      done
    done
qed

section \<open>Every request keeps the invariant\<close>

lemma write_keeps_node: "hoareM (node_ok crc) (write_segment_node crc g bytes) (written crc g bytes) (node_ok crc)"
  using hoareM_D [OF write_segment_node_correct] by (intro hoareM_I) blast+

lemma hoareM_respond:
  "hoareM P m (\<lambda>_. Q) E \<Longrightarrow> hoareM P (seqM m (\<lambda>x. returnM (f x))) (\<lambda>_. Q) E"
  by (rule hoareM_seqM) (auto intro: hoareM_returnM)

lemma node_send_keeps_node: "hoareM (node_ok crc) (node_send crc req) (\<lambda>_. node_ok crc) (node_ok crc)"
proof (cases req)
  case (Node_WriteSegment g bytes)
  have "hoareM (node_ok crc) (write_segment_node crc g bytes) (\<lambda>_. node_ok crc) (node_ok crc)"
    by (rule hoareM_post [OF write_keeps_node]) (simp add: written_def)
  with Node_WriteSegment show ?thesis
    by (simp add: node_send_def hoareM_respond)
next
  case (Node_MarkReferenced e)
  have "hoareM (node_ok crc) (mark_segment_referenced_node e) (\<lambda>_. node_ok crc) (node_ok crc)"
    unfolding mark_segment_referenced_node_def
    by (rule hoareM_seqM [where R = "\<lambda>_. node_ok crc"]) (auto intro: hoareM_askM mark_referenced_keeps_node)
  with Node_MarkReferenced show ?thesis
    by (simp add: node_send_def hoareM_respond)
qed (auto simp: node_send_def intro!: hoareM_respond hoareM_askM hoareM_getM release_keeps_node
    custodian_keeps_node maintenance_keeps_node)

lemma storage_node_new_ok: "node_ok crc (storage_node_new cfg node_id)"
  by (simp add: node_ok_def storage_node_new_def for_storage_node_def store_new_ok catalog_new_ok)
    (simp add: store_new_def catalog_new_def)

definition node_run :: "(byte list \<Rightarrow> nat) \<Rightarrow> storage_node_request list \<Rightarrow> storage_node \<Rightarrow> storage_node" where
  "node_run crc reqs n = foldl (\<lambda>n req. snd (node_send crc req n)) n reqs"

lemma node_run_ok: "node_ok crc n \<Longrightarrow> node_ok crc (node_run crc reqs n)"
  unfolding node_run_def
proof (induction reqs arbitrary: n)
  case (Cons req reqs)
  obtain r n' where s: "node_send crc req n = (r, n')"
    by (cases "node_send crc req n")
  with Cons.prems have "node_ok crc n'"
    using hoareM_D [OF node_send_keeps_node] by (cases r) blast+
  with Cons.IH s show ?case
    by simp
qed simp

section \<open>Success of a fresh write, and of its repetition\<close>

lemma on_store_run: "on_store m n = (fst (m (sn_store n)), n\<lparr>sn_store := snd (m (sn_store n))\<rparr>)"
  by (simp add: on_store_def split: prod.splits)

lemma on_catalog_run: "on_catalog m n = (fst (m (sn_catalog n)), n\<lparr>sn_catalog := snd (m (sn_catalog n))\<rparr>)"
  by (simp add: on_catalog_def split: prod.splits)

definition write_accepted :: "storage_node \<Rightarrow> write_grant \<Rightarrow> byte list \<Rightarrow> bool" where
  "write_accepted n g bytes \<longleftrightarrow>
    (\<exists>hash. verify_write_grant_and_hash g (sn_storage_node n) (gr_segment_id g) (length bytes) = Inr hash)
    \<and> validate_config (sn_config n) = Inr () \<and> bytes \<noteq> [] \<and> length bytes < u64_limit
    \<and> length bytes mod cfg_block_size (sn_config n) = 0
    \<and> ss_next_offset (sn_store n) + length bytes < u64_limit
    \<and> gr_segment_id g + 1 < u128_limit \<and> \<not> contains_segment (sn_catalog n) (gr_segment_id g)"

lemma reserve_succeeds:
  assumes "0 < ri_bytes intent" "bt_get (ca_entries c) i = None" "i + 1 < u128_limit"
  shows "\<exists>c'. reserve_segment_with_id i intent c = (Inr \<lparr>rs_segment_id = i, rs_bytes = ri_bytes intent\<rparr>, c')
    \<and> bt_get (ca_entries c') i = Some \<lparr>ce_intent = intent,
        ce_reservation = \<lparr>rs_segment_id = i, rs_bytes = ri_bytes intent\<rparr>, ce_state = Reserved, ce_receipt = None\<rparr>"
  using assms by (simp add: reserve_segment_with_id_def run_defs Let_def bt_has_def bt_get_def checked_add_u128_def)
    (simp add: bt_get_def [symmetric])

lemma begin_succeeds:
  assumes "bt_get (ca_entries c) (rs_segment_id res) = Some e" "ce_reservation e = res" "ce_state e = Reserved"
  shows "begin_write res c = (Inr (), c\<lparr>ca_entries := bt_insert (rs_segment_id res) (e\<lparr>ce_state := Writing\<rparr>) (ca_entries c)\<rparr>)"
  using assms by (simp add: begin_write_def update_entry_run)

lemma write_owned_succeeds:
  assumes "validate_config cfg = Inr ()" "bytes \<noteq> []" "length bytes < u64_limit" "rs_bytes res = length bytes"
    and "length bytes mod cfg_block_size cfg = 0" "bt_get (ss_segments s) (rs_segment_id res) = None"
    and "ss_next_offset s + length bytes < u64_limit"
  shows "\<exists>commit s'. write_segment_owned crc cfg res bytes mode s = (Inr commit, s')"
  using assms by (simp add: write_segment_owned_def run_defs Let_def u64_of_len_def checked_add_u64_def del: validate_config_Inr)

lemma write_accepted_succeeds:
  assumes "node_ok crc n" "write_accepted n g bytes"
  shows "\<exists>rc n'. write_segment_node crc g bytes n = (Inr rc, n')"
proof -
  let ?i = "gr_segment_id g" and ?cfg = "sn_config n"
  let ?intent = "\<lparr>ri_write_intent = gr_write_intent g, ri_owner = gr_owner g, ri_bytes = gr_max_bytes g\<rparr>"
  let ?res = "\<lparr>rs_segment_id = ?i, rs_bytes = gr_max_bytes g\<rparr>"
  have absent: "bt_get (ss_segments (sn_store n)) ?i = None" "bt_get (ca_entries (sn_catalog n)) ?i = None"
    "\<not> contains_segment (sn_catalog n) ?i"
    using assms by (auto simp: node_ok_def write_accepted_def contains_segment_def bt_has_iff)
  obtain hash where v: "verify_write_grant_and_hash g (sn_storage_node n) ?i (length bytes) = Inr hash"
    using assms(2) by (auto simp: write_accepted_def)
  then have g: "gr_max_bytes g = length bytes" "gr_storage_node g = sn_storage_node n" "gr_max_bytes g \<noteq> 0"
    unfolding verify_grant_Inr by blast+
  have id: "cfg_storage_node ?cfg = sn_storage_node n"
    using assms(1) by (simp add: node_ok_def)
  have size: "?i + 1 < u128_limit" "length bytes < u64_limit" "bytes \<noteq> []" "validate_config ?cfg = Inr ()"
    "length bytes mod cfg_block_size ?cfg = 0" "ss_next_offset (sn_store n) + length bytes < u64_limit"
    using assms(2) by (simp_all add: write_accepted_def)
  obtain c1 where c1: "reserve_segment_with_id ?i ?intent (sn_catalog n) = (Inr ?res, c1)"
    "bt_get (ca_entries c1) ?i = Some \<lparr>ce_intent = ?intent, ce_reservation = ?res, ce_state = Reserved, ce_receipt = None\<rparr>"
    using reserve_succeeds [of ?intent "sn_catalog n" ?i] absent(2) size(1) g(3) by auto
  obtain c2 where c2: "begin_write ?res c1 = (Inr (), c2)"
    "bt_get (ca_entries c2) ?i = Some \<lparr>ce_intent = ?intent, ce_reservation = ?res, ce_state = Writing, ce_receipt = None\<rparr>"
    using begin_succeeds [of c1 ?res] c1(2) by simp
  obtain commit s1 where w: "write_segment_owned crc ?cfg ?res bytes (gr_payload_integrity g) (sn_store n) = (Inr commit, s1)"
    using write_owned_succeeds [of ?cfg bytes ?res "sn_store n"] size absent(1) g(1) by fastforce
  from w have commit: "sd_segment_id (cm_descriptor commit) = ?i" "sd_bytes (cm_descriptor commit) = length bytes"
    "pl_segment_id (cm_placement commit) = ?i" "pl_bytes (cm_placement commit) = length bytes"
    "pl_storage_node (cm_placement commit) = cfg_storage_node ?cfg"
    "\<exists>rec. bt_get (ss_segments s1) ?i = Some rec"
    by (rule write_segment_cases; use absent(1) in simp)+
  obtain s2 where s2: "sync_segment ?i s1 = (Inr (), s2)"
    using commit(6) by (auto simp: sync_segment_def get_segment_def run_defs)
  obtain rc where rc: "create_segment_receipt_after_verified_write g hash commit LOCAL_STORAGE_NODE_INCARNATION = Inr rc"
    using commit g(1) by (simp add: create_segment_receipt_after_verified_write_def Let_def)
  then have "\<exists>e'. commit_transition ?cfg ?res rc \<lparr>ce_intent = ?intent, ce_reservation = ?res, ce_state = Writing, ce_receipt = None\<rparr> = Inr e'"
    using commit g(1,2) id by (auto simp: create_segment_receipt_after_verified_write_def commit_transition_def Let_def)
  then obtain c3 where c3: "commit_segment ?cfg ?res rc c2 = (Inr (), c3)"
    using c2(2) by (auto simp: commit_segment_def update_entry_run)
  show ?thesis
    using absent(3) size(2) v c1(1) c2(1) w s2 rc c3
    by (simp add: write_segment_node_def seqM_def liftM_def askM_def getM_def returnM_def on_catalog_run on_store_run u64_of_len_def)
qed

lemma written_retry:
  assumes "written crc g bytes rc n" "verify_write_grant_and_hash g (sn_storage_node n) (gr_segment_id g) (length bytes) = Inr hash"
    and "length bytes < u64_limit"
  shows "write_segment_node crc g bytes n = (Inr rc, n)"
proof -
  have "contains_segment (sn_catalog n) (gr_segment_id g)"
    using assms(1) by (auto simp: written_def receipt_for_segment_def contains_segment_def bt_has_iff)
  moreover have "hash = grant_body_hash g"
    using assms(2) by (simp add: verify_grant_Inr)
  then have "duplicate_write crc n g hash bytes (length bytes) = Inr rc"
    using assms(1) by (auto simp: written_def duplicate_write_def)
  ultimately show ?thesis
    using assms(2,3)
    by (simp add: write_segment_node_def seqM_def liftM_def askM_def getM_def u64_of_len_def)
qed

lemma write_node_identity: "write_segment_node crc g bytes n = (Inr rc, n') \<Longrightarrow>
    sn_storage_node n' = sn_storage_node n
    \<and> (\<exists>hash. verify_write_grant_and_hash g (sn_storage_node n) (gr_segment_id g) (length bytes) = Inr hash)
    \<and> length bytes < u64_limit"
  by (auto simp: write_segment_node_def split: if_splits dest!: on_catalog_config on_store_config)

section \<open>Referenced segments are kept by the cleaners\<close>

definition referenced_holding :: "segment_id \<Rightarrow> segment_record \<Rightarrow> storage_node \<Rightarrow> bool" where
  "referenced_holding i rec n \<longleftrightarrow>
    (\<exists>e. bt_get (ca_entries (sn_catalog n)) i = Some e \<and> ce_state e = Referenced)
    \<and> bt_get (ss_segments (sn_store n)) i = Some rec"

lemma free_keeps_referenced:
  assumes "\<And>e e'. f e = Inr e' \<Longrightarrow> ce_state e \<noteq> Referenced"
  shows "hoareM (referenced_holding i rec) (seqM (on_catalog (update_entry j f)) (\<lambda>_.
      seqM (on_store (store_delete_segment j)) (\<lambda>_. returnM x))) (\<lambda>_. referenced_holding i rec) (referenced_holding i rec)"
proof (rule hoareM_seqM)
  show "hoareM (referenced_holding i rec) (on_catalog (update_entry j f))
      (\<lambda>_ n. referenced_holding i rec n \<and> j \<noteq> i) (referenced_holding i rec)"
  proof (rule hoareM_I)
    fix n u n'
    assume n: "referenced_holding i rec n" and "on_catalog (update_entry j f) n = (Inr u, n')"
    then obtain e e' where e: "bt_get (ca_entries (sn_catalog n)) j = Some e" "f e = Inr e'"
      "n' = n\<lparr>sn_catalog := (sn_catalog n)\<lparr>ca_entries := bt_insert j e' (ca_entries (sn_catalog n))\<rparr>\<rparr>"
      by (auto simp: on_catalog_eq update_entry_Inr)
    with assms [OF e(2)] n show "referenced_holding i rec n' \<and> j \<noteq> i"
      by (auto simp: referenced_holding_def)
  qed (auto simp: on_catalog_eq referenced_holding_def dest!: update_entry_Inl)
  show "hoareM (\<lambda>n. referenced_holding i rec n \<and> j \<noteq> i) (seqM (on_store (store_delete_segment j)) (\<lambda>_. returnM x))
      (\<lambda>_. referenced_holding i rec) (referenced_holding i rec)"
    by (rule hoareM_I) (auto simp: on_store_eq store_delete_segment_def referenced_holding_def seqM_Inl_iff)
qed

lemma custodian_keeps_referenced:
  "hoareM (referenced_holding i rec) (run_custodian expired) (\<lambda>_. referenced_holding i rec) (referenced_holding i rec)"
  unfolding run_custodian_def
proof (rule hoareM_seqM [OF hoareM_getM], assumption, rule hoareM_foldM)
  fix report and entry :: "segment_id \<times> segment_lifecycle_state \<times> write_intent_id"
  show "hoareM (referenced_holding i rec) (custodian_step expired report entry) (\<lambda>_. referenced_holding i rec) (referenced_holding i rec)"
    unfolding custodian_step_def freeing_defs
    by (cases entry)
      (auto intro!: free_keeps_referenced hoareM_returnM split: segment_lifecycle_state.splits)
qed

lemma maintenance_keeps_referenced:
  "hoareM (referenced_holding i rec) run_maintenance_tick (\<lambda>_. referenced_holding i rec) (referenced_holding i rec)"
proof -
  have "hoareM (referenced_holding i rec) (maintenance_tick_step acc entry) (\<lambda>_. referenced_holding i rec) (referenced_holding i rec)"
    for acc and entry :: "segment_id \<times> segment_lifecycle_state \<times> write_intent_id"
    unfolding maintenance_tick_step_def freeing_defs
    by (cases entry; cases acc)
      (auto intro!: free_keeps_referenced hoareM_returnM split: segment_lifecycle_state.splits)
  then show ?thesis
    unfolding run_maintenance_tick_def
    by (intro hoareM_seqM [where R = "\<lambda>_. referenced_holding i rec"] hoareM_getM hoareM_foldM hoareM_returnM)
qed

section \<open>Properties\<close>

text \<open>
  C1: whatever requests a storage node receives, in whatever order and with whatever outcomes, every
  catalog entry that is durable, referenced or released has its bytes in the store, synced, under a
  receipt that verifies and describes exactly that record; nothing is stored outside the catalog; and
  the store and the catalog keep their own invariants.
\<close>

theorem node_invariant_under_all_requests:
  "node_ok crc (foldl (\<lambda>n req. snd (node_send crc req n)) (storage_node_new cfg node_id) reqs)"
  using node_run_ok [OF storage_node_new_ok] by (simp add: node_run_def)

text \<open>
  C2: a write under a valid grant for this node, of whole blocks, to a segment id the node does not
  know, succeeds; afterwards the receipt on record verifies, names the grant and the checksum of the
  bytes, and the bytes read back in full.
\<close>

theorem granted_write_succeeds_and_reads_back:
  assumes "node_ok crc n" "write_accepted n g bytes"
  shows "\<exists>rc n'. write_segment_node crc g bytes n = (Inr rc, n') \<and> node_ok crc n'
    \<and> receipt_for_segment (sn_catalog n') (gr_segment_id g) = Inr rc
    \<and> (\<exists>v. verify_segment_receipt rc = Inr v)
    \<and> rc_grant_hash rc = grant_body_hash g
    \<and> rc_integrity rc = segment_payload_integrity_of crc (gr_payload_integrity g) bytes
    \<and> read_segment (sn_store n') (gr_segment_id g) (mk_bytes 0 (length bytes)) (length bytes) = Inr bytes"
proof -
  obtain rc n' where w: "write_segment_node crc g bytes n = (Inr rc, n')"
    using write_accepted_succeeds [OF assms] by blast
  have "written crc g bytes rc n'"
    using hoareM_D(1) [OF write_keeps_node assms(1) w] .
  with w show ?thesis
    by (auto simp: written_def)
qed

definition sample_node :: storage_node where
  "sample_node = storage_node_new sample_store_config 1"

lemma sample_write_accepted:
  assumes "issue_write_grant sample_request = Inr g"
  shows "write_accepted sample_node g [1, 2, 3, 4]"
proof -
  have four: "length [1, 2, 3, 4 :: byte] = 4"
    by simp
  show ?thesis
    unfolding write_accepted_def four using sample_issue_fields [OF assms]
    by (simp add: sample_node_def storage_node_new_def for_storage_node_def sample_store_config_def
      default_config_def contains_segment_def catalog_new_def store_new_def bt_has_def u64_limit_def u128_limit_def
      is_power_of_two.simps)
qed

lemma sample_node_ok: "node_ok crc sample_node"
  by (simp add: sample_node_def storage_node_new_ok)

theorem granted_write_succeeds_and_reads_back_witness:
  "\<exists>g rc n'. issue_write_grant sample_request = Inr g
    \<and> write_segment_node (\<lambda>_. 77) g [1, 2, 3, 4] sample_node = (Inr rc, n')
    \<and> read_segment (sn_store n') (gr_segment_id g) (mk_bytes 0 4) 4 = Inr [1, 2, 3, 4]"
proof -
  obtain g where g: "issue_write_grant sample_request = Inr g"
    using sample_issue by blast
  have four: "length [1, 2, 3, 4 :: byte] = 4"
    by simp
  show ?thesis
    using granted_write_succeeds_and_reads_back [OF sample_node_ok sample_write_accepted [OF g], of "\<lambda>_. 77"] g
    unfolding four by blast
qed

text \<open>
  C3: repeating a write that succeeded returns the same receipt and changes nothing, so a client may
  retry a write whose answer it lost.
\<close>

theorem repeated_write_is_idempotent:
  assumes "node_ok crc n" "write_segment_node crc g bytes n = (Inr rc, n')"
  shows "write_segment_node crc g bytes n' = (Inr rc, n')"
proof -
  have "written crc g bytes rc n'"
    by (rule hoareM_D(1) [OF write_keeps_node assms])
  with write_node_identity [OF assms(2)] show ?thesis
    by (auto intro: written_retry)
qed

theorem repeated_write_is_idempotent_witness:
  "\<exists>g rc n'. issue_write_grant sample_request = Inr g
    \<and> write_segment_node (\<lambda>_. 77) g [1, 2, 3, 4] sample_node = (Inr rc, n')
    \<and> write_segment_node (\<lambda>_. 77) g [1, 2, 3, 4] n' = (Inr rc, n')"
proof -
  obtain g where g: "issue_write_grant sample_request = Inr g"
    using sample_issue by blast
  obtain rc n' where w: "write_segment_node (\<lambda>_. 77) g [1, 2, 3, 4] sample_node = (Inr rc, n')"
    using write_accepted_succeeds [OF sample_node_ok sample_write_accepted [OF g]] by blast
  from g w repeated_write_is_idempotent [OF sample_node_ok w] show ?thesis
    by blast
qed

text \<open>
  C4: neither the custodian, whatever intents it takes for expired, nor the maintenance tick touches
  a referenced segment: it stays referenced and its stored record stays the same, also when the run
  fails half-way.
\<close>

theorem cleaners_keep_referenced_segments:
  assumes "referenced_holding i rec n" "run_custodian expired n = (r, n1)" "run_maintenance_tick n1 = (q, n2)"
  shows "referenced_holding i rec n1 \<and> referenced_holding i rec n2"
proof -
  have n1: "referenced_holding i rec n1"
    using hoareM_D [OF custodian_keeps_referenced assms(1)] assms(2) by (cases r) blast+
  have "referenced_holding i rec n2"
    using hoareM_D [OF maintenance_keeps_referenced n1] assms(3) by (cases q) blast+
  with n1 show ?thesis ..
qed

definition sample_referenced_node :: storage_node where
  "sample_referenced_node = sample_node\<lparr>
    sn_catalog := \<lparr>ca_next_segment_id = 9, ca_entries = [(3, sample_catalog_entry\<lparr>ce_state := Referenced\<rparr>),
      (8, sample_catalog_entry\<lparr>ce_state := Released\<rparr>)]\<rparr>,
    sn_store := \<lparr>ss_next_offset = 8, ss_segments = [(3, sample_record), (8, sample_record)]\<rparr>\<rparr>"

theorem cleaners_keep_referenced_segments_witness:
  "\<exists>r n1 q n2. run_custodian {4} sample_referenced_node = (r, n1) \<and> run_maintenance_tick n1 = (q, n2)
    \<and> bt_get (ss_segments (sn_store n1)) 8 = None
    \<and> referenced_holding 3 sample_record n1 \<and> referenced_holding 3 sample_record n2"
proof -
  have start: "referenced_holding 3 sample_record sample_referenced_node"
    by (simp add: referenced_holding_def sample_referenced_node_def)
  obtain r n1 where c: "run_custodian {4} sample_referenced_node = (r, n1)"
    by fastforce
  obtain q n2 where m: "run_maintenance_tick n1 = (q, n2)"
    by fastforce
  have "bt_get (ss_segments (sn_store (snd (run_custodian {4} sample_referenced_node)))) 8 = None"
    by (simp add: run_custodian_def custodian_step_def run_defs catalog_entries_def sample_referenced_node_def
        on_catalog_run on_store_run catalog_delete_segment_def update_entry_run store_delete_segment_def)
  with c m cleaners_keep_referenced_segments [OF start c m] show ?thesis
    by auto
qed


definition sample_durable_entry :: "segment_write_receipt \<Rightarrow> catalog_entry" where
  "sample_durable_entry rc = \<lparr>ce_intent = sample_intent\<lparr>ri_bytes := 4\<rparr>,
    ce_reservation = \<lparr>rs_segment_id = 3, rs_bytes = 4\<rparr>, ce_state = DurablePendingMetadata, ce_receipt = Some rc\<rparr>"

definition sample_durable_node :: "segment_write_receipt \<Rightarrow> storage_node" where
  "sample_durable_node rc = sample_node\<lparr>
    sn_catalog := \<lparr>ca_next_segment_id = 4, ca_entries = [(3, sample_durable_entry rc)]\<rparr>,
    sn_store := \<lparr>ss_next_offset = 4, ss_segments = [(3, sample_record\<lparr>sg_synced := True\<rparr>)]\<rparr>\<rparr>"

lemma sample_durable_node_ok:
  assumes "issue_write_grant sample_request = Inr g"
    and "create_segment_receipt_after_verified_write g (grant_body_hash g) sample_commit 1 = Inr rc"
  shows "node_ok (\<lambda>_. 77) (sample_durable_node rc)"
proof -
  have v: "\<exists>v. verify_segment_receipt rc = Inr v"
    using create_receipt_verifies [of g 1 3 4, OF _ assms(2)] sample_issue_fields [OF assms(1)]
    by (auto simp: sample_commit_def verify_receipt_matches_grant_def)
  have rc: "replica_commit rc = sample_commit" "rc_segment_id rc = 3" "rc_storage_node rc = 1" "rc_bytes rc = 4"
    "rc_descriptor rc = cm_descriptor sample_commit"
    using assms(2) sample_issue_fields [OF assms(1)] v
    by (auto simp: create_segment_receipt_after_verified_write_def replica_commit_def Let_def verify_grant_Inr)
  have s: "sync_segment 3 sample_store = (Inr (), \<lparr>ss_next_offset = 4, ss_segments = [(3, sample_record\<lparr>sg_synced := True\<rparr>)]\<rparr>)"
    by (simp add: sample_store_eq sync_segment_def get_segment_def run_defs)
  have "store_ok (\<lambda>_. 77) sample_store_config \<lparr>ss_next_offset = 4, ss_segments = [(3, sample_record\<lparr>sg_synced := True\<rparr>)]\<rparr>"
    by (rule sync_segment_ok [OF s store_steps_ok [OF sample_store_step]])
  moreover have "sn_config sample_node = sample_store_config"
    by (simp add: sample_node_def storage_node_new_def for_storage_node_def sample_store_config_def default_config_def)
  ultimately show ?thesis
    using v rc
    by (auto simp: node_ok_def sample_durable_node_def sample_durable_entry_def catalog_ok_def entry_ok_def holds_segment_def sample_intent_def
        bt_ok_def bt_has_def sample_commit_def sample_record_def sample_store_config_def default_config_def
        sample_node_def storage_node_new_def)
qed


end
