(* ===== verification/Node_Registry.thy ===== *)
theory Node_Registry
  imports Storage_Node
begin

text \<open>
  The registry of storage nodes (\<^verbatim>\<open>local/storage_node.rs\<close>, \<^verbatim>\<open>StorageNodeRegistry\<close>): placement,
  segment identifiers, the node that owns a segment, and requests sent to it.  The nodes are shared
  objects; a request runs on the node in place.
\<close>

section \<open>The registry\<close>

record storage_node_registry =
  rg_config :: local_store_config
  rg_node_order :: "storage_node_id list"
  rg_nodes :: "(storage_node_id, storage_node) btree"
  rg_next_placement_index :: nat
  rg_next_segment_id :: nat

type_synonym 'a registry_op = "(storage_node_registry, failure, 'a) op"

definition registry_new :: "local_store_config \<Rightarrow> storage_node_id list \<Rightarrow> storage_node_registry result" where
  "registry_new cfg storage_nodes =
    andThen (validate_config cfg) (\<lambda>_.
    let node_order = normalize_storage_nodes (cfg_storage_node cfg) storage_nodes in
    Inr \<lparr>rg_config = cfg, rg_node_order = node_order,
      rg_nodes = foldl (\<lambda>nodes node_id. bt_insert node_id (storage_node_new cfg node_id) nodes) [] node_order,
      rg_next_placement_index = 0, rg_next_segment_id = 1\<rparr>)"

definition registry_node :: "storage_node_registry \<Rightarrow> storage_node_id \<Rightarrow> storage_node result" where
  "registry_node reg storage_node = ok_or (bt_get (rg_nodes reg) storage_node) (not_found K_storage_node)"

definition primary_node :: "storage_node_registry \<Rightarrow> storage_node result" where
  "primary_node reg = registry_node reg (cfg_storage_node (rg_config reg))"

definition owner_step :: "segment_id \<Rightarrow> storage_node_id option \<Rightarrow> storage_node_id \<times> storage_node \<Rightarrow> storage_node_id option result" where
  "owner_step segment_id found entry =
    (if contains_segment (sn_catalog (snd entry)) segment_id
     then andThen (ensure (found = None) corrupt) (\<lambda>_. Inr (Some (fst entry)))
     else Inr found)"

definition owner_id_for_segment :: "storage_node_registry \<Rightarrow> segment_id \<Rightarrow> storage_node_id result" where
  "owner_id_for_segment reg segment_id =
    andThen (foldR (owner_step segment_id) None (rg_nodes reg)) (\<lambda>found. ok_or found (not_found K_segment))"

definition owner_node_for_segment :: "storage_node_registry \<Rightarrow> segment_id \<Rightarrow> storage_node result" where
  "owner_node_for_segment reg segment_id =
    andThen (owner_id_for_segment reg segment_id) (\<lambda>node_id. registry_node reg node_id)"

definition registry_receipt_for_segment :: "storage_node_registry \<Rightarrow> segment_id \<Rightarrow> segment_write_receipt result" where
  "registry_receipt_for_segment reg segment_id =
    andThen (owner_node_for_segment reg segment_id) (\<lambda>node. receipt_for_segment (sn_catalog node) segment_id)"

definition registry_state :: "storage_node_registry \<Rightarrow> segment_id \<Rightarrow> segment_lifecycle_state result" where
  "registry_state reg segment_id =
    andThen (owner_node_for_segment reg segment_id) (\<lambda>node. catalog_state (sn_catalog node) segment_id)"

definition registry_segment_ids :: "storage_node_registry \<Rightarrow> segment_id set" where
  "registry_segment_ids reg = (\<Union>node\<in>set (bt_values (rg_nodes reg)). set (bt_keys (ss_segments (sn_store node))))"

text \<open>A request to a node of the registry.\<close>

definition on_node :: "storage_node_id \<Rightarrow> 'a node_op \<Rightarrow> 'a registry_op" where
  "on_node node_id f =
    seqM (askM (\<lambda>reg. registry_node reg node_id)) (\<lambda>node.
    case f node of (r, node') \<Rightarrow>
      seqM (modM (\<lambda>reg. reg\<lparr>rg_nodes := bt_insert node_id node' (rg_nodes reg)\<rparr>)) (\<lambda>_. liftM r))"

definition send_to_node :: "(byte list \<Rightarrow> nat) \<Rightarrow> storage_node_id \<Rightarrow> storage_node_request \<Rightarrow> storage_node_response registry_op" where
  "send_to_node crc node_id request = on_node node_id (node_send crc request)"

definition send_to_owner :: "(byte list \<Rightarrow> nat) \<Rightarrow> segment_id \<Rightarrow> storage_node_request \<Rightarrow> storage_node_response registry_op" where
  "send_to_owner crc segment_id request =
    seqM (askM (\<lambda>reg. owner_id_for_segment reg segment_id)) (\<lambda>node_id.
    send_to_node crc node_id request)"

definition registry_mark_segment_referenced ::
  "(byte list \<Rightarrow> nat) \<Rightarrow> segment_write_receipt \<Rightarrow> commit_seq \<Rightarrow> unit registry_op" where
  "registry_mark_segment_referenced crc receipt commit_seq =
    seqM (liftM (create_reference_evidence receipt commit_seq)) (\<lambda>evidence.
    seqM (send_to_owner crc (rc_segment_id receipt) (Node_MarkReferenced evidence)) (\<lambda>response.
    liftM (ensure (response = Resp_MarkReferenced) corrupt)))"

definition registry_release_segment :: "(byte list \<Rightarrow> nat) \<Rightarrow> segment_id \<Rightarrow> unit registry_op" where
  "registry_release_segment crc segment_id =
    seqM (send_to_owner crc segment_id (Node_Release segment_id)) (\<lambda>response.
    liftM (ensure (response = Resp_Released) corrupt))"

definition registry_read_segment ::
  "(byte list \<Rightarrow> nat) \<Rightarrow> segment_id \<Rightarrow> byte_range \<Rightarrow> nat \<Rightarrow> byte list registry_op" where
  "registry_read_segment crc segment_id r buf_len =
    seqM (send_to_owner crc segment_id (Node_ReadSegment segment_id r)) (\<lambda>response.
    case response of
      Resp_ReadSegment bytes \<Rightarrow> seqM (liftM (ensure (length bytes = buf_len) corrupt)) (\<lambda>_. returnM bytes)
    | _ \<Rightarrow> failM corrupt)"

definition read_segment_from_node ::
  "(byte list \<Rightarrow> nat) \<Rightarrow> storage_node_registry \<Rightarrow> storage_node_id \<Rightarrow> segment_id \<Rightarrow> byte_range \<Rightarrow> segment_payload_integrity
    \<Rightarrow> read_verification \<Rightarrow> nat \<Rightarrow> byte list result" where
  "read_segment_from_node crc reg storage_node segment_id r integrity verification buf_len =
    andThen (registry_node reg storage_node) (\<lambda>node.
    read_segment_with_integrity crc node segment_id r integrity verification buf_len)"

definition choose_storage_node :: "storage_node_id list \<Rightarrow> storage_node_id registry_op" where
  "choose_storage_node candidates =
    seqM (liftM (ensure (candidates \<noteq> []) invalid_argument)) (\<lambda>_.
    seqM (getM rg_next_placement_index) (\<lambda>nxt.
    let node_id = candidates ! (nxt mod length candidates) in
    seqM (askM (\<lambda>reg. registry_node reg node_id)) (\<lambda>_.
    seqM (liftM (ok_or (checked_add_u64 nxt 1) conflict)) (\<lambda>n.
    seqM (modM (\<lambda>reg. reg\<lparr>rg_next_placement_index := n\<rparr>)) (\<lambda>_.
    returnM node_id)))))"

definition storage_node_ids :: "storage_node_registry \<Rightarrow> storage_node_id list" where
  "storage_node_ids reg = rg_node_order reg"

definition allocate_segment_id :: "segment_id registry_op" where
  "allocate_segment_id =
    seqM (getM rg_next_segment_id) (\<lambda>raw.
    seqM (liftM (ok_or (checked_add_u64 raw 1) conflict)) (\<lambda>n.
    seqM (modM (\<lambda>reg. reg\<lparr>rg_next_segment_id := n\<rparr>)) (\<lambda>_.
    returnM raw)))"

section \<open>Images\<close>

text \<open>
  The image a registry is reopened from.  The store and the catalog of a node validate the
  configuration again, which only differs in the node it is for.
\<close>

record storage_node_inner =
  si_segment_store :: segment_store_inner
  si_segment_catalog :: catalog_inner

record storage_node_registry_inner =
  ri_next_segment_id :: nat
  ri_next_placement_index :: nat
  ri_node_order :: "storage_node_id list"
  ri_nodes :: "(storage_node_id, storage_node_inner) btree"

definition node_order_step ::
  "storage_node_registry_inner \<Rightarrow> storage_node_id set \<Rightarrow> storage_node_id \<Rightarrow> storage_node_id set result" where
  "node_order_step inner seen node_id =
    andThen (ensure (node_id \<notin> seen) corrupt) (\<lambda>_.
    andThen (ensure (bt_has (ri_nodes inner) node_id) corrupt) (\<lambda>_.
    Inr (insert node_id seen)))"

definition node_from_inner :: "local_store_config \<Rightarrow> storage_node_id \<Rightarrow> storage_node_inner \<Rightarrow> storage_node" where
  "node_from_inner cfg node_id img =
    \<lparr>sn_storage_node = node_id, sn_config = for_storage_node cfg node_id, sn_store = si_segment_store img,
     sn_catalog = si_segment_catalog img\<rparr>"

definition from_inner_step ::
  "local_store_config \<Rightarrow> storage_node_registry_inner \<Rightarrow> (storage_node_id, storage_node) btree \<Rightarrow> storage_node_id
    \<Rightarrow> (storage_node_id, storage_node) btree result" where
  "from_inner_step cfg inner nodes node_id =
    andThen (ok_or (bt_get (ri_nodes inner) node_id) corrupt) (\<lambda>img.
    Inr (bt_insert node_id (node_from_inner cfg node_id img) nodes))"

definition registry_from_inner :: "local_store_config \<Rightarrow> storage_node_registry_inner \<Rightarrow> storage_node_registry result" where
  "registry_from_inner cfg inner =
    andThen (validate_config cfg) (\<lambda>_.
    andThen (ensure (ri_node_order inner \<noteq> []) corrupt) (\<lambda>_.
    andThen (foldR (node_order_step inner) {} (ri_node_order inner)) (\<lambda>seen.
    andThen (forR (\<lambda>node_id. ensure (node_id \<in> seen) corrupt) (bt_keys (ri_nodes inner))) (\<lambda>_.
    andThen (foldR (from_inner_step cfg inner) [] (ri_node_order inner)) (\<lambda>nodes.
    andThen (ensure (ri_next_segment_id inner < u64_limit) corrupt) (\<lambda>_.
    Inr \<lparr>rg_config = cfg, rg_node_order = ri_node_order inner, rg_nodes = nodes,
      rg_next_placement_index = ri_next_placement_index inner, rg_next_segment_id = ri_next_segment_id inner\<rparr>))))))"

end
