(* ===== verification/Coordinator_State.thy ===== *)
theory Coordinator_State
  imports Metadata_Publish Node_Registry Run_Extents
begin

text \<open>
  The local coordinator (\<^verbatim>\<open>local/coordinator.rs\<close>, \<^verbatim>\<open>LocalCoordinator\<close>): its state, the grants it
  issues, the segments it writes through the storage nodes and the receipts it verifies and caches.
  Its components are shared objects behind mutexes; an operation of the coordinator is a sequence of
  steps on them.  Event counters and timing profiles are left out: no operation reads them.
\<close>

section \<open>State\<close>

record local_coordinator =
  co_config :: local_store_config
  co_metadata :: metadata_inner
  co_storage_nodes :: storage_node_registry
  co_append_run_logs :: "(storage_node_id \<times> nat, byte list) btree"
  co_append_stream_storage_lanes :: "(append_stream_id, storage_node_id) btree"
  co_next_write_intent :: nat
  co_next_extent_id :: nat
  co_verified_receipt_cache :: "(segment_id, verified_segment_receipt) btree"

type_synonym 'a coord_op = "(local_coordinator, failure, 'a) op"

definition on_metadata :: "'a meta_op \<Rightarrow> 'a coord_op" where
  "on_metadata f = (\<lambda>s. case f (co_metadata s) of (r, m) \<Rightarrow> (r, s\<lparr>co_metadata := m\<rparr>))"

definition on_registry :: "'a registry_op \<Rightarrow> 'a coord_op" where
  "on_registry f = (\<lambda>s. case f (co_storage_nodes s) of (r, g) \<Rightarrow> (r, s\<lparr>co_storage_nodes := g\<rparr>))"

definition coordinator_with_storage_nodes :: "local_store_config \<Rightarrow> storage_node_id list \<Rightarrow> local_coordinator result" where
  "coordinator_with_storage_nodes cfg storage_nodes =
    andThen (validate_config cfg) (\<lambda>_.
    andThen (registry_new cfg storage_nodes) (\<lambda>registry.
    Inr \<lparr>co_config = cfg, co_metadata = metadata_new, co_storage_nodes = registry, co_append_run_logs = [],
      co_append_stream_storage_lanes = [], co_next_write_intent = 1, co_next_extent_id = 1,
      co_verified_receipt_cache = []\<rparr>))"

definition coordinator_with_config :: "local_store_config \<Rightarrow> local_coordinator result" where
  "coordinator_with_config cfg = coordinator_with_storage_nodes cfg [cfg_storage_node cfg]"

definition next_write_intent :: "write_intent_id coord_op" where
  "next_write_intent =
    seqM (getM co_next_write_intent) (\<lambda>i.
    seqM (liftM (ok_or (checked_add_u128 i 1) conflict)) (\<lambda>n.
    seqM (modM (\<lambda>s. s\<lparr>co_next_write_intent := n\<rparr>)) (\<lambda>_.
    returnM i)))"

definition device_info_of :: "metadata_inner \<Rightarrow> device_id \<Rightarrow> device_info result" where
  "device_info_of m device_id =
    andThen (get_head m device_id) (\<lambda>head.
    andThen (ok_or (bt_get (mi_device_specs m) device_id) corrupt) (\<lambda>spec.
    Inr \<lparr>info_device_id = device_id, info_generation = dh_generation head, info_spec = spec,
      info_latest_commit = dh_latest_commit head\<rparr>))"

definition publish_commit_group_observed :: "commit_group_intent \<Rightarrow> commit_group coord_op" where
  "publish_commit_group_observed intent =
    seqM (getM co_config) (\<lambda>cfg. on_metadata (publish_commit_group cfg intent))"

section \<open>Receipts\<close>

definition cache_receipt :: "verified_segment_receipt \<Rightarrow> unit coord_op" where
  "cache_receipt verified = modM (\<lambda>s. s\<lparr>co_verified_receipt_cache :=
    bt_insert (sd_segment_id (vr_descriptor verified)) verified (co_verified_receipt_cache s)\<rparr>)"

definition verify_segment_receipt_cached :: "segment_write_receipt \<Rightarrow> verified_segment_receipt coord_op" where
  "verify_segment_receipt_cached receipt =
    seqM (liftM (verify_segment_receipt receipt)) (\<lambda>verified.
    seqM (cache_receipt verified) (\<lambda>_.
    returnM verified))"

definition verify_receipt_matches_grant_observed ::
  "write_grant \<Rightarrow> segment_write_receipt \<Rightarrow> verified_segment_receipt coord_op" where
  "verify_receipt_matches_grant_observed grant receipt =
    seqM (liftM (verify_receipt_matches_grant grant receipt)) (\<lambda>verified.
    seqM (cache_receipt verified) (\<lambda>_.
    returnM verified))"

type_synonym receipt_map = "(segment_id, verified_segment_receipt) btree"

definition receipt_map_of :: "verified_segment_receipt list \<Rightarrow> receipt_map" where
  "receipt_map_of receipts = foldl (\<lambda>t r. bt_insert (sd_segment_id (vr_descriptor r)) r t) [] receipts"

definition receipt_lookup_step ::
  "local_coordinator \<Rightarrow> receipt_map \<times> receipt_map \<times> verified_segment_receipt list \<Rightarrow> leaf_entry
    \<Rightarrow> (receipt_map \<times> receipt_map \<times> verified_segment_receipt list) result" where
  "receipt_lookup_step s st entry =
    (case st of (local_cache, receipts, newly_verified) \<Rightarrow>
      let i = le_segment_id entry in
      if bt_has receipts i then Inr st
      else
        (case bt_get local_cache i of
          Some receipt \<Rightarrow> Inr (bt_remove i local_cache, bt_insert i receipt receipts, newly_verified)
        | None \<Rightarrow>
          (case bt_get (co_verified_receipt_cache s) i of
            Some receipt \<Rightarrow> Inr (local_cache, bt_insert i receipt receipts, newly_verified)
          | None \<Rightarrow>
              andThen (registry_receipt_for_segment (co_storage_nodes s) i) (\<lambda>receipt.
              andThen (verify_segment_receipt receipt) (\<lambda>verified.
              Inr (local_cache, bt_insert i verified receipts, newly_verified @ [verified]))))))"

definition verified_receipts_for_entries_with_cache ::
  "leaf_entry list \<Rightarrow> verified_segment_receipt list \<Rightarrow> verified_segment_receipt list coord_op" where
  "verified_receipts_for_entries_with_cache entries additional_receipts =
    seqM (askM (\<lambda>s. foldR (receipt_lookup_step s) (receipt_map_of additional_receipts, [], []) entries))
      (\<lambda>(_, receipts, newly_verified).
    seqM (forM cache_receipt newly_verified) (\<lambda>_.
    returnM (bt_values receipts)))"

definition verified_receipts_for_entries :: "leaf_entry list \<Rightarrow> verified_segment_receipt list coord_op" where
  "verified_receipts_for_entries entries = verified_receipts_for_entries_with_cache entries []"

section \<open>Granted writes\<close>

definition write_granted_segment_verified ::
  "(byte list \<Rightarrow> nat) \<Rightarrow> write_grant \<Rightarrow> byte list \<Rightarrow> verified_segment_receipt coord_op" where
  "write_granted_segment_verified crc grant data =
    seqM (on_registry (send_to_node crc (gr_storage_node grant) (Node_WriteSegment grant data))) (\<lambda>response.
    case response of
      Resp_WriteSegment receipt \<Rightarrow>
        seqM (liftM (ensure (rc_segment_id receipt = gr_segment_id grant) corrupt)) (\<lambda>_.
        verify_receipt_matches_grant_observed grant receipt)
    | _ \<Rightarrow> failM corrupt)"

definition write_granted_segment ::
  "(byte list \<Rightarrow> nat) \<Rightarrow> write_grant \<Rightarrow> byte list \<Rightarrow> segment_write_receipt coord_op" where
  "write_granted_segment crc grant data =
    seqM (write_granted_segment_verified crc grant data) (\<lambda>verified. returnM (vr_receipt verified))"

definition write_segment_for_intent ::
  "(byte list \<Rightarrow> nat) \<Rightarrow> write_grant_intent \<Rightarrow> write_intent_id \<Rightarrow> byte list \<Rightarrow> write_durability \<Rightarrow> payload_integrity
    \<Rightarrow> verified_segment_receipt coord_op" where
  "write_segment_for_intent crc intent write_intent data durability integrity =
    seqM (liftM (u64_of_len data)) (\<lambda>max_bytes.
    seqM (getM (\<lambda>s. storage_node_ids (co_storage_nodes s))) (\<lambda>candidates.
    seqM (on_registry (choose_storage_node candidates)) (\<lambda>storage_node.
    seqM (on_registry allocate_segment_id) (\<lambda>segment_id.
    seqM (liftM (issue_write_grant
      \<lparr>gq_tenant = LOCAL_TENANT_ID, gq_principal = LOCAL_PRINCIPAL_ID, gq_intent = intent, gq_write_intent = write_intent,
       gq_segment_id = segment_id, gq_storage_node = storage_node, gq_max_bytes = max_bytes, gq_payload_integrity = integrity,
       gq_durability = durability, gq_expires_at = LOCAL_GRANT_EXPIRATION\<rparr>)) (\<lambda>grant.
    write_granted_segment_verified crc grant data)))))"

section \<open>Shards\<close>

record device_write_chunk =
  wk_shard_id :: shard_id
  wk_old_root :: metadata_node_id
  wk_range :: block_range

definition split_shard_step ::
  "metadata_inner \<Rightarrow> block_range \<Rightarrow> device_write_chunk list \<Rightarrow> nat \<times> metadata_node_id \<Rightarrow> device_write_chunk list result" where
  "split_shard_step m requested chunks entry =
    (case entry of (shard, root) \<Rightarrow>
      andThen (get_metadata_node m root) (\<lambda>node.
      andThen (intersection (mn_covered_range node) requested) (\<lambda>overlap.
      case overlap of
        None \<Rightarrow> Inr chunks
      | Some o' \<Rightarrow>
          andThen (ensure (shard < 2 ^ 32) invalid_argument) (\<lambda>_.
          Inr (chunks @ [\<lparr>wk_shard_id = shard, wk_old_root = root, wk_range = o'\<rparr>])))))"

definition split_device_range :: "metadata_inner \<Rightarrow> device_info \<Rightarrow> byte_range \<Rightarrow> device_write_chunk list result" where
  "split_device_range m info r =
    (let bs = block_size (info_spec info); requested = mk_range (byte_offset r div bs) (byte_len r div bs) in
     andThen (get_head m (info_device_id info)) (\<lambda>head.
     andThen (foldR (split_shard_step m requested) [] (List.enumerate 0 (dh_shard_roots head))) (\<lambda>chunks.
     andThen (ensure (\<not> (chunks = [] \<and> byte_len r \<noteq> 0)) corrupt) (\<lambda>_.
     Inr chunks))))"

fun single_shard_from ::
  "metadata_inner \<Rightarrow> block_range \<Rightarrow> (nat \<times> metadata_node_id) list \<Rightarrow> (shard_id \<times> metadata_node_id) result" where
  "single_shard_from m r [] = Inl invalid_argument"
| "single_shard_from m r ((shard, root) # rest) =
    andThen (get_metadata_node m root) (\<lambda>node.
    andThen (contains_range (mn_covered_range node) r) (\<lambda>inside.
    if inside then andThen (ensure (shard < 2 ^ 32) invalid_argument) (\<lambda>_. Inr (shard, root))
    else single_shard_from m r rest))"

definition single_shard_for_block_range :: "metadata_inner \<Rightarrow> device_head \<Rightarrow> block_range \<Rightarrow> (shard_id \<times> metadata_node_id) result" where
  "single_shard_for_block_range m head r = single_shard_from m r (List.enumerate 0 (dh_shard_roots head))"

definition issue_block_write_grant :: "device_id \<Rightarrow> block_range \<Rightarrow> write_durability \<Rightarrow> write_grant coord_op" where
  "issue_block_write_grant device_id r durability =
    seqM (liftM (validate_non_empty r)) (\<lambda>_.
    seqM (askM (\<lambda>s. get_head (co_metadata s) device_id)) (\<lambda>head.
    seqM (askM (\<lambda>s. single_shard_for_block_range (co_metadata s) head r)) (\<lambda>(shard_id, old_root).
    seqM (getM (\<lambda>s. cfg_block_size (co_config s))) (\<lambda>bs.
    seqM (liftM (ok_or (checked_mul_u64 (range_blocks r) bs) invalid_argument)) (\<lambda>max_bytes.
    seqM (getM (\<lambda>s. storage_node_ids (co_storage_nodes s))) (\<lambda>candidates.
    seqM (on_registry (choose_storage_node candidates)) (\<lambda>storage_node.
    seqM (on_registry allocate_segment_id) (\<lambda>segment_id.
    seqM next_write_intent (\<lambda>write_intent.
    liftM (issue_write_grant
      \<lparr>gq_tenant = LOCAL_TENANT_ID, gq_principal = LOCAL_PRINCIPAL_ID,
       gq_intent = BlockWrite device_id r (dh_generation head) shard_id old_root, gq_write_intent = write_intent,
       gq_segment_id = segment_id, gq_storage_node = storage_node, gq_max_bytes = max_bytes, gq_payload_integrity = Verified,
       gq_durability = durability, gq_expires_at = LOCAL_GRANT_EXPIRATION\<rparr>))))))))))"

end
