(* ===== verification/Tree_Edit.thy ===== *)
theory Tree_Edit
  imports Coordinator_State
begin

text \<open>
  Copy-on-write edits of metadata trees (\<^verbatim>\<open>local/coordinator.rs\<close>: \<^verbatim>\<open>replace_tree_*\<close>).  An edit
  walks down from a root, writes new nodes for the leaves it changes and for every node above them,
  and returns the new root; nodes that exist are never changed.

  The recursion goes from a node to its children.  It is given fuel; a node is always created after
  its children, so the identifiers fall along every path and the next free identifier is enough.
\<close>

section \<open>Edits\<close>

record segment_replacement =
  sp_segment_id :: segment_id
  sp_segment_base :: block_index

record tree_range_edit =
  te_range :: block_range
  te_replacement :: "segment_replacement option"

record tree_edit_result =
  tr_root :: metadata_node_id
  tr_changed :: bool

definition unchanged :: "metadata_node \<Rightarrow> tree_edit_result" where
  "unchanged node = \<lparr>tr_root = mn_node_id node, tr_changed = False\<rparr>"

definition tree_fuel :: "metadata_inner \<Rightarrow> nat" where
  "tree_fuel m = mi_next_metadata_node_id m"

text \<open>The leaf entry of a replacement; the subtraction is unchecked in the program.\<close>

definition replacement_entry :: "block_range \<Rightarrow> segment_replacement option \<Rightarrow> leaf_entry option result" where
  "replacement_entry overlap replacement =
    (case replacement of
      None \<Rightarrow> Inr None
    | Some r \<Rightarrow>
        andThen (ensure (sp_segment_base r \<le> range_start overlap) Panic) (\<lambda>_.
        Inr (Some \<lparr>le_logical_start = range_start overlap, le_blocks = range_blocks overlap,
          le_segment_id = sp_segment_id r, le_segment_offset = range_start overlap - sp_segment_base r\<rparr>)))"

text \<open>The contents of a leaf after one edit.\<close>

definition edit_leaf ::
  "nat \<Rightarrow> block_range \<Rightarrow> block_range \<Rightarrow> segment_replacement option \<Rightarrow> leaf_entry list \<times> run_backed_file_extent list
    \<Rightarrow> (leaf_entry list \<times> run_backed_file_extent list) result" where
  "edit_leaf bs cover overlap replacement contents =
    andThen (replacement_entry overlap replacement) (\<lambda>entry.
    andThen (replace_leaf_entries (fst contents) cover overlap entry) (\<lambda>new_entries.
    andThen (block_range_to_byte_range overlap bs) (\<lambda>overlap_bytes.
    andThen (replace_run_backed_file_extents (snd contents) overlap_bytes []) (\<lambda>new_run_extents.
    Inr (new_entries, new_run_extents)))))"

text \<open>Allocate, validate and persist the copy of a node.\<close>

definition store_copy ::
  "block_range \<Rightarrow> metadata_node_kind \<Rightarrow> verified_segment_receipt list \<Rightarrow> tree_edit_result coord_op" where
  "store_copy cover kind receipts =
    seqM (on_metadata (allocate_metadata_node cover kind)) (\<lambda>new_node.
    seqM (liftM (validate_node new_node (map vr_descriptor receipts))) (\<lambda>_.
    seqM (on_metadata (persist_metadata_node \<lparr>mw_node = new_node, mw_segment_receipts = receipts\<rparr>)) (\<lambda>_.
    returnM \<lparr>tr_root = mn_node_id new_node, tr_changed = True\<rparr>)))"

section \<open>One range\<close>

primrec replace_tree_range_at ::
  "nat \<Rightarrow> metadata_node \<Rightarrow> tree_range_edit \<Rightarrow> verified_segment_receipt list \<Rightarrow> tree_edit_result coord_op" where
  "replace_tree_range_at 0 node edit receipts = failM Diverge"
| "replace_tree_range_at (Suc fuel) node edit receipts =
    seqM (liftM (overlaps (mn_covered_range node) (te_range edit))) (\<lambda>hit.
    if \<not> hit then returnM (unchanged node)
    else
      (case mn_kind node of
        Leaf entries run_extents \<Rightarrow>
          seqM (liftM (intersection (mn_covered_range node) (te_range edit))) (\<lambda>overlap.
          case overlap of
            None \<Rightarrow> returnM (unchanged node)
          | Some o' \<Rightarrow>
              seqM (getM (\<lambda>s. cfg_block_size (co_config s))) (\<lambda>bs.
              seqM (liftM (edit_leaf bs (mn_covered_range node) o' (te_replacement edit) (entries, run_extents)))
                (\<lambda>(new_entries, new_run_extents).
              if new_entries = entries \<and> new_run_extents = run_extents then returnM (unchanged node)
              else
                seqM (verified_receipts_for_entries_with_cache new_entries receipts) (\<lambda>segment_receipts.
                store_copy (mn_covered_range node) (Leaf new_entries new_run_extents) segment_receipts))))
      | Internal children \<Rightarrow>
          seqM (foldM (\<lambda>(changed, new_children) child.
              seqM (liftM (overlaps (mc_range child) (te_range edit))) (\<lambda>child_hit.
              if child_hit then
                seqM (askM (\<lambda>s. get_metadata_node (co_metadata s) (mc_node_id child))) (\<lambda>child_node.
                seqM (replace_tree_range_at fuel child_node edit receipts) (\<lambda>child_result.
                returnM (changed \<or> tr_changed child_result,
                  new_children @ [\<lparr>mc_range = mc_range child, mc_node_id = tr_root child_result\<rparr>])))
              else returnM (changed, new_children @ [child])))
            (False, []) children) (\<lambda>(changed, new_children).
          if \<not> changed then returnM (unchanged node)
          else store_copy (mn_covered_range node) (Internal new_children) [])))"

text \<open>
  The fast path: when every node on the way has exactly one child that meets the edit, the copy is
  made under one lock of the plane, from the receipts at hand; \<open>None\<close> is the answer that the fast path
  does not apply.
\<close>

definition single_path_descriptor_step ::
  "(segment_id, segment_descriptor) btree \<Rightarrow> segment_descriptor list option \<Rightarrow> leaf_entry \<Rightarrow> segment_descriptor list option" where
  "single_path_descriptor_step known acc entry =
    (case acc of
      None \<Rightarrow> None
    | Some ds \<Rightarrow>
        (case bt_get known (le_segment_id entry) of
          None \<Rightarrow> None
        | Some d \<Rightarrow> Some (if list_ex (\<lambda>e. sd_segment_id e = le_segment_id entry) ds then ds else ds @ [d])))"

definition insert_copy ::
  "block_range \<Rightarrow> metadata_node_kind \<Rightarrow> segment_descriptor list \<Rightarrow> tree_edit_result option meta_op" where
  "insert_copy cover kind descriptors =
    seqM alloc_metadata_node_id (\<lambda>node_id.
    let new_node = \<lparr>mn_node_id = node_id, mn_covered_range = cover, mn_kind = kind\<rparr> in
    seqM (liftM (validate_node new_node descriptors)) (\<lambda>_.
    seqM (modM (\<lambda>m. m\<lparr>mi_metadata_nodes := bt_insert node_id new_node (mi_metadata_nodes m)\<rparr>)) (\<lambda>_.
    returnM (Some \<lparr>tr_root = node_id, tr_changed = True\<rparr>))))"

primrec try_replace_tree_range_single_path_at ::
  "nat \<Rightarrow> metadata_node \<Rightarrow> tree_range_edit \<Rightarrow> (segment_id, segment_descriptor) btree \<Rightarrow> nat \<Rightarrow> tree_edit_result option meta_op" where
  "try_replace_tree_range_single_path_at 0 node edit known bs = failM Diverge"
| "try_replace_tree_range_single_path_at (Suc fuel) node edit known bs =
    seqM (liftM (overlaps (mn_covered_range node) (te_range edit))) (\<lambda>hit.
    if \<not> hit then returnM (Some (unchanged node))
    else
      (case mn_kind node of
        Leaf entries run_extents \<Rightarrow>
          seqM (liftM (intersection (mn_covered_range node) (te_range edit))) (\<lambda>overlap.
          case overlap of
            None \<Rightarrow> returnM (Some (unchanged node))
          | Some o' \<Rightarrow>
              seqM (liftM (edit_leaf bs (mn_covered_range node) o' (te_replacement edit) (entries, run_extents)))
                (\<lambda>(new_entries, new_run_extents).
              if new_entries = entries \<and> new_run_extents = run_extents then returnM (Some (unchanged node))
              else if new_run_extents \<noteq> [] then returnM None
              else
                (case foldl (single_path_descriptor_step known) (Some []) new_entries of
                  None \<Rightarrow> returnM None
                | Some descriptors \<Rightarrow>
                    insert_copy (mn_covered_range node) (Leaf new_entries new_run_extents) descriptors)))
      | Internal children \<Rightarrow>
          seqM (liftM (mapR (\<lambda>child. overlaps (mc_range child) (te_range edit)) children)) (\<lambda>hits.
          case filter (\<lambda>i. hits ! i) [0..<length children] of
            [changed_index] \<Rightarrow>
              (let child = children ! changed_index in
               seqM (askM (\<lambda>m. get_metadata_node m (mc_node_id child))) (\<lambda>child_node.
               seqM (try_replace_tree_range_single_path_at fuel child_node edit known bs) (\<lambda>child_result.
               case child_result of
                 None \<Rightarrow> returnM None
               | Some result \<Rightarrow>
                   if \<not> tr_changed result then returnM (Some (unchanged node))
                   else
                     insert_copy (mn_covered_range node)
                       (Internal (children[changed_index := \<lparr>mc_range = mc_range child, mc_node_id = tr_root result\<rparr>])) [])))
          | _ \<Rightarrow> returnM None)))"

definition try_replace_tree_range_single_path ::
  "metadata_node_id \<Rightarrow> tree_range_edit \<Rightarrow> verified_segment_receipt list \<Rightarrow> tree_edit_result option coord_op" where
  "try_replace_tree_range_single_path root_id edit receipts =
    (if te_replacement edit = None then returnM None
     else
       let known = foldl (\<lambda>t r. bt_insert (sd_segment_id (vr_descriptor r)) (vr_descriptor r) t) [] receipts in
       if known = [] then returnM None
       else
         seqM (getM (\<lambda>s. cfg_block_size (co_config s))) (\<lambda>bs.
         on_metadata
           (seqM (askM (\<lambda>m. get_metadata_node m root_id)) (\<lambda>root.
            seqM (liftM (contains_range (mn_covered_range root) (te_range edit))) (\<lambda>inside.
            seqM (liftM (ensure inside invalid_argument)) (\<lambda>_.
            seqM (getM tree_fuel) (\<lambda>fuel.
            try_replace_tree_range_single_path_at fuel root edit known bs)))))))"

definition replace_tree_range_with_receipts ::
  "metadata_node_id \<Rightarrow> tree_range_edit \<Rightarrow> verified_segment_receipt list \<Rightarrow> tree_edit_result coord_op" where
  "replace_tree_range_with_receipts root_id edit receipts =
    seqM (liftM (validate_non_empty (te_range edit))) (\<lambda>_.
    seqM (try_replace_tree_range_single_path root_id edit receipts) (\<lambda>fast.
    case fast of
      Some result \<Rightarrow> returnM result
    | None \<Rightarrow>
        seqM (askM (\<lambda>s. get_metadata_node (co_metadata s) root_id)) (\<lambda>root.
        seqM (liftM (contains_range (mn_covered_range root) (te_range edit))) (\<lambda>inside.
        seqM (liftM (ensure inside invalid_argument)) (\<lambda>_.
        seqM (getM (\<lambda>s. tree_fuel (co_metadata s))) (\<lambda>fuel.
        replace_tree_range_at fuel root edit receipts))))))"

definition replace_tree_range :: "metadata_node_id \<Rightarrow> tree_range_edit \<Rightarrow> tree_edit_result coord_op" where
  "replace_tree_range root_id edit = replace_tree_range_with_receipts root_id edit []"

section \<open>Several ranges\<close>

definition edit_leaf_step ::
  "nat \<Rightarrow> block_range \<Rightarrow> leaf_entry list \<times> run_backed_file_extent list \<Rightarrow> tree_range_edit
    \<Rightarrow> (leaf_entry list \<times> run_backed_file_extent list) result" where
  "edit_leaf_step bs cover contents edit =
    andThen (intersection cover (te_range edit)) (\<lambda>overlap.
    case overlap of None \<Rightarrow> Inr contents | Some o' \<Rightarrow> edit_leaf bs cover o' (te_replacement edit) contents)"

definition edits_overlapping :: "block_range \<Rightarrow> tree_range_edit list \<Rightarrow> tree_range_edit list result" where
  "edits_overlapping r edits =
    foldR (\<lambda>out edit. andThen (overlaps r (te_range edit)) (\<lambda>hit. Inr (if hit then out @ [edit] else out))) [] edits"

primrec replace_tree_ranges_at ::
  "nat \<Rightarrow> metadata_node \<Rightarrow> tree_range_edit list \<Rightarrow> verified_segment_receipt list \<Rightarrow> tree_edit_result coord_op" where
  "replace_tree_ranges_at 0 node edits receipts = failM Diverge"
| "replace_tree_ranges_at (Suc fuel) node edits receipts =
    seqM (liftM (edits_overlapping (mn_covered_range node) edits)) (\<lambda>overlapping_edits.
    if overlapping_edits = [] then returnM (unchanged node)
    else
      (case mn_kind node of
        Leaf entries run_extents \<Rightarrow>
          seqM (getM (\<lambda>s. cfg_block_size (co_config s))) (\<lambda>bs.
          seqM (liftM (foldR (edit_leaf_step bs (mn_covered_range node)) (entries, run_extents) overlapping_edits))
            (\<lambda>(new_entries, new_run_extents).
          if new_entries = entries \<and> new_run_extents = run_extents then returnM (unchanged node)
          else
            seqM (verified_receipts_for_entries_with_cache new_entries receipts) (\<lambda>segment_receipts.
            store_copy (mn_covered_range node) (Leaf new_entries new_run_extents) segment_receipts)))
      | Internal children \<Rightarrow>
          seqM (foldM (\<lambda>(changed, new_children) child.
              seqM (liftM (edits_overlapping (mc_range child) overlapping_edits)) (\<lambda>child_edits.
              if child_edits = [] then returnM (changed, new_children @ [child])
              else
                seqM (askM (\<lambda>s. get_metadata_node (co_metadata s) (mc_node_id child))) (\<lambda>child_node.
                seqM (replace_tree_ranges_at fuel child_node child_edits receipts) (\<lambda>child_result.
                returnM (changed \<or> tr_changed child_result,
                  new_children @ [\<lparr>mc_range = mc_range child, mc_node_id = tr_root child_result\<rparr>])))))
            (False, []) children) (\<lambda>(changed, new_children).
          if \<not> changed then returnM (unchanged node)
          else store_copy (mn_covered_range node) (Internal new_children) [])))"

definition check_disjoint_step :: "nat option \<Rightarrow> tree_range_edit \<Rightarrow> nat option result" where
  "check_disjoint_step previous_end edit =
    andThen (validate_non_empty (te_range edit)) (\<lambda>_.
    andThen (end_exclusive (te_range edit)) (\<lambda>stop.
    andThen (ensure (case previous_end of None \<Rightarrow> True | Some p \<Rightarrow> \<not> range_start (te_range edit) < p) invalid_argument) (\<lambda>_.
    Inr (Some stop))))"

definition replace_tree_ranges_with_receipts ::
  "metadata_node_id \<Rightarrow> tree_range_edit list \<Rightarrow> verified_segment_receipt list \<Rightarrow> tree_edit_result coord_op" where
  "replace_tree_ranges_with_receipts root_id edits receipts =
    (case edits of
      [] \<Rightarrow> returnM \<lparr>tr_root = root_id, tr_changed = False\<rparr>
    | [edit] \<Rightarrow> replace_tree_range_with_receipts root_id edit receipts
    | _ \<Rightarrow>
        let sorted_edits = sort_key (\<lambda>e. range_start (te_range e)) edits in
        seqM (liftM (foldR check_disjoint_step None sorted_edits)) (\<lambda>_.
        seqM (askM (\<lambda>s. get_metadata_node (co_metadata s) root_id)) (\<lambda>root.
        seqM (liftM (forR (\<lambda>edit. andThen (contains_range (mn_covered_range root) (te_range edit)) (\<lambda>inside.
          ensure inside invalid_argument)) sorted_edits)) (\<lambda>_.
        seqM (getM (\<lambda>s. tree_fuel (co_metadata s))) (\<lambda>fuel.
        replace_tree_ranges_at fuel root sorted_edits receipts)))))"

section \<open>Run extents\<close>

definition leaf_run_replacement_step ::
  "byte_range \<Rightarrow> run_backed_file_extent list \<Rightarrow> run_backed_file_extent \<Rightarrow> run_backed_file_extent list result" where
  "leaf_run_replacement_step overlap out replacement =
    andThen (byte_range_intersection (mk_bytes (rx_file_offset_start replacement) (rx_payload_len replacement)) overlap) (\<lambda>hit.
    case hit of
      None \<Rightarrow> Inr out
    | Some extent_overlap \<Rightarrow>
        andThen (byte_end extent_overlap) (\<lambda>stop.
        andThen (slice_run_extent replacement (byte_offset extent_overlap) stop) (\<lambda>sliced.
        Inr (case sliced of None \<Rightarrow> out | Some x \<Rightarrow> out @ [x]))))"

primrec replace_tree_byte_range_with_run_extents_at ::
  "nat \<Rightarrow> metadata_node \<Rightarrow> byte_range \<Rightarrow> run_backed_file_extent list \<Rightarrow> tree_edit_result coord_op" where
  "replace_tree_byte_range_with_run_extents_at 0 node r replacements = failM Diverge"
| "replace_tree_byte_range_with_run_extents_at (Suc fuel) node r replacements =
    seqM (getM (\<lambda>s. cfg_block_size (co_config s))) (\<lambda>bs.
    seqM (liftM (block_range_to_byte_range (mn_covered_range node) bs)) (\<lambda>node_range.
    seqM (liftM (byte_range_intersection node_range r)) (\<lambda>hit.
    case hit of
      None \<Rightarrow> returnM (unchanged node)
    | Some overlap \<Rightarrow>
      (case mn_kind node of
        Leaf entries run_extents \<Rightarrow>
          seqM (liftM (foldR (leaf_run_replacement_step overlap) [] replacements)) (\<lambda>leaf_replacements.
          seqM (liftM (replace_run_backed_file_extents run_extents overlap leaf_replacements)) (\<lambda>new_run_extents.
          if new_run_extents = run_extents then returnM (unchanged node)
          else
            seqM (verified_receipts_for_entries entries) (\<lambda>segment_receipts.
            store_copy (mn_covered_range node) (Leaf entries new_run_extents) segment_receipts)))
      | Internal children \<Rightarrow>
          seqM (foldM (\<lambda>(changed, new_children) child.
              seqM (liftM (block_range_to_byte_range (mc_range child) bs)) (\<lambda>child_range.
              seqM (liftM (byte_range_intersection child_range overlap)) (\<lambda>child_hit.
              if child_hit \<noteq> None then
                seqM (askM (\<lambda>s. get_metadata_node (co_metadata s) (mc_node_id child))) (\<lambda>child_node.
                seqM (replace_tree_byte_range_with_run_extents_at fuel child_node overlap replacements) (\<lambda>child_result.
                returnM (changed \<or> tr_changed child_result,
                  new_children @ [\<lparr>mc_range = mc_range child, mc_node_id = tr_root child_result\<rparr>])))
              else returnM (changed, new_children @ [child]))))
            (False, []) children) (\<lambda>(changed, new_children).
          if \<not> changed then returnM (unchanged node)
          else store_copy (mn_covered_range node) (Internal new_children) [])))))"

definition replace_tree_byte_range_with_run_extents ::
  "metadata_node_id \<Rightarrow> byte_range \<Rightarrow> run_backed_file_extent list \<Rightarrow> tree_edit_result coord_op" where
  "replace_tree_byte_range_with_run_extents root_id r replacements =
    (if byte_len r = 0 then returnM \<lparr>tr_root = root_id, tr_changed = False\<rparr>
     else
       seqM (askM (\<lambda>s. get_metadata_node (co_metadata s) root_id)) (\<lambda>root.
       seqM (getM (\<lambda>s. tree_fuel (co_metadata s))) (\<lambda>fuel.
       replace_tree_byte_range_with_run_extents_at fuel root r replacements)))"

end
