(* ===== verification/Tree_Leaf.thy ===== *)
theory Tree_Leaf
  imports Tree_Map Tree_Edit
begin

text \<open>
  An edit of one leaf overrides the two maps of the leaf and keeps it valid.
\<close>

section \<open>Entries\<close>

text \<open>Descriptors under which any entries are slices of their segments, as long as no offset overflows.\<close>

definition wide_segments :: "leaf_entry list \<Rightarrow> segment_descriptor list" where
  "wide_segments es =
    map (\<lambda>e. \<lparr>sd_segment_id = le_segment_id e, sd_blocks = u64_limit, sd_bytes = 0, sd_integrity = Payload_Unchecked\<rparr>) es"

lemma wide_segments_entry:
  assumes "e \<in> set es" "le_segment_offset e + le_blocks e < u64_limit"
  shows "entry_in_segment (wide_segments es) e"
proof -
  obtain d where d: "find (\<lambda>d. sd_segment_id d = le_segment_id e) (wide_segments es) = Some d"
    using assms(1) by (cases "find (\<lambda>d. sd_segment_id d = le_segment_id e) (wide_segments es)")
      (auto simp: find_None_iff wide_segments_def)
  then have "sd_blocks d = u64_limit"
    by (auto simp: find_Some_iff wide_segments_def)
  with d assms(2) show ?thesis
    by (simp add: entry_in_segment_def)
qed

lemma replace_leaf_entries_override:
  assumes "replace_leaf_entries es cover r rep = Inr out" "entries_ok cover es"
    and "\<forall>e\<in>set es. le_segment_offset e + le_blocks e < u64_limit"
    and "\<forall>e. rep = Some e \<longrightarrow> logical_range e = r \<and> le_segment_offset e + le_blocks e < u64_limit"
  shows "entries_ok cover out" "\<forall>e\<in>set out. le_segment_offset e + le_blocks e < u64_limit"
    "\<And>b. leaf_at out b = (if b \<in> blocks_of r then (case rep of None \<Rightarrow> None | Some e \<Rightarrow> Some (leaf_value e b)) else leaf_at es b)"
proof -
  let ?segs = "wide_segments (es @ (case rep of None \<Rightarrow> [] | Some e \<Rightarrow> [e]))"
  have es: "\<forall>e\<in>set es. entry_in_segment ?segs e"
    using assms(3) by (auto intro: wide_segments_entry)
  have rep: "case rep of None \<Rightarrow> True | Some e \<Rightarrow> logical_range e = r \<and> entry_in_segment ?segs e"
    using assms(4) by (cases rep) (auto intro: wide_segments_entry)
  have sorted: "extents_sorted le_logical_start entry_end es"
    using assms(2) by (simp add: entries_ok_alt)
  show "entries_ok cover out"
    by (rule replace_leaf_entries_ok [OF assms(1,2) es rep])
  show "\<forall>e\<in>set out. le_segment_offset e + le_blocks e < u64_limit"
    using replace_leaf_sorted_at [OF assms(1) sorted es rep] by (auto simp: entry_in_segment_def)
  show "leaf_at out b = (if b \<in> blocks_of r then (case rep of None \<Rightarrow> None | Some e \<Rightarrow> Some (leaf_value e b)) else leaf_at es b)" for b
    using replace_leaf_sorted_at [OF assms(1) sorted es rep] by blast
qed

section \<open>Run extents\<close>

lemma runs_inside:
  assumes "runs_sorted rs" "\<And>p. runs_at rs p \<noteq> None \<Longrightarrow> a \<le> p \<and> p < b" "r \<in> set rs"
  shows "a \<le> rr_file_offset_start r \<and> run_end r \<le> b"
proof -
  have lt: "rr_file_offset_start r < run_end r"
    using assms(1,3) by (simp add: extents_sorted_def)
  have "runs_at rs p \<noteq> None" if "rr_file_offset_start r \<le> p" "p < run_end r" for p
    using run_cut.at_Some_iff [OF assms(1), of p "run_value r p"] assms(3) that by blast
  from this [of "rr_file_offset_start r"] this [of "run_end r - 1"] show ?thesis
    using assms(2) [of "rr_file_offset_start r"] assms(2) [of "run_end r - 1"] lt by auto
qed

lemma runs_at_inside:
  assumes "\<forall>x\<in>set xs. a \<le> rx_file_offset_start x \<and> run_end (rx_run x) \<le> b" "run_extents_ok xs" "run_extents_at xs p \<noteq> None"
  shows "a \<le> p \<and> p < b"
proof -
  obtain x where "x \<in> set xs" "rr_file_offset_start (rx_run x) \<le> p" "p < run_end (rx_run x)"
    using assms(3) run_cut.at_mem [of "map rx_run xs" p] by fastforce
  with assms(1,2) show ?thesis
    by (fastforce simp: run_extents_ok_def extent_of_run_fields)
qed

lemma replace_run_extents_Inr:
  assumes "replace_run_backed_file_extents xs r ys = Inr out" "run_extents_ok xs" "0 < byte_len r" "run_extents_ok ys"
    and "\<forall>y\<in>set ys. byte_offset r \<le> rx_file_offset_start y \<and> run_end (rx_run y) \<le> byte_offset r + byte_len r"
  shows "run_extents_ok out" "\<And>p. run_extents_at out p =
      (if byte_offset r \<le> p \<and> p < byte_offset r + byte_len r then run_extents_at ys p else run_extents_at xs p)"
proof -
  have lim: "byte_offset r + byte_len r < u64_limit"
    using assms(1) by (auto simp: replace_run_backed_file_extents_def)
  obtain out' where out': "replace_run_backed_file_extents xs r ys = Inr out'" "run_extents_ok out'"
    "\<And>p. run_extents_at out' p =
      (if byte_offset r \<le> p \<and> p < byte_offset r + byte_len r then run_extents_at ys p else run_extents_at xs p)"
    using replace_run_extents_exact [OF assms(2,3) lim assms(4,5)] by blast
  then show "run_extents_ok out" "\<And>p. run_extents_at out p =
      (if byte_offset r \<le> p \<and> p < byte_offset r + byte_len r then run_extents_at ys p else run_extents_at xs p)"
    using assms(1) by simp_all
qed

lemma replaced_runs_inside:
  assumes "run_extents_ok out" "run_extents_ok xs" "run_extents_ok ys"
    and "\<And>p. run_extents_at out p = (if P p then run_extents_at ys p else run_extents_at xs p)"
    and "\<forall>x\<in>set xs. a \<le> rx_file_offset_start x \<and> run_end (rx_run x) \<le> b"
    and "\<forall>x\<in>set ys. a \<le> rx_file_offset_start x \<and> run_end (rx_run x) \<le> b"
  shows "\<forall>x\<in>set out. a \<le> rx_file_offset_start x \<and> run_end (rx_run x) \<le> b"
proof
  fix x
  assume x: "x \<in> set out"
  have "a \<le> p \<and> p < b" if "run_extents_at out p \<noteq> None" for p
    using that assms(4) [of p] runs_at_inside [OF assms(5,2), of p] runs_at_inside [OF assms(6,3), of p] by (simp split: if_splits)
  then have "a \<le> rr_file_offset_start (rx_run x) \<and> run_end (rx_run x) \<le> b"
    using runs_inside [of "map rx_run out" a b "rx_run x"] assms(1) x by (simp add: run_extents_ok_def)
  then show "a \<le> rx_file_offset_start x \<and> run_end (rx_run x) \<le> b"
    using assms(1) x by (auto simp: run_extents_ok_def extent_of_run_fields)
qed

section \<open>Leaves\<close>

text \<open>What an edit makes of the two maps.\<close>

definition edit_block :: "tree_range_edit \<Rightarrow> nat \<Rightarrow> segment_block option \<Rightarrow> segment_block option" where
  "edit_block edit b v =
    (if b \<in> blocks_of (te_range edit)
     then map_option (\<lambda>s. (sp_segment_id s, b - sp_segment_base s)) (te_replacement edit) else v)"

definition edit_run :: "nat \<Rightarrow> tree_range_edit \<Rightarrow> nat \<Rightarrow> log_position option \<Rightarrow> log_position option" where
  "edit_run bs edit p v = (if p div bs \<in> blocks_of (te_range edit) then None else v)"

lemma block_bytes: "0 < (bs::nat) \<Longrightarrow> a * bs \<le> p \<and> p < b * bs \<longleftrightarrow> a \<le> p div bs \<and> p div bs < b"
  by (metis div_less_iff_less_mult less_eq_div_iff_mult_less_eq)

lemma edit_leaf_correct:
  assumes "edit_leaf bs cover o' (te_replacement edit) (es, xs) = Inr (es', xs')" "leaf_ok bs cover es xs" "0 < bs"
    and "range_start cover \<le> range_start o'" "range_stop o' \<le> range_stop cover" "0 < range_blocks o'" "range_ok cover"
    and "\<And>b. b \<in> blocks_of cover \<Longrightarrow> b \<in> blocks_of o' \<longleftrightarrow> b \<in> blocks_of (te_range edit)"
  shows "leaf_ok bs cover es' xs'"
    "\<And>b. b \<in> blocks_of cover \<Longrightarrow> leaf_at es' b = edit_block edit b (leaf_at es b)"
    "\<And>p. p div bs \<in> blocks_of cover \<Longrightarrow> run_extents_at xs' p = edit_run bs edit p (run_extents_at xs p)"
proof -
  obtain rep ob where rep: "replacement_entry o' (te_replacement edit) = Inr rep"
    and es': "replace_leaf_entries es cover o' rep = Inr es'" and ob: "block_range_to_byte_range o' bs = Inr ob"
    and xs': "replace_run_backed_file_extents xs ob [] = Inr xs'"
    using assms(1) by (auto simp: edit_leaf_def)
  have leaf: "entries_ok cover es" "\<forall>e\<in>set es. le_segment_offset e + le_blocks e < u64_limit" "run_extents_ok xs"
    "\<forall>x\<in>set xs. range_start cover * bs \<le> rx_file_offset_start x \<and> run_end (rx_run x) \<le> range_stop cover * bs"
    using assms(2) by (simp_all add: leaf_ok_def)
  have new: "\<forall>e. rep = Some e \<longrightarrow> logical_range e = o' \<and> le_segment_offset e + le_blocks e < u64_limit"
    using rep assms(5,7) by (auto simp: replacement_entry_def logical_range_def range_ok_def split: option.splits)
  note entries = replace_leaf_entries_override [OF es' leaf(1,2) new]
  have bytes: "byte_offset ob = range_start o' * bs" "byte_len ob = range_blocks o' * bs"
    using ob by (auto simp: block_range_to_byte_range_def)
  have nil: "run_extents_ok []"
    by (simp add: run_extents_ok_def run_cut.ordered_Nil)
  have pos: "0 < byte_len ob"
    using bytes assms(3,6) by simp
  have run_Nil: "run_extents_at [] p = None" for p
    by (simp add: extent_at_def)
  note runs = replace_run_extents_Inr [OF xs' leaf(3) pos nil, simplified]
  have inside: "\<forall>x\<in>set xs'. range_start cover * bs \<le> rx_file_offset_start x \<and> run_end (rx_run x) \<le> range_stop cover * bs"
    by (rule replaced_runs_inside [OF runs(1) leaf(3) nil _ leaf(4),
          where P = "\<lambda>p. byte_offset ob \<le> p \<and> p < byte_offset ob + byte_len ob"]) (simp_all add: runs(2))
  show "leaf_ok bs cover es' xs'"
    using entries(1,2) runs(1) inside by (simp add: leaf_ok_def)
  show "leaf_at es' b = edit_block edit b (leaf_at es b)" if "b \<in> blocks_of cover" for b
    using entries(3) [of b] assms(8) [OF that] rep
    by (auto simp: edit_block_def replacement_entry_def leaf_value_def split: option.splits)
  show "run_extents_at xs' p = edit_run bs edit p (run_extents_at xs p)" if "p div bs \<in> blocks_of cover" for p
  proof -
    have "byte_offset ob \<le> p \<and> p < byte_offset ob + byte_len ob \<longleftrightarrow> p div bs \<in> blocks_of o'"
      using block_bytes [OF assms(3), of "range_start o'" p "range_stop o'"] by (simp add: bytes add_mult_distrib)
    then show ?thesis
      using runs(2) [of p] assms(8) [OF that] run_Nil [of p] by (auto simp: edit_run_def)
  qed
qed

end
