(* ===== verification/Spec2Isabelle.thy ===== *)
theory Spec2Isabelle
  imports Batch_Collapse Metadata_Collect Tree_Leaf
begin

text \<open>
  Verification of a copy-on-write block and file storage provider (Rust crate
  \<^verbatim>\<open>toy-cow-block-storage\<close>).

  Theories, in dependency order:

  \<^item> \<^verbatim>\<open>Prelude\<close>: results, state-changing operations, ordered maps, checked arithmetic.
  \<^item> \<^verbatim>\<open>Base\<close>: errors, identifiers, constants.
  \<^item> \<^verbatim>\<open>Api\<close>: the public block API, its ranges and request validation.
\<close>

end
